(* ===== verification/Prelude.thy ===== *)
theory Prelude
  imports Main "HOL-Library.Char_ord" "HOL-Library.List_Lexorder" "HOL-Library.Sublist"
    "HOL-Library.Multiset" "HOL-Library.Code_Target_Nat"
begin

text \<open>
  The vocabulary shared by all the component theories: results that are a value or an error,
  Go's 64-bit integers, Go's times and durations, Go's maps as association lists with distinct
  keys, and the sorting of a map's entries.

  A Go function that returns \<open>(T, error)\<close> is a function into \<open>'e + 'a\<close>, \<open>Inl\<close> being the
  error. Error texts are not rendered: each error of a package is a constructor of that package's
  error datatype, whose arguments are the values the Go code formats into the message.
\<close>

named_theorems res_simps \<open>equations and inversion rules for results\<close>
named_theorems gm_simps \<open>lookup, update and delete on Go maps\<close>

section \<open>Results\<close>

definition rbind :: "'e + 'a \<Rightarrow> ('a \<Rightarrow> 'e + 'b) \<Rightarrow> 'e + 'b" where
  "rbind m f = (case m of Inl e \<Rightarrow> Inl e | Inr x \<Rightarrow> f x)"

lemma rbind_simps [simp, code]:
  "rbind (Inl e) f = Inl e"
  "rbind (Inr x) f = f x"
  by (simp_all add: rbind_def)

lemma rbind_Inr_iff [res_simps]: "rbind m f = Inr y \<longleftrightarrow> (\<exists>x. m = Inr x \<and> f x = Inr y)"
  by (cases m) auto

lemma rbind_Inl_iff [res_simps]:
  "rbind m f = Inl e \<longleftrightarrow> m = Inl e \<or> (\<exists>x. m = Inr x \<and> f x = Inl e)"
  by (cases m) auto

lemma rbind_cong [fundef_cong]:
  "m = m' \<Longrightarrow> (\<And>x. m' = Inr x \<Longrightarrow> f x = f' x) \<Longrightarrow> rbind m f = rbind m' f'"
  by (cases m') auto

text \<open>Go's \<open>if cond { return err }\<close>.\<close>

definition fail_if :: "bool \<Rightarrow> 'e \<Rightarrow> 'e + unit" where
  "fail_if b e = (if b then Inl e else Inr ())"

lemma fail_if_simps [simp]:
  "fail_if True e = Inl e"
  "fail_if False e = Inr ()"
  by (simp_all add: fail_if_def)

lemma fail_if_iff [res_simps]:
  "fail_if b e = Inr u \<longleftrightarrow> \<not> b"
  "fail_if b e = Inl e' \<longleftrightarrow> b \<and> e' = e"
  by (auto simp: fail_if_def)

definition is_ok :: "'e + 'a \<Rightarrow> bool" where
  "is_ok r = (case r of Inl _ \<Rightarrow> False | Inr _ \<Rightarrow> True)"

lemma is_ok_simps [simp]: "is_ok (Inl e) = False" "is_ok (Inr x) = True"
  by (simp_all add: is_ok_def)

lemma is_ok_iff [res_simps]: "is_ok r \<longleftrightarrow> (\<exists>x. r = Inr x)"
  by (cases r) auto

definition map_err :: "('e \<Rightarrow> 'f) \<Rightarrow> 'e + 'a \<Rightarrow> 'f + 'a" where
  "map_err g r = (case r of Inl e \<Rightarrow> Inl (g e) | Inr x \<Rightarrow> Inr x)"

lemma map_err_simps [simp]:
  "map_err g (Inl e) = Inl (g e)"
  "map_err g (Inr x) = Inr x"
  by (simp_all add: map_err_def)

lemma map_err_iff [res_simps]:
  "map_err g r = Inr x \<longleftrightarrow> r = Inr x"
  "map_err g r = Inl f \<longleftrightarrow> (\<exists>e. r = Inl e \<and> f = g e)"
  by (cases r; auto)+

text \<open>
  A Go loop that normalises each element of a slice, stops at the first error and wraps it with
  the element's index.
\<close>

fun traverse_from :: "nat \<Rightarrow> (nat \<Rightarrow> 'a \<Rightarrow> 'e + 'b) \<Rightarrow> 'a list \<Rightarrow> 'e + 'b list" where
  "traverse_from i f [] = Inr []"
| "traverse_from i f (x # xs) =
     rbind (f i x) (\<lambda>y. rbind (traverse_from (Suc i) f xs) (\<lambda>ys. Inr (y # ys)))"

lemma traverse_from_length: "traverse_from i f xs = Inr ys \<Longrightarrow> length ys = length xs"
  by (induction xs arbitrary: i ys) (auto simp: res_simps)

lemma traverse_from_nth:
  "traverse_from i f xs = Inr ys \<Longrightarrow> k < length xs \<Longrightarrow> f (i + k) (xs ! k) = Inr (ys ! k)"
proof (induction xs arbitrary: i ys k)
  case Nil
  then show ?case by simp
next
  case (Cons x xs)
  then obtain y zs where y: "f i x = Inr y" and zs: "traverse_from (Suc i) f xs = Inr zs"
    and ys: "ys = y # zs" by (auto simp: res_simps)
  show ?case
  proof (cases k)
    case 0
    with y ys show ?thesis by simp
  next
    case (Suc m)
    with Cons.prems have "m < length xs" by simp
    from Cons.IH [OF zs this] Suc ys show ?thesis by simp
  qed
qed

lemma traverse_from_set:
  assumes "traverse_from i f xs = Inr ys" and "y \<in> set ys"
  shows "\<exists>j. \<exists>x \<in> set xs. f j x = Inr y"
proof -
  from assms(2) obtain k where k: "k < length ys" "y = ys ! k"
    by (auto simp: in_set_conv_nth)
  with traverse_from_length [OF assms(1)] have "k < length xs" by simp
  with traverse_from_nth [OF assms(1) this] k show ?thesis
    by (metis nth_mem)
qed

lemma traverse_from_fixpoint:
  "(\<And>j x. x \<in> set xs \<Longrightarrow> f j x = Inr x) \<Longrightarrow> traverse_from i f xs = Inr xs"
  by (induction xs arbitrary: i) auto

section \<open>Go integers, times and durations\<close>

text \<open>The value of an \<open>int64\<close> (or \<open>int\<close> on 64-bit targets) after arithmetic that may overflow.\<close>

definition wrap64 :: "int \<Rightarrow> int" where
  "wrap64 x = (x + 2 ^ 63) mod 2 ^ 64 - 2 ^ 63"

definition max_int64 :: int where "max_int64 = 2 ^ 63 - 1"
definition min_int64 :: int where "min_int64 = - (2 ^ 63)"

definition int64_range :: "int \<Rightarrow> bool" where
  "int64_range x \<longleftrightarrow> min_int64 \<le> x \<and> x \<le> max_int64"

lemma wrap64_range: "int64_range (wrap64 x)"
proof -
  have "0 \<le> (x + 2 ^ 63) mod 2 ^ 64" "(x + 2 ^ 63) mod 2 ^ 64 < (2 ^ 64 :: int)"
    by simp_all
  then show ?thesis
    by (simp add: wrap64_def int64_range_def min_int64_def max_int64_def)
qed

lemma wrap64_id: "int64_range x \<Longrightarrow> wrap64 x = x"
  by (simp add: wrap64_def int64_range_def min_int64_def max_int64_def)

lemma wrap64_succ: "int64_range x \<Longrightarrow> x < max_int64 \<Longrightarrow> wrap64 (x + 1) = x + 1"
  by (rule wrap64_id) (simp add: int64_range_def max_int64_def min_int64_def)

text \<open>The value of an \<open>int32\<close> conversion.\<close>

definition wrap32 :: "int \<Rightarrow> int" where
  "wrap32 x = (x + 2 ^ 31) mod 2 ^ 32 - 2 ^ 31"

lemma wrap32_id: "- (2 ^ 31) \<le> x \<Longrightarrow> x < 2 ^ 31 \<Longrightarrow> wrap32 x = x"
  by (simp add: wrap32_def)

text \<open>Go's \<open>/\<close> and \<open>%\<close> truncate towards zero.\<close>

definition go_div :: "int \<Rightarrow> int \<Rightarrow> int" where
  "go_div a b = sgn a * sgn b * (\<bar>a\<bar> div \<bar>b\<bar>)"

definition go_rem :: "int \<Rightarrow> int \<Rightarrow> int" where
  "go_rem a b = a - b * go_div a b"

lemma go_div_nonneg: "0 \<le> a \<Longrightarrow> 0 < b \<Longrightarrow> go_div a b = a div b"
  by (cases "a = 0") (auto simp: go_div_def)

lemma go_rem_nonneg: "0 \<le> a \<Longrightarrow> 0 < b \<Longrightarrow> go_rem a b = a mod b"
  by (simp add: go_rem_def go_div_nonneg minus_mult_div_eq_mod)

text \<open>
  A \<open>time.Time\<close> is the number of nanoseconds since Go's zero time (1 January of year 1, UTC), so
  that \<open>IsZero\<close> is being 0 and \<open>Before\<close>, \<open>After\<close>, \<open>Equal\<close> are the order of the integers. A
  \<open>time.Duration\<close> is its number of nanoseconds. The clock is an argument of the operations that
  read it.
\<close>

type_synonym gotime = int
type_synonym duration = int

definition time_zero :: gotime where "time_zero = 0"
definition nsec_per_sec :: int where "nsec_per_sec = 1000000000"
definition unix_epoch_sec :: int where "unix_epoch_sec = 62135596800"

definition is_zero_time :: "gotime \<Rightarrow> bool" where "is_zero_time t \<longleftrightarrow> t = 0"

definition second :: duration where "second = nsec_per_sec"
definition hour :: duration where "hour = 3600 * nsec_per_sec"

definition unix_of :: "gotime \<Rightarrow> int" where
  "unix_of t = t div nsec_per_sec - unix_epoch_sec"

definition time_of_unix :: "int \<Rightarrow> gotime" where
  "time_of_unix s = (s + unix_epoch_sec) * nsec_per_sec"

definition unix_micro_of :: "gotime \<Rightarrow> int" where
  "unix_micro_of t = (t - unix_epoch_sec * nsec_per_sec) div 1000"

definition time_of_unix_micro :: "int \<Rightarrow> gotime" where
  "time_of_unix_micro u = unix_epoch_sec * nsec_per_sec + u * 1000"

text \<open>\<open>Time.Sub\<close> saturates at the range of a duration.\<close>

definition time_sub :: "gotime \<Rightarrow> gotime \<Rightarrow> duration" where
  "time_sub t u = max min_int64 (min max_int64 (t - u))"

lemma unix_of_time_of_unix [simp]: "unix_of (time_of_unix s) = s"
  by (simp add: unix_of_def time_of_unix_def nsec_per_sec_def)

section \<open>Go maps\<close>

text \<open>
  A Go map is an association list whose keys are distinct. The order of the list stands for the
  order in which a \<open>range\<close> loop visits the entries, which Go leaves open: \<open>sorted_entries_unique\<close>
  shows that the code's \<open>collect, then sort by key\<close> loops do not depend on it.
\<close>

type_synonym ('k, 'v) gomap = "('k \<times> 'v) list"

abbreviation gm_get :: "('k, 'v) gomap \<Rightarrow> 'k \<Rightarrow> 'v option" where
  "gm_get m k \<equiv> map_of m k"

fun gm_put :: "'k \<Rightarrow> 'v \<Rightarrow> ('k, 'v) gomap \<Rightarrow> ('k, 'v) gomap" where
  "gm_put k v [] = [(k, v)]"
| "gm_put k v ((k', v') # m) = (if k = k' then (k, v) # m else (k', v') # gm_put k v m)"

definition gm_del :: "'k \<Rightarrow> ('k, 'v) gomap \<Rightarrow> ('k, 'v) gomap" where
  "gm_del k m = filter (\<lambda>e. fst e \<noteq> k) m"

definition gm_wf :: "('k, 'v) gomap \<Rightarrow> bool" where
  "gm_wf m \<longleftrightarrow> distinct (map fst m)"

lemma gm_get_put [gm_simps]: "gm_get (gm_put k v m) = (gm_get m)(k \<mapsto> v)"
  by (induction m) (auto simp: fun_eq_iff)

lemma gm_get_del [gm_simps]: "gm_get (gm_del k m) = (gm_get m)(k := None)"
  by (induction m) (auto simp: gm_del_def fun_eq_iff)

lemma gm_keys_put: "fst ` set (gm_put k v m) = insert k (fst ` set m)"
  by (induction k v m rule: gm_put.induct) (auto split: if_splits)

lemma gm_keys_del: "fst ` set (gm_del k m) = fst ` set m - {k}"
  by (auto simp: gm_del_def)

lemma gm_wf_Nil [simp, intro]: "gm_wf []"
  by (simp add: gm_wf_def)

lemma gm_wf_put [intro]: "gm_wf m \<Longrightarrow> gm_wf (gm_put k v m)"
  unfolding gm_wf_def
proof (induction m)
  case Nil
  then show ?case by simp
next
  case (Cons e m)
  obtain k' v' where e: "e = (k', v')" by (cases e)
  with Cons show ?case
    using gm_keys_put [of k v m] by auto
qed

lemma gm_wf_del [intro]: "gm_wf m \<Longrightarrow> gm_wf (gm_del k m)"
  by (auto simp: gm_wf_def gm_del_def distinct_map_filter)

lemma gm_wf_filter: "gm_wf m \<Longrightarrow> gm_wf (filter P m)"
  by (auto simp: gm_wf_def distinct_map_filter)

lemma gm_get_filter:
  "gm_wf m \<Longrightarrow> gm_get (filter P m) k =
     (case gm_get m k of None \<Rightarrow> None | Some v \<Rightarrow> if P (k, v) then Some v else None)"
proof (induction m)
  case Nil
  then show ?case by simp
next
  case (Cons e m)
  obtain k' v' where e: "e = (k', v')" by (cases e)
  from Cons.prems e have wf: "gm_wf m" and new: "k' \<notin> fst ` set m"
    by (auto simp: gm_wf_def)
  from new have "gm_get m k' = None" by (simp add: map_of_eq_None_iff)
  with Cons.IH [OF wf] e show ?case by (auto split: option.splits)
qed

lemma gm_in_set_iff: "gm_wf m \<Longrightarrow> (k, v) \<in> set m \<longleftrightarrow> gm_get m k = Some v"
  by (simp add: gm_wf_def)

lemma gm_get_in_set: "gm_get m k = Some v \<Longrightarrow> (k, v) \<in> set m"
  by (rule map_of_SomeD)

lemma gm_length_put_new: "gm_get m k = None \<Longrightarrow> length (gm_put k v m) = Suc (length m)"
  by (induction m) (auto split: if_splits)

lemma gm_length_put_old: "gm_get m k = Some v' \<Longrightarrow> length (gm_put k v m) = length m"
  by (induction m) (auto split: if_splits)

text \<open>A table built by a loop that stores each element of a list under its own key.\<close>

lemma find_key_iff:
  assumes "distinct (map key ns)"
  shows "find (\<lambda>n. key n = k) ns = Some e \<longleftrightarrow> e \<in> set ns \<and> key e = k"
  using assms
proof (induction ns)
  case Nil
  then show ?case by simp
next
  case (Cons n ns)
  show ?case
  proof (cases "key n = k")
    case True
    with Cons.prems have "\<And>x. x \<in> set ns \<Longrightarrow> key x \<noteq> k" by (auto simp: image_iff)
    with True show ?thesis by auto
  next
    case False
    with Cons show ?thesis by auto
  qed
qed

lemma gm_get_fold_put:
  assumes "distinct (map key ns)"
  shows "gm_get (fold (\<lambda>n. gm_put (key n) n) ns m) k =
    (case find (\<lambda>n. key n = k) ns of Some n \<Rightarrow> Some n | None \<Rightarrow> gm_get m k)"
  using assms
proof (induction ns arbitrary: m)
  case Nil
  then show ?case by simp
next
  case (Cons n ns)
  show ?case
  proof (cases "key n = k")
    case True
    with Cons.prems have "find (\<lambda>n. key n = k) ns = None"
      by (auto simp: find_None_iff image_iff)
    with True Cons show ?thesis by (simp add: gm_simps)
  next
    case False
    with Cons show ?thesis by (auto simp: gm_simps split: option.splits)
  qed
qed

lemma gm_get_table:
  "distinct (map key ns) \<Longrightarrow>
     gm_get (fold (\<lambda>n. gm_put (key n) n) ns []) k = Some e \<longleftrightarrow> e \<in> set ns \<and> key e = k"
  by (simp add: gm_get_fold_put find_key_iff [symmetric] split: option.splits)

lemma list_all2_stable:
  "list_all2 (\<lambda>x y. f x = Inr y) xs ys \<Longrightarrow> (\<And>x y. f x = Inr y \<Longrightarrow> f y = Inr y) \<Longrightarrow>
     list_all2 (\<lambda>x y. f x = Inr y) ys ys"
  by (induction xs ys rule: list_all2_induct) auto

text \<open>
  The contract of a Go map, as the components use it: what a lookup returns after an insert or a
  delete, and that both keep the representation's invariant.
\<close>

locale go_map =
  fixes get :: "'m \<Rightarrow> 'k \<Rightarrow> 'v option"
    and put :: "'k \<Rightarrow> 'v \<Rightarrow> 'm \<Rightarrow> 'm"
    and del :: "'k \<Rightarrow> 'm \<Rightarrow> 'm"
    and wf :: "'m \<Rightarrow> bool"
  assumes get_put: "get (put k v m) k' = (if k' = k then Some v else get m k')"
    and get_del: "get (del k m) k' = (if k' = k then None else get m k')"
    and wf_put: "wf m \<Longrightarrow> wf (put k v m)"
    and wf_del: "wf m \<Longrightarrow> wf (del k m)"
begin

lemma get_put_same: "get (put k v m) k = Some v"
  by (simp add: get_put)

lemma get_put_other: "k' \<noteq> k \<Longrightarrow> get (put k v m) k' = get m k'"
  by (simp add: get_put)

lemma get_del_put: "get (del k (put k v m)) k' = get (del k m) k'"
  by (simp add: get_del get_put)

lemma get_put_put: "get (put k v (put k v' m)) k' = get (put k v m) k'"
  by (simp add: get_put)

lemma get_fold_put_notin:
  "k \<notin> key ` set xs \<Longrightarrow> get (fold (\<lambda>x. put (key x) (val x)) xs m) k = get m k"
  by (induction xs arbitrary: m) (auto simp: get_put)

lemma wf_fold_put: "wf m \<Longrightarrow> wf (fold (\<lambda>x. put (key x) (val x)) xs m)"
  by (induction xs arbitrary: m) (auto intro: wf_put)

end

interpretation gm: go_map map_of gm_put gm_del gm_wf
  by unfold_locales (auto simp: gm_simps)

section \<open>Sorting\<close>

text \<open>
  \<open>sort.Slice\<close> by a key. Go does not say in which order elements with equal keys come; the model
  takes the stable order, and no theorem depends on it: keys are distinct wherever a list comes
  from a map.
\<close>

abbreviation sort_slice :: "('a \<Rightarrow> 'k::linorder) \<Rightarrow> 'a list \<Rightarrow> 'a list" where
  "sort_slice \<equiv> sort_key"

definition sorted_vals :: "('k::linorder, 'v) gomap \<Rightarrow> 'v list" where
  "sorted_vals m = map snd (sort_slice fst m)"

lemma distinct_map_sort_key: "distinct (map f xs) \<Longrightarrow> distinct (map f (sort_key g xs))"
  by (simp add: distinct_map)

lemma sorted_key_unique:
  assumes "mset xs = mset ys" and "distinct (map f xs)"
    and "sorted (map f xs)" and "sorted (map f ys)"
  shows "xs = ys"
proof -
  from assms(1) have s: "set xs = set ys" by (metis set_mset_mset)
  from assms(1) have "mset (map f xs) = mset (map f ys)" by simp
  then have m: "map f xs = map f ys"
    by (metis assms(3,4) properties_for_sort sorted_sort_id)
  from assms(2) have "inj_on f (set xs)" by (simp add: distinct_map)
  then show ?thesis
    using map_inj_on [OF m] s by simp
qed

lemma sorted_entries_unique:
  assumes "gm_wf m" and "mset xs = mset m" and "sorted (map fst xs)"
  shows "map snd xs = sorted_vals m"
proof -
  have "sort_key fst m = xs"
  proof (rule sorted_key_unique [where f = fst])
    show "mset (sort_key fst m) = mset xs" using assms(2) by simp
    show "distinct (map fst (sort_key fst m))"
      using assms(1) unfolding gm_wf_def by (rule distinct_map_sort_key)
    show "sorted (map fst (sort_key fst m))" by (rule sorted_sort_key)
    show "sorted (map fst xs)" by (rule assms(3))
  qed
  then show ?thesis by (simp add: sorted_vals_def)
qed

lemma set_sorted_vals: "gm_wf m \<Longrightarrow> v \<in> set (sorted_vals m) \<longleftrightarrow> (\<exists>k. gm_get m k = Some v)"
  by (force simp: sorted_vals_def gm_wf_def)

lemma length_sorted_vals [simp]: "length (sorted_vals m) = length m"
  by (simp add: sorted_vals_def)

end
