(* ===== verification/Go_Strings.thy ===== *)
theory Go_Strings
  imports Prelude
begin

text \<open>
  The part of Go's \<open>strings\<close>, \<open>strconv\<close> and \<open>net\<close> packages that the mesh uses on strings. A Go
  string is its list of bytes. \<open>TrimSpace\<close> is exact on every byte sequence: it removes the UTF-8
  encodings of the Unicode white space characters. \<open>ToLower\<close> and the case folding of \<open>EqualFold\<close>
  are exact on ASCII and on the non-ASCII characters that map to ASCII letters (Kelvin sign,
  dotted capital I, long s); every caller rejects a string that keeps other non-ASCII bytes, or
  compares it with an ASCII constant.
\<close>

section \<open>White space\<close>

definition go_spaces :: "string list" where
  "go_spaces =
     [[CHR 0x09], [CHR 0x0A], [CHR 0x0B], [CHR 0x0C], [CHR 0x0D], [CHR 0x20],
      [CHR 0xC2, CHR 0x85], [CHR 0xC2, CHR 0xA0], [CHR 0xE1, CHR 0x9A, CHR 0x80]]
     @ map (\<lambda>c. [CHR 0xE2, CHR 0x80, c])
         [CHR 0x80, CHR 0x81, CHR 0x82, CHR 0x83, CHR 0x84, CHR 0x85, CHR 0x86, CHR 0x87,
          CHR 0x88, CHR 0x89, CHR 0x8A, CHR 0xA8, CHR 0xA9, CHR 0xAF]
     @ [[CHR 0xE2, CHR 0x81, CHR 0x9F], [CHR 0xE3, CHR 0x80, CHR 0x80]]"

text \<open>Remove tokens from the front of a string as long as one of them is a prefix of it.\<close>

function strip_toks :: "string list \<Rightarrow> string \<Rightarrow> string" where
  "strip_toks ts s =
     (case find (\<lambda>t. t \<noteq> [] \<and> prefix t s) ts of
        None \<Rightarrow> s
      | Some t \<Rightarrow> strip_toks ts (drop (length t) s))"
  by pat_completeness auto
termination
  by (relation "measure (\<lambda>(ts, s). length s)")
    (auto simp: find_Some_iff prefix_def)

declare strip_toks.simps [simp del]

definition trim_space :: "string \<Rightarrow> string" where
  "trim_space s = rev (strip_toks (map rev go_spaces) (rev (strip_toks go_spaces s)))"

definition trimmed :: "string \<Rightarrow> bool" where
  "trimmed s \<longleftrightarrow> (\<forall>t \<in> set go_spaces. \<not> prefix t s \<and> \<not> suffix t s)"

lemma go_spaces_nonempty: "[] \<notin> set go_spaces"
  by (simp add: go_spaces_def)

lemma strip_toks_no_prefix:
  "t \<in> set ts \<Longrightarrow> t \<noteq> [] \<Longrightarrow> \<not> prefix t (strip_toks ts s)"
proof (induction ts s rule: strip_toks.induct)
  case (1 ts s)
  show ?case
  proof (cases "find (\<lambda>t. t \<noteq> [] \<and> prefix t s) ts")
    case None
    then have "strip_toks ts s = s" by (subst strip_toks.simps) simp
    with None "1.prems" show ?thesis by (auto simp: find_None_iff)
  next
    case (Some u)
    from "1.IH" [OF Some "1.prems"] Some show ?thesis
      by (subst strip_toks.simps) simp
  qed
qed

lemma strip_toks_suffix: "suffix (strip_toks ts s) s"
proof (induction ts s rule: strip_toks.induct)
  case (1 ts s)
  show ?case
  proof (cases "find (\<lambda>t. t \<noteq> [] \<and> prefix t s) ts")
    case None
    then show ?thesis by (subst strip_toks.simps) simp
  next
    case (Some u)
    from "1.IH" [OF Some] have "suffix (strip_toks ts (drop (length u) s)) s"
      by (rule suffix_order.trans) (rule suffix_drop)
    with Some show ?thesis by (subst strip_toks.simps) simp
  qed
qed

lemma strip_toks_id:
  "(\<And>t. t \<in> set ts \<Longrightarrow> t \<noteq> [] \<Longrightarrow> \<not> prefix t s) \<Longrightarrow> strip_toks ts s = s"
proof -
  assume "\<And>t. t \<in> set ts \<Longrightarrow> t \<noteq> [] \<Longrightarrow> \<not> prefix t s"
  then have "find (\<lambda>t. t \<noteq> [] \<and> prefix t s) ts = None"
    by (auto simp: find_None_iff)
  then show ?thesis by (subst strip_toks.simps) simp
qed

lemma trim_space_trimmed: "trimmed (trim_space s)"
  unfolding trimmed_def
proof (intro ballI conjI)
  fix t assume t: "t \<in> set go_spaces"
  then have ne: "t \<noteq> []" using go_spaces_nonempty by auto
  let ?l = "strip_toks go_spaces s"
  let ?r = "strip_toks (map rev go_spaces) (rev ?l)"
  have "\<not> prefix (rev t) ?r"
    by (rule strip_toks_no_prefix) (use t ne in auto)
  then show "\<not> suffix t (trim_space s)"
    by (simp add: trim_space_def suffix_to_prefix)
  have "suffix ?r (rev ?l)" by (rule strip_toks_suffix)
  then have "prefix (rev ?r) ?l" by (simp add: suffix_to_prefix)
  moreover have "\<not> prefix t ?l" by (rule strip_toks_no_prefix [OF t ne])
  ultimately show "\<not> prefix t (trim_space s)"
    using prefix_order.trans by (auto simp: trim_space_def)
qed

lemma trim_space_id: "trimmed s \<Longrightarrow> trim_space s = s"
proof -
  assume tr: "trimmed s"
  then have l: "strip_toks go_spaces s = s"
    by (auto intro!: strip_toks_id simp: trimmed_def)
  from tr have "strip_toks (map rev go_spaces) (rev s) = rev s"
    by (auto intro!: strip_toks_id simp: trimmed_def suffix_to_prefix)
  with l show ?thesis by (simp add: trim_space_def)
qed

lemma trim_space_idem [simp]: "trim_space (trim_space s) = trim_space s"
  by (rule trim_space_id) (rule trim_space_trimmed)

lemma set_trim_space: "set (trim_space s) \<subseteq> set s"
proof -
  let ?l = "strip_toks go_spaces s"
  have "set (strip_toks (map rev go_spaces) (rev ?l)) \<subseteq> set (rev ?l)"
    by (rule set_mono_suffix) (rule strip_toks_suffix)
  moreover have "set ?l \<subseteq> set s" by (rule set_mono_suffix) (rule strip_toks_suffix)
  ultimately show ?thesis by (auto simp: trim_space_def)
qed

lemma trim_space_Nil [simp]: "trim_space [] = []"
  by (rule trim_space_id) (use go_spaces_nonempty in \<open>auto simp: trimmed_def\<close>)

text \<open>Bytes at the ends of a string that are not part of any white space encoding.\<close>

definition plain_byte :: "char \<Rightarrow> bool" where
  "plain_byte c \<longleftrightarrow> (\<forall>t \<in> set go_spaces. hd t \<noteq> c \<and> last t \<noteq> c)"

lemma trimmed_plain:
  assumes "s \<noteq> []" and "plain_byte (hd s)" and "plain_byte (last s)"
  shows "trimmed s"
  unfolding trimmed_def
proof (intro ballI conjI)
  fix t assume t: "t \<in> set go_spaces"
  then have ne: "t \<noteq> []" using go_spaces_nonempty by auto
  show "\<not> prefix t s"
    using assms(2) t ne by (auto simp: plain_byte_def prefix_def)
  show "\<not> suffix t s"
    using assms(3) t ne by (auto simp: plain_byte_def suffix_def)
qed

section \<open>Splitting and joining\<close>

text \<open>\<open>strings.Split\<close> with a one-byte separator.\<close>

fun split_on :: "char \<Rightarrow> string \<Rightarrow> string list" where
  "split_on c [] = [[]]"
| "split_on c (x # xs) =
     (if x = c then [] # split_on c xs
      else (case split_on c xs of [] \<Rightarrow> [[x]] | y # ys \<Rightarrow> (x # y) # ys))"

fun join :: "string \<Rightarrow> string list \<Rightarrow> string" where
  "join sep [] = []"
| "join sep [x] = x"
| "join sep (x # y # ys) = x @ sep @ join sep (y # ys)"

lemma split_on_not_Nil [simp]: "split_on c s \<noteq> []"
  by (induction s) (auto split: list.splits)

lemma split_on_no_sep: "p \<in> set (split_on c s) \<Longrightarrow> c \<notin> set p"
proof (induction s arbitrary: p)
  case Nil
  then show ?case by simp
next
  case (Cons x xs)
  then show ?case
    by (cases "split_on c xs") (auto split: if_splits)
qed

lemma join_Cons: "ys \<noteq> [] \<Longrightarrow> join sep (x # ys) = x @ sep @ join sep ys"
  by (cases ys) auto

lemma join_split_on: "join [c] (split_on c s) = s"
proof (induction s)
  case Nil
  then show ?case by simp
next
  case (Cons x xs)
  show ?case
  proof (cases "x = c")
    case True
    with Cons show ?thesis by (simp add: join_Cons)
  next
    case False
    obtain y ys where sp: "split_on c xs = y # ys"
      by (cases "split_on c xs") auto
    with Cons False show ?thesis by (cases ys) auto
  qed
qed

lemma split_on_append_sep:
  "c \<notin> set x \<Longrightarrow> split_on c (x @ c # s) = x # split_on c s"
  by (induction x) auto

lemma split_on_no_occ: "c \<notin> set x \<Longrightarrow> split_on c x = [x]"
  by (induction x) auto

lemma split_on_join:
  "xs \<noteq> [] \<Longrightarrow> \<forall>x \<in> set xs. c \<notin> set x \<Longrightarrow> split_on c (join [c] xs) = xs"
proof (induction "[c]" xs rule: join.induct)
  case (2 x)
  then show ?case by (simp add: split_on_no_occ)
next
  case (3 x y ys)
  then show ?case by (simp add: split_on_append_sep)
qed simp

text \<open>\<open>strings.Cut\<close> at the first occurrence of a byte: before, after, found.\<close>

definition cut :: "char \<Rightarrow> string \<Rightarrow> (string \<times> string) option" where
  "cut c s = (if c \<in> set s then Some (takeWhile (\<lambda>x. x \<noteq> c) s, tl (dropWhile (\<lambda>x. x \<noteq> c) s))
              else None)"

text \<open>The parts around the last occurrence of a byte.\<close>

definition cut_last :: "char \<Rightarrow> string \<Rightarrow> (string \<times> string) option" where
  "cut_last c s = map_option (\<lambda>(a, b). (rev b, rev a)) (cut c (rev s))"

lemma cut_append: "c \<notin> set a \<Longrightarrow> cut c (a @ c # b) = Some (a, b)"
  by (simp add: cut_def takeWhile_append dropWhile_append)

lemma cut_None_iff: "cut c s = None \<longleftrightarrow> c \<notin> set s"
  by (simp add: cut_def)

lemma cut_Some: "cut c s = Some (a, b) \<Longrightarrow> s = a @ c # b \<and> c \<notin> set a"
proof -
  assume "cut c s = Some (a, b)"
  then have mem: "c \<in> set s" and a: "a = takeWhile (\<lambda>x. x \<noteq> c) s"
    and b: "b = tl (dropWhile (\<lambda>x. x \<noteq> c) s)" by (auto simp: cut_def split: if_splits)
  from mem obtain d ds where d: "dropWhile (\<lambda>x. x \<noteq> c) s = d # ds"
    by (cases "dropWhile (\<lambda>x. x \<noteq> c) s") (auto simp: dropWhile_eq_Nil_conv)
  then have "d = c" using hd_dropWhile [of "\<lambda>x. x \<noteq> c" s] by auto
  moreover have "s = a @ dropWhile (\<lambda>x. x \<noteq> c) s" by (simp add: a)
  moreover have "c \<notin> set a" by (auto simp: a dest: set_takeWhileD)
  ultimately show ?thesis using d b by simp
qed

lemma cut_last_append: "c \<notin> set b \<Longrightarrow> cut_last c (a @ c # b) = Some (a, b)"
  by (simp add: cut_last_def cut_append)

lemma cut_last_Some: "cut_last c s = Some (a, b) \<Longrightarrow> s = a @ c # b \<and> c \<notin> set b"
proof -
  assume "cut_last c s = Some (a, b)"
  then have "cut c (rev s) = Some (rev b, rev a)" by (auto simp: cut_last_def)
  from cut_Some [OF this] have "rev s = rev b @ c # rev a" and "c \<notin> set b" by auto
  then have "rev (rev s) = a @ c # b" by simp
  with \<open>c \<notin> set b\<close> show ?thesis by simp
qed

lemma cut_last_None_iff: "cut_last c s = None \<longleftrightarrow> c \<notin> set s"
  by (simp add: cut_last_def cut_None_iff)

section \<open>Letter case\<close>

definition lower_byte :: "char \<Rightarrow> char" where
  "lower_byte c = (if CHR ''A'' \<le> c \<and> c \<le> CHR ''Z'' then char_of (of_char c + 32 :: nat) else c)"

definition upper_byte :: "char \<Rightarrow> char" where
  "upper_byte c = (if CHR ''a'' \<le> c \<and> c \<le> CHR ''z'' then char_of (of_char c - 32 :: nat) else c)"

text \<open>\<open>strings.ToLower\<close>: U+212A (Kelvin sign) becomes k, U+0130 becomes i.\<close>

fun to_lower :: "string \<Rightarrow> string" where
  "to_lower [] = []"
| "to_lower (c # cs) =
     (if c = CHR 0xE2 \<and> take 2 cs = [CHR 0x84, CHR 0xAA] then CHR ''k'' # to_lower (drop 2 cs)
      else if c = CHR 0xC4 \<and> take 1 cs = [CHR 0xB0] then CHR ''i'' # to_lower (drop 1 cs)
      else lower_byte c # to_lower cs)"

text \<open>\<open>strings.ToUpper\<close>: U+0131 (dotless i) becomes I, U+017F (long s) becomes S.\<close>

fun to_upper :: "string \<Rightarrow> string" where
  "to_upper [] = []"
| "to_upper (c # cs) =
     (if c = CHR 0xC4 \<and> take 1 cs = [CHR 0xB1] then CHR ''I'' # to_upper (drop 1 cs)
      else if c = CHR 0xC5 \<and> take 1 cs = [CHR 0xBF] then CHR ''S'' # to_upper (drop 1 cs)
      else upper_byte c # to_upper cs)"

text \<open>
  \<open>strings.EqualFold\<close> against an ASCII string: both sides are folded to lower case, U+212A to k
  and U+017F (long s) to s.
\<close>

fun fold_case :: "string \<Rightarrow> string" where
  "fold_case [] = []"
| "fold_case (c # cs) =
     (if c = CHR 0xE2 \<and> take 2 cs = [CHR 0x84, CHR 0xAA] then CHR ''k'' # fold_case (drop 2 cs)
      else if c = CHR 0xC5 \<and> take 1 cs = [CHR 0xBF] then CHR ''s'' # fold_case (drop 1 cs)
      else lower_byte c # fold_case cs)"

definition equal_fold :: "string \<Rightarrow> string \<Rightarrow> bool" where
  "equal_fold a b \<longleftrightarrow> fold_case a = fold_case b"

definition is_lower :: "char \<Rightarrow> bool" where
  "is_lower c \<longleftrightarrow> CHR ''a'' \<le> c \<and> c \<le> CHR ''z''"

definition is_upper :: "char \<Rightarrow> bool" where
  "is_upper c \<longleftrightarrow> CHR ''A'' \<le> c \<and> c \<le> CHR ''Z''"

definition is_digit :: "char \<Rightarrow> bool" where
  "is_digit c \<longleftrightarrow> CHR ''0'' \<le> c \<and> c \<le> CHR ''9''"

lemma to_lower_ascii_id:
  "\<forall>c \<in> set s. \<not> is_upper c \<and> c < CHR 0x80 \<Longrightarrow> to_lower s = s"
proof (induction s rule: to_lower.induct)
  case (2 c cs)
  then have "\<not> is_upper c" "c < CHR 0x80" by auto
  then have "lower_byte c = c" "c \<noteq> CHR 0xE2" "c \<noteq> CHR 0xC4"
    by (auto simp: lower_byte_def is_upper_def)
  with 2 show ?case by auto
qed simp

end
