(* ===== verification/Go_Strconv.thy ===== *)
theory Go_Strconv
  imports Go_Strings
begin

text \<open>
  Decimal and hexadecimal conversions (\<open>strconv.Itoa\<close>, \<open>strconv.Atoi\<close>, \<open>encoding/hex\<close>) and
  \<open>net.SplitHostPort\<close>, with the round trips the code relies on. A byte slice is a list of
  characters, the byte \<open>c\<close> having the value \<open>of_char c\<close>.
\<close>

type_synonym bytes = "char list"

abbreviation byte_val :: "char \<Rightarrow> nat" where "byte_val c \<equiv> of_char c"

section \<open>Decimal numbers\<close>

definition digit_char :: "nat \<Rightarrow> char" where "digit_char d = char_of (48 + d)"
definition digit_val :: "char \<Rightarrow> nat" where "digit_val c = of_char c - 48"

fun nat_str :: "nat \<Rightarrow> string" where
  "nat_str n = (if n < 10 then [digit_char n] else nat_str (n div 10) @ [digit_char (n mod 10)])"

declare nat_str.simps [simp del]

definition itoa :: "int \<Rightarrow> string" where
  "itoa i = (if i < 0 then CHR ''-'' # nat_str (nat (- i)) else nat_str (nat i))"

definition dec_val :: "string \<Rightarrow> nat" where
  "dec_val s = foldl (\<lambda>acc c. acc * 10 + digit_val c) 0 s"

definition parse_dec :: "string \<Rightarrow> nat option" where
  "parse_dec s = (if s \<noteq> [] \<and> list_all is_digit s then Some (dec_val s) else None)"

definition atoi :: "string \<Rightarrow> int option" where
  "atoi s =
     (case s of
        [] \<Rightarrow> None
      | c # cs \<Rightarrow>
          let body = (if c = CHR ''-'' \<or> c = CHR ''+'' then cs else s) in
          (case parse_dec body of
             None \<Rightarrow> None
           | Some n \<Rightarrow>
               if c = CHR ''-'' then (if n \<le> 2 ^ 63 then Some (- int n) else None)
               else if n < 2 ^ 63 then Some (int n) else None))"

lemma digit_roundtrip: "d < 10 \<Longrightarrow> digit_val (digit_char d) = d \<and> is_digit (digit_char d)"
proof -
  assume "d < 10"
  then have "(48 + d) mod 256 = 48 + d" by simp
  then show ?thesis
    using \<open>d < 10\<close> by (simp add: digit_val_def digit_char_def is_digit_def less_eq_char_def)
qed

lemma dec_val_snoc: "dec_val (s @ [c]) = dec_val s * 10 + digit_val c"
  by (simp add: dec_val_def)

lemma nat_str_props: "nat_str n \<noteq> [] \<and> list_all is_digit (nat_str n) \<and> dec_val (nat_str n) = n"
proof (induction n rule: nat_str.induct)
  case (1 n)
  show ?case
  proof (cases "n < 10")
    case True
    then show ?thesis
      by (simp add: nat_str.simps [of n] digit_roundtrip dec_val_def)
  next
    case False
    with 1 have ih: "list_all is_digit (nat_str (n div 10))" "dec_val (nat_str (n div 10)) = n div 10"
      by auto
    have "dec_val (nat_str (n div 10) @ [digit_char (n mod 10)]) = n"
      by (simp add: dec_val_snoc ih digit_roundtrip)
    with False ih show ?thesis
      by (simp add: nat_str.simps [of n] digit_roundtrip)
  qed
qed

lemma nat_str_not_Nil [simp]: "nat_str n \<noteq> []" using nat_str_props by blast

lemma parse_dec_nat_str [simp]: "parse_dec (nat_str n) = Some n"
  using nat_str_props [of n] by (simp add: parse_dec_def)

lemma nat_str_digits: "c \<in> set (nat_str n) \<Longrightarrow> is_digit c"
  using nat_str_props [of n] by (auto simp: list_all_iff)

lemma nat_str_inject [simp]: "nat_str m = nat_str n \<longleftrightarrow> m = n"
  by (metis nat_str_props)

lemma is_digit_not_sign: "is_digit c \<Longrightarrow> c \<noteq> CHR ''-'' \<and> c \<noteq> CHR ''+''"
  by (auto simp: is_digit_def)

lemma atoi_digits:
  "s \<noteq> [] \<Longrightarrow> list_all is_digit s \<Longrightarrow>
     atoi s = (if dec_val s < 2 ^ 63 then Some (int (dec_val s)) else None)"
  using is_digit_not_sign [of "hd s"]
  by (cases s) (auto simp: atoi_def parse_dec_def Let_def)

text \<open>\<open>Atoi\<close> inverts \<open>Itoa\<close> on every 64-bit integer.\<close>

lemma atoi_itoa: "int64_range i \<Longrightarrow> atoi (itoa i) = Some i"
proof (cases "i < 0")
  case True
  assume r: "int64_range i"
  with True have "nat (- i) \<le> 2 ^ 63" by (auto simp: int64_range_def min_int64_def)
  with True show ?thesis by (simp add: itoa_def atoi_def)
next
  case False
  assume r: "int64_range i"
  with False have "nat i < 2 ^ 63" by (auto simp: int64_range_def max_int64_def)
  with False show ?thesis
    using nat_str_props [of "nat i"] by (simp add: itoa_def atoi_digits)
qed

lemma itoa_inject: "int64_range i \<Longrightarrow> int64_range j \<Longrightarrow> itoa i = itoa j \<longleftrightarrow> i = j"
  by (metis atoi_itoa option.inject)

lemma itoa_bytes: "c \<in> set (itoa i) \<Longrightarrow> is_digit c \<or> c = CHR ''-''"
  by (auto simp: itoa_def nat_str_digits split: if_splits)

lemma itoa_not_Nil [simp]: "itoa i \<noteq> []"
  by (simp add: itoa_def)

lemma atoi_range: "atoi s = Some i \<Longrightarrow> int64_range i"
  by (auto simp: atoi_def Let_def int64_range_def min_int64_def max_int64_def
      split: list.splits if_splits option.splits)

section \<open>Hexadecimal\<close>

definition hex_digit :: "nat \<Rightarrow> char" where
  "hex_digit d = (if d < 10 then char_of (48 + d) else char_of (87 + d))"

definition hex_val :: "char \<Rightarrow> nat option" where
  "hex_val c =
     (if is_digit c then Some (of_char c - 48)
      else if CHR ''a'' \<le> c \<and> c \<le> CHR ''f'' then Some (of_char c - 87)
      else if CHR ''A'' \<le> c \<and> c \<le> CHR ''F'' then Some (of_char c - 55)
      else None)"

text \<open>\<open>hex.EncodeToString\<close> and \<open>hex.DecodeString\<close>.\<close>

fun hex_encode :: "bytes \<Rightarrow> string" where
  "hex_encode [] = []"
| "hex_encode (b # bs) =
     hex_digit (byte_val b div 16) # hex_digit (byte_val b mod 16) # hex_encode bs"

fun hex_decode :: "string \<Rightarrow> bytes option" where
  "hex_decode [] = Some []"
| "hex_decode [c] = None"
| "hex_decode (h # l # cs) =
     (case (hex_val h, hex_val l) of
        (Some a, Some b) \<Rightarrow> map_option (\<lambda>bs. char_of (a * 16 + b) # bs) (hex_decode cs)
      | _ \<Rightarrow> None)"

lemma hex_digit_val: "d < 16 \<Longrightarrow> hex_val (hex_digit d) = Some d"
proof -
  assume d: "d < 16"
  show ?thesis
  proof (cases "d < 10")
    case True
    then show ?thesis
      using digit_roundtrip [of d]
      by (simp add: hex_val_def hex_digit_def digit_char_def digit_val_def)
  next
    case False
    with d show ?thesis
      by (simp add: hex_val_def hex_digit_def is_digit_def less_eq_char_def)
  qed
qed

lemma hex_decode_encode: "hex_decode (hex_encode bs) = Some bs"
proof (induction bs)
  case Nil
  then show ?case by simp
next
  case (Cons b bs)
  have "byte_val b < 256" by simp
  then have "byte_val b div 16 < 16" by (simp only: less_mult_imp_div_less)
  moreover have "byte_val b div 16 * 16 + byte_val b mod 16 = byte_val b" by simp
  ultimately show ?case using Cons by (simp add: hex_digit_val)
qed

lemma length_hex_encode: "length (hex_encode bs) = 2 * length bs"
  by (induction bs) auto

section \<open>Host and port\<close>

text \<open>
  \<open>net.SplitHostPort\<close>: the port starts after the last colon; a host in brackets may hold colons.
  The three kinds of failure of the Go code are one \<open>None\<close>, since no caller tells them apart.
\<close>

definition split_host_port :: "string \<Rightarrow> (string \<times> string) option" where
  "split_host_port hp =
     (case cut_last CHR '':'' hp of
        None \<Rightarrow> None
      | Some (before, port) \<Rightarrow>
          if hp \<noteq> [] \<and> hd hp = CHR ''['' then
            (case cut CHR '']'' hp of
               None \<Rightarrow> None
             | Some (h, rest) \<Rightarrow>
                 \<comment> \<open>the first closing bracket stands just before the last colon\<close>
                 if length h + 1 \<noteq> length before then None
                 else if CHR ''['' \<in> set (tl hp) then None
                 else if CHR '']'' \<in> set rest then None
                 else Some (tl h, port))
          else if CHR '':'' \<in> set before then None
          else if CHR ''['' \<in> set hp \<or> CHR '']'' \<in> set hp then None
          else Some (before, port))"

lemma split_host_port_plain:
  assumes "CHR '':'' \<notin> set h" "CHR ''['' \<notin> set h" "CHR '']'' \<notin> set h"
    and "CHR '':'' \<notin> set p" "CHR ''['' \<notin> set p" "CHR '']'' \<notin> set p"
  shows "split_host_port (h @ CHR '':'' # p) = Some (h, p)"
proof -
  have "hd (h @ CHR '':'' # p) \<noteq> CHR ''[''"
    using assms(2) by (cases h) auto
  with assms show ?thesis by (simp add: split_host_port_def cut_last_append)
qed

end
