(* ===== verification/Go_Net.thy ===== *)
theory Go_Net
  imports Go_Strconv "HOL-Library.Word"
begin

unbundle bit_operations_syntax

text \<open>
  Go's \<open>net/netip\<close> and \<open>net\<close> packages as far as the mesh uses them: parsing and printing of
  addresses, prefixes, and networks. An IPv4 address is a 32-bit word, an IPv6 address a 128-bit
  word with its zone. Parsers return \<open>None\<close> where the Go parser returns an error.
\<close>

section \<open>Words and bytes\<close>

text \<open>Clearing the low \<open>k\<close> bits of a word.\<close>

definition hi_bits :: "nat \<Rightarrow> 'a::len word \<Rightarrow> 'a word" where
  "hi_bits k w = push_bit k (drop_bit k w)"

lemma unat_hi_bits: "unat (hi_bits k (w :: 'a::len word)) = unat w div 2 ^ k * 2 ^ k"
proof -
  have "unat w div 2 ^ k * 2 ^ k \<le> unat w" by simp
  also have "unat w < 2 ^ LENGTH('a)" by (rule unsigned_less)
  finally have "take_bit LENGTH('a) (unat w div 2 ^ k * 2 ^ k) = unat w div 2 ^ k * 2 ^ k"
    by (simp add: take_bit_nat_eq_self)
  moreover have "unat (hi_bits k w) = take_bit LENGTH('a) (push_bit k (drop_bit k (unat w)))"
    by (simp add: hi_bits_def unsigned_push_bit_eq unat_drop_bit_eq)
  ultimately show ?thesis
    by (simp add: push_bit_eq_mult drop_bit_eq_div)
qed

lemma hi_bits_le: "hi_bits k w \<le> w"
  by (simp add: word_le_nat_alt unat_hi_bits)

lemma hi_bits_idem [simp]: "hi_bits k (hi_bits k w) = hi_bits k w"
proof -
  have "unat (hi_bits k (hi_bits k w)) = unat (hi_bits k w)"
    by (simp add: unat_hi_bits)
  then show ?thesis by (simp only: word_unat_eq_iff)
qed

lemma hi_bits_0 [simp]: "hi_bits 0 w = w"
  by (simp add: hi_bits_def)

definition bytes_nat :: "nat list \<Rightarrow> nat" where
  "bytes_nat bs = foldl (\<lambda>a b. a * 256 + b) 0 bs"

text \<open>The \<open>n\<close> big-endian bytes of a number.\<close>

fun nat_bytes :: "nat \<Rightarrow> nat \<Rightarrow> nat list" where
  "nat_bytes 0 v = []"
| "nat_bytes (Suc n) v = nat_bytes n (v div 256) @ [v mod 256]"

lemma length_nat_bytes [simp]: "length (nat_bytes n v) = n"
  by (induction n arbitrary: v) auto

lemma bytes_nat_snoc: "bytes_nat (bs @ [b]) = bytes_nat bs * 256 + b"
  by (simp add: bytes_nat_def)

lemma bytes_nat_nat_bytes: "v < 256 ^ n \<Longrightarrow> bytes_nat (nat_bytes n v) = v"
proof (induction n arbitrary: v)
  case 0
  then show ?case by (simp add: bytes_nat_def)
next
  case (Suc n)
  then have "v div 256 < 256 ^ n" by (simp add: less_mult_imp_div_less mult.commute)
  then have "bytes_nat (nat_bytes n (v div 256)) = v div 256" by (rule Suc.IH)
  then show ?case by (simp add: bytes_nat_snoc)
qed

section \<open>Addresses\<close>

datatype addr = AddrNone | V4 "32 word" | V6 "128 word" string

definition addr_valid :: "addr \<Rightarrow> bool" where "addr_valid a \<longleftrightarrow> a \<noteq> AddrNone"

fun is4 :: "addr \<Rightarrow> bool" where "is4 (V4 _) = True" | "is4 _ = False"
fun is6 :: "addr \<Rightarrow> bool" where "is6 (V6 _ _) = True" | "is6 _ = False"
fun zone_of :: "addr \<Rightarrow> string" where "zone_of (V6 _ z) = z" | "zone_of _ = []"

fun bit_len :: "addr \<Rightarrow> nat" where
  "bit_len AddrNone = 0" | "bit_len (V4 _) = 32" | "bit_len (V6 _ _) = 128"

definition is_v4_mapped :: "128 word \<Rightarrow> bool" where
  "is_v4_mapped w \<longleftrightarrow> drop_bit 32 w = 0xFFFF"

definition v4_in_6 :: "32 word \<Rightarrow> 128 word" where
  "v4_in_6 w = 0xFFFF00000000 OR ucast w"

fun is4in6 :: "addr \<Rightarrow> bool" where
  "is4in6 (V6 w _) = is_v4_mapped w" | "is4in6 _ = False"

fun unmap :: "addr \<Rightarrow> addr" where
  "unmap (V6 w z) = (if is_v4_mapped w then V4 (ucast w) else V6 w z)"
| "unmap a = a"

text \<open>\<open>Addr.As16\<close>: an IPv4 address in its IPv4-mapped form.\<close>

fun as16 :: "addr \<Rightarrow> 128 word" where
  "as16 AddrNone = 0" | "as16 (V4 w) = v4_in_6 w" | "as16 (V6 w _) = w"

fun addr_next :: "addr \<Rightarrow> addr" where
  "addr_next AddrNone = AddrNone"
| "addr_next (V4 w) = (if w + 1 = 0 then AddrNone else V4 (w + 1))"
| "addr_next (V6 w z) = (if w + 1 = 0 then AddrNone else V6 (w + 1) z)"

text \<open>\<open>Addr.Less\<close>: by length, then by value, then by zone.\<close>

fun addr_less :: "addr \<Rightarrow> addr \<Rightarrow> bool" where
  "addr_less (V4 a) (V4 b) \<longleftrightarrow> a < b"
| "addr_less (V6 a y) (V6 b z) \<longleftrightarrow> a < b \<or> (a = b \<and> y < z)"
| "addr_less a b \<longleftrightarrow> bit_len a < bit_len b"

section \<open>Parsing addresses\<close>

text \<open>\<open>parseIPv4Fields\<close>: the octets so far, the value and the number of digits of the current one.\<close>

fun v4_fields :: "nat list \<Rightarrow> nat \<Rightarrow> nat \<Rightarrow> string \<Rightarrow> nat list option" where
  "v4_fields fs val digLen [] = (if length fs < 3 then None else Some (fs @ [val]))"
| "v4_fields fs val digLen (c # cs) =
     (if is_digit c then
        (if digLen = 1 \<and> val = 0 then None
         else if val * 10 + digit_val c > 255 then None
         else v4_fields fs (val * 10 + digit_val c) (digLen + 1) cs)
      else if c = CHR ''.'' then
        (if digLen = 0 \<or> cs = [] then None
         else if length fs = 3 then None
         else v4_fields (fs @ [val]) 0 0 cs)
      else None)"

definition parse_v4 :: "string \<Rightarrow> addr option" where
  "parse_v4 s = map_option (\<lambda>fs. V4 (of_nat (bytes_nat fs))) (v4_fields [] 0 0 s)"

definition is_hex :: "char \<Rightarrow> bool" where "is_hex c \<longleftrightarrow> hex_val c \<noteq> None"

definition hex_num :: "string \<Rightarrow> nat" where
  "hex_num s = foldl (\<lambda>a c. a * 16 + (case hex_val c of None \<Rightarrow> 0 | Some d \<Rightarrow> d)) 0 s"

text \<open>
  The loop of \<open>parseIPv6\<close>: the bytes so far, the position of the ellipsis, and the rest of the
  string. Each round reads a group of one to four hexadecimal digits.
\<close>

function v6_loop :: "nat list \<Rightarrow> nat option \<Rightarrow> string \<Rightarrow> (nat list \<times> nat option \<times> string) option"
where
  "v6_loop ip el s =
     (if length ip \<ge> 16 then Some (ip, el, s)
      else if takeWhile is_hex s = [] \<or> length (takeWhile is_hex s) > 4 then None
      else case dropWhile is_hex s of
        [] \<Rightarrow> Some (ip @ nat_bytes 2 (hex_num (takeWhile is_hex s)), el, [])
      | c # r \<Rightarrow>
          if c = CHR ''.'' then
            (if el = None \<and> length ip \<noteq> 12 then None
             else if length ip + 4 > 16 then None
             else map_option (\<lambda>fs. (ip @ fs, el, [])) (v4_fields [] 0 0 s))
          else if c \<noteq> CHR '':'' \<or> r = [] then None
          else if hd r = CHR '':'' then
            (if el \<noteq> None then None
             else if tl r = [] then
               Some (ip @ nat_bytes 2 (hex_num (takeWhile is_hex s)), Some (length ip + 2), [])
             else v6_loop (ip @ nat_bytes 2 (hex_num (takeWhile is_hex s)))
                    (Some (length ip + 2)) (tl r))
          else v6_loop (ip @ nat_bytes 2 (hex_num (takeWhile is_hex s))) el r)"
  by pat_completeness auto
termination
proof (relation "measure (\<lambda>(ip, el, s). length s)", goal_cases)
  case 1
  show ?case by simp
next
  case (2 ip el s c r)
  then have "length (c # r) \<le> length s" by (metis length_dropWhile_le)
  moreover have "length (tl r) \<le> length r" by simp
  ultimately have "length (tl r) < length s" by simp
  then show ?case by simp
next
  case (3 ip el s c r)
  then have "length (c # r) \<le> length s" by (metis length_dropWhile_le)
  then show ?case by simp
qed

declare v6_loop.simps [simp del]

definition v6_finish :: "nat list \<times> nat option \<times> string \<Rightarrow> nat list option" where
  "v6_finish = (\<lambda>(ip, el, s).
     if s \<noteq> [] then None
     else if length ip < 16 then
       (case el of
          None \<Rightarrow> None
        | Some e \<Rightarrow> Some (take e ip @ replicate (16 - length ip) 0 @ drop e ip))
     else if el \<noteq> None then None
     else Some ip)"

definition parse_v6 :: "string \<Rightarrow> addr option" where
  "parse_v6 s =
     (case (case cut CHR ''%'' s of None \<Rightarrow> Some (s, []) | Some (a, z) \<Rightarrow>
              if z = [] then None else Some (a, z)) of
        None \<Rightarrow> None
      | Some (a, z) \<Rightarrow>
          if take 2 a = ''::'' then
            (if drop 2 a = [] then Some (V6 0 z)
             else map_option (\<lambda>bs. V6 (of_nat (bytes_nat bs)) z)
               (Option.bind (v6_loop [] (Some 0) (drop 2 a)) v6_finish))
          else map_option (\<lambda>bs. V6 (of_nat (bytes_nat bs)) z)
             (Option.bind (v6_loop [] None a) v6_finish))"

text \<open>\<open>netip.ParseAddr\<close>: the first dot, colon or percent sign decides.\<close>

definition parse_addr :: "string \<Rightarrow> addr option" where
  "parse_addr s =
     (case find (\<lambda>c. c = CHR ''.'' \<or> c = CHR '':'' \<or> c = CHR ''%'') s of
        None \<Rightarrow> None
      | Some c \<Rightarrow> if c = CHR ''.'' then parse_v4 s else if c = CHR '':'' then parse_v6 s else None)"

text \<open>\<open>net.ParseIP\<close>: the 16-byte form; zones are refused.\<close>

definition parse_ip :: "string \<Rightarrow> (128 word) option" where
  "parse_ip s =
     (case parse_addr s of
        None \<Rightarrow> None
      | Some a \<Rightarrow> if zone_of a \<noteq> [] then None else Some (as16 a))"

text \<open>\<open>IP.To4\<close> on the 16-byte form.\<close>

definition to4 :: "128 word \<Rightarrow> (32 word) option" where
  "to4 w = (if is_v4_mapped w then Some (ucast w) else None)"

section \<open>Printing addresses\<close>

definition v4_str :: "32 word \<Rightarrow> string" where
  "v4_str w = join ''.'' (map nat_str (nat_bytes 4 (unat w)))"

fun hex_str :: "nat \<Rightarrow> string" where
  "hex_str n = (if n < 16 then [hex_digit n] else hex_str (n div 16) @ [hex_digit (n mod 16)])"

declare hex_str.simps [simp del]

definition v6_groups :: "128 word \<Rightarrow> nat list" where
  "v6_groups w = map (\<lambda>i. unat (drop_bit (112 - 16 * i) w) mod 65536) [0..<8]"

text \<open>The first longest run of at least two zero groups, as start and end.\<close>

definition zero_run :: "nat list \<Rightarrow> (nat \<times> nat) option" where
  "zero_run gs =
     fold (\<lambda>i best.
        let j = i + length (takeWhile (\<lambda>g. g = 0) (drop i gs)) in
        if j - i \<ge> 2 \<and> (case best of None \<Rightarrow> True | Some (a, b) \<Rightarrow> j - i > b - a)
        then Some (i, j) else best) [0..<8] None"

definition v6_str :: "128 word \<Rightarrow> string" where
  "v6_str w =
     (let gs = v6_groups w in
      case zero_run gs of
        None \<Rightarrow> join '':'' (map hex_str gs)
      | Some (i, j) \<Rightarrow>
          join '':'' (map hex_str (take i gs)) @ ''::'' @ join '':'' (map hex_str (drop j gs)))"

text \<open>\<open>IP.String\<close> on the 16-byte form, and \<open>Addr.String\<close>.\<close>

definition ip_str :: "128 word \<Rightarrow> string" where
  "ip_str w = (case to4 w of Some v \<Rightarrow> v4_str v | None \<Rightarrow> v6_str w)"

definition addr_str :: "addr \<Rightarrow> string" where
  "addr_str a =
     (case a of
        AddrNone \<Rightarrow> ''invalid IP''
      | V4 w \<Rightarrow> v4_str w
      | V6 w z \<Rightarrow>
          (if is_v4_mapped w then ''::ffff:'' @ v4_str (ucast w) else v6_str w)
          @ (if z = [] then [] else CHR ''%'' # z))"

section \<open>Prefixes\<close>

text \<open>A \<open>netip.Prefix\<close>: an address without a zone and a number of bits.\<close>

record prefix_t =
  pfx_addr :: addr
  pfx_bits :: nat

definition pfx_wf :: "prefix_t \<Rightarrow> bool" where
  "pfx_wf p \<longleftrightarrow> addr_valid (pfx_addr p) \<and> zone_of (pfx_addr p) = []
     \<and> pfx_bits p \<le> bit_len (pfx_addr p)"

fun mask_addr :: "nat \<Rightarrow> addr \<Rightarrow> addr" where
  "mask_addr bits AddrNone = AddrNone"
| "mask_addr bits (V4 w) = V4 (hi_bits (32 - bits) w)"
| "mask_addr bits (V6 w z) = V6 (hi_bits (128 - bits) w) []"

definition masked :: "prefix_t \<Rightarrow> prefix_t" where
  "masked p = p\<lparr>pfx_addr := mask_addr (pfx_bits p) (pfx_addr p)\<rparr>"

text \<open>\<open>Prefix.Contains\<close>: same family, no zone, equal leading bits.\<close>

definition pfx_contains :: "prefix_t \<Rightarrow> addr \<Rightarrow> bool" where
  "pfx_contains p a =
     (case (pfx_addr p, a) of
        (V4 n, V4 w) \<Rightarrow> drop_bit (32 - pfx_bits p) n = drop_bit (32 - pfx_bits p) w
      | (V6 n _, V6 w z) \<Rightarrow> z = [] \<and> drop_bit (128 - pfx_bits p) n = drop_bit (128 - pfx_bits p) w
      | _ \<Rightarrow> False)"

text \<open>\<open>netip.ParsePrefix\<close>.\<close>

definition parse_prefix :: "string \<Rightarrow> prefix_t option" where
  "parse_prefix s =
     (case cut_last CHR ''/'' s of
        None \<Rightarrow> None
      | Some (a, b) \<Rightarrow>
          (case parse_addr a of
             None \<Rightarrow> None
           | Some ip \<Rightarrow>
               if zone_of ip \<noteq> [] then None
               else if length b > 1 \<and> \<not> (CHR ''1'' \<le> hd b \<and> hd b \<le> CHR ''9'') then None
               else (case atoi b of
                  None \<Rightarrow> None
                | Some n \<Rightarrow>
                    if n < 0 \<or> n > int (bit_len ip) then None
                    else Some \<lparr>pfx_addr = ip, pfx_bits = nat n\<rparr>)))"

section \<open>Networks\<close>

text \<open>A \<open>net.IPNet\<close>: a 4-byte or 16-byte address and the number of leading ones of its mask.\<close>

datatype ipnet = IPNet4 "32 word" nat | IPNet6 "128 word" nat

text \<open>\<open>net.ParseCIDR\<close>: the address and the masked network. The length may have leading zeros.\<close>

definition parse_cidr :: "string \<Rightarrow> (128 word \<times> ipnet) option" where
  "parse_cidr s =
     (case cut CHR ''/'' s of
        None \<Rightarrow> None
      | Some (a, m) \<Rightarrow>
          (case parse_addr a of
             None \<Rightarrow> None
           | Some ip \<Rightarrow>
               if zone_of ip \<noteq> [] then None
               else (case parse_dec m of
                  None \<Rightarrow> None
                | Some n \<Rightarrow>
                    if n > bit_len ip then None
                    else Some (as16 ip,
                      (case ip of
                         V4 w \<Rightarrow> IPNet4 (hi_bits (32 - n) w) n
                       | V6 w _ \<Rightarrow> IPNet6 (hi_bits (128 - n) w) n
                       | AddrNone \<Rightarrow> IPNet4 0 0)))))"

text \<open>
  \<open>networkNumberAndMask\<close>: a 16-byte network whose address is IPv4-mapped is read as an IPv4 one,
  with the last four bytes of its mask.
\<close>

definition norm_net :: "ipnet \<Rightarrow> ipnet" where
  "norm_net n =
     (case n of
        IPNet4 w k \<Rightarrow> IPNet4 w k
      | IPNet6 w k \<Rightarrow> (case to4 w of Some v \<Rightarrow> IPNet4 v (k - 96) | None \<Rightarrow> IPNet6 w k))"

definition net_contains :: "ipnet \<Rightarrow> 128 word \<Rightarrow> bool" where
  "net_contains n ip =
     (case (norm_net n, to4 ip) of
        (IPNet4 w k, Some v) \<Rightarrow> hi_bits (32 - k) w = hi_bits (32 - k) v
      | (IPNet6 w k, None) \<Rightarrow> hi_bits (128 - k) w = hi_bits (128 - k) ip
      | _ \<Rightarrow> False)"

definition net_str :: "ipnet \<Rightarrow> string" where
  "net_str n =
     (case norm_net n of
        IPNet4 w k \<Rightarrow> v4_str w @ ''/'' @ nat_str k
      | IPNet6 w k \<Rightarrow> v6_str w @ ''/'' @ nat_str k)"

section \<open>Printing and parsing IPv4\<close>

lemma nat_str_digit: "n < 10 \<Longrightarrow> nat_str n = [digit_char n]"
  by (simp add: nat_str.simps [of n])

lemma nat_str_byte:
  assumes "n < 256"
  shows "nat_str n = (if n < 10 then [digit_char n]
     else if n < 100 then [digit_char (n div 10), digit_char (n mod 10)]
     else [digit_char (n div 100), digit_char (n div 10 mod 10), digit_char (n mod 10)])"
proof -
  consider "n < 10" | "10 \<le> n" "n < 100" | "100 \<le> n" by linarith
  then show ?thesis
  proof cases
    case 1
    then show ?thesis by (simp add: nat_str_digit)
  next
    case 2
    then have "n div 10 < 10" by (simp add: less_mult_imp_div_less)
    with 2 show ?thesis by (simp add: nat_str.simps [of n] nat_str_digit)
  next
    case 3
    then have "\<not> n div 10 < 10" "n div 10 div 10 < 10" "n div 10 div 10 = n div 100"
      using assms by (simp_all add: not_less div_le_mono less_mult_imp_div_less)
    with 3 show ?thesis
      by (simp add: nat_str.simps [of n] nat_str.simps [of "n div 10"] nat_str_digit)
  qed
qed

lemma v4_fields_digit:
  assumes "d < 10" and "\<not> (k = 1 \<and> v = 0)" and "v * 10 + d \<le> 255"
  shows "v4_fields fs v k (digit_char d # cs) = v4_fields fs (v * 10 + d) (k + 1) cs"
  using assms digit_roundtrip [of d] by auto

lemma v4_fields_byte:
  assumes "n < 256"
  shows "\<exists>k > 0. v4_fields fs 0 0 (nat_str n @ cs) = v4_fields fs n k cs"
proof -
  consider "n < 10" | "10 \<le> n" "n < 100" | "100 \<le> n" by linarith
  then show ?thesis
  proof cases
    case 1
    then show ?thesis
      using v4_fields_digit [of n 0 0 fs cs] by (auto simp: nat_str_byte)
  next
    case 2
    define a b where "a = n div 10" and "b = n mod 10"
    have ab: "n = a * 10 + b" "b < 10" unfolding a_def b_def by simp_all
    with 2 have "0 < a" "a < 10" by auto
    with ab 2 assms have "v4_fields fs 0 0 (nat_str n @ cs) = v4_fields fs n (0 + 1 + 1) cs"
      using v4_fields_digit [of a 0 0 fs "digit_char b # cs"] v4_fields_digit [of b "0 + 1" a fs cs]
      by (simp add: nat_str_byte a_def [symmetric] b_def [symmetric] del: v4_fields.simps)
    then show ?thesis by (metis add_gr_0 zero_less_one)
  next
    case 3
    define a b c where "a = n div 100" and "b = n div 10 mod 10" and "c = n mod 10"
    have "n div 10 = a * 10 + b" "n = n div 10 * 10 + c"
      unfolding a_def b_def c_def using div_mult2_eq [of n 10 10] by simp_all
    then have "n = a * 100 + b * 10 + c" by linarith
    moreover have "b < 10" "c < 10" unfolding b_def c_def by simp_all
    ultimately have abc: "n = a * 100 + b * 10 + c" "b < 10" "c < 10" by simp_all
    with 3 assms have "0 < a" "a < 10" by auto
    have "nat_str n = [digit_char a, digit_char b, digit_char c]"
      using nat_str_byte [OF assms] 3 by (simp add: a_def b_def c_def)
    moreover have "v4_fields fs 0 0 (digit_char a # digit_char b # digit_char c # cs)
        = v4_fields fs (0 * 10 + a) (0 + 1) (digit_char b # digit_char c # cs)"
      using \<open>a < 10\<close> by (intro v4_fields_digit) auto
    moreover have "v4_fields fs (0 * 10 + a) (0 + 1) (digit_char b # digit_char c # cs)
        = v4_fields fs ((0 * 10 + a) * 10 + b) (0 + 1 + 1) (digit_char c # cs)"
      using \<open>0 < a\<close> abc assms by (intro v4_fields_digit) auto
    moreover have "v4_fields fs ((0 * 10 + a) * 10 + b) (0 + 1 + 1) (digit_char c # cs)
        = v4_fields fs (((0 * 10 + a) * 10 + b) * 10 + c) (0 + 1 + 1 + 1) cs"
      using \<open>0 < a\<close> abc assms by (intro v4_fields_digit) auto
    moreover have "((0 * 10 + a) * 10 + b) * 10 + c = n" using abc(1) by simp
    ultimately have "v4_fields fs 0 0 (nat_str n @ cs) = v4_fields fs n 3 cs"
      by (simp add: numeral_3_eq_3 del: v4_fields.simps)
    then show ?thesis by (metis zero_less_numeral)
  qed
qed


lemma v4_fields_sep:
  "0 < k \<Longrightarrow> cs \<noteq> [] \<Longrightarrow> length fs < 3 \<Longrightarrow>
     v4_fields fs v k (CHR ''.'' # cs) = v4_fields (fs @ [v]) 0 0 cs"
  by (simp add: is_digit_def less_eq_char_def)

lemma v4_fields_octet:
  assumes "n < 256" and "cs \<noteq> []" and "length fs < 3"
  shows "v4_fields fs 0 0 (nat_str n @ CHR ''.'' # cs) = v4_fields (fs @ [n]) 0 0 cs"
  using v4_fields_byte [OF assms(1), of fs "CHR ''.'' # cs"] v4_fields_sep [OF _ assms(2,3)]
  by metis

lemma v4_fields_last:
  assumes "n < 256" and "length fs = 3"
  shows "v4_fields fs 0 0 (nat_str n) = Some (fs @ [n])"
  using v4_fields_byte [OF assms(1), of fs "[]"] assms(2) by auto

lemma nat_bytes_lt: "b \<in> set (nat_bytes n v) \<Longrightarrow> b < 256"
  by (induction n arbitrary: v) auto

lemma four_bytes: "\<exists>a b c d. nat_bytes 4 v = [a, b, c, d]"
proof -
  have "length (nat_bytes 4 v) = Suc (Suc (Suc (Suc 0)))" by simp
  then show ?thesis by (simp only: length_Suc_conv length_0_conv) blast
qed

lemma parse_v4_v4_str [simp]: "parse_v4 (v4_str w) = Some (V4 w)"
proof -
  obtain a b c d where bs: "nat_bytes 4 (unat w) = [a, b, c, d]"
    using four_bytes by blast
  then have lt: "a < 256" "b < 256" "c < 256" "d < 256"
    using nat_bytes_lt [of _ 4 "unat w"] by auto
  have "v4_fields [] 0 0 (v4_str w) = Some [a, b, c, d]"
    using lt by (simp add: v4_str_def bs v4_fields_octet v4_fields_last del: v4_fields.simps)
  moreover have "bytes_nat [a, b, c, d] = unat w"
    using bytes_nat_nat_bytes [of "unat w" 4] unsigned_less [of w, where ?'a = nat]
    by (simp add: bs)
  ultimately show ?thesis by (simp add: parse_v4_def)
qed

lemma v4_str_chars: "ch \<in> set (v4_str w) \<Longrightarrow> is_digit ch \<or> ch = CHR ''.''"
proof -
  have "ch \<in> set (join ''.'' xs) \<Longrightarrow> (\<exists>x \<in> set xs. ch \<in> set x) \<or> ch = CHR ''.''" for xs
    by (induction "''.''" xs rule: join.induct) auto
  note this [of "map nat_str (nat_bytes 4 (unat w))"]
  moreover assume "ch \<in> set (v4_str w)"
  ultimately show ?thesis by (auto simp: v4_str_def nat_str_digits)
qed

lemma v4_str_first_sep:
  "find (\<lambda>c. c = CHR ''.'' \<or> c = CHR '':'' \<or> c = CHR ''%'') (v4_str w) = Some CHR ''.''"
proof -
  have dot: "CHR ''.'' \<in> set (v4_str w)"
  proof -
    obtain a b c d where "nat_bytes 4 (unat w) = [a, b, c, d]"
      using four_bytes by blast
    then show ?thesis by (simp add: v4_str_def)
  qed
  let ?P = "\<lambda>c. c = CHR ''.'' \<or> c = CHR '':'' \<or> c = CHR ''%''"
  from dot have "find ?P (v4_str w) \<noteq> None" by (auto simp: find_None_iff)
  then obtain c where c: "find ?P (v4_str w) = Some c" by blast
  then obtain i where "i < length (v4_str w)" "c = v4_str w ! i" and P: "?P c"
    by (auto simp: find_Some_iff)
  then have "c \<in> set (v4_str w)" by simp
  from v4_str_chars [OF this] P have "c = CHR ''.''"
    by (auto simp: is_digit_def less_eq_char_def)
  with c show ?thesis by simp
qed

lemma parse_addr_v4_str [simp]: "parse_addr (v4_str w) = Some (V4 w)"
  by (simp add: parse_addr_def v4_str_first_sep)

lemma v4_str_inject [simp]: "v4_str v = v4_str w \<longleftrightarrow> v = w"
  by (metis addr.inject(1) option.inject parse_v4_v4_str)

lemma parse_cidr_v4_str:
  assumes "n \<le> 32"
  shows "parse_cidr (v4_str w @ CHR ''/'' # nat_str n)
    = Some (v4_in_6 w, IPNet4 (hi_bits (32 - n) w) n)"
proof -
  have "CHR ''/'' \<notin> set (v4_str w)"
    using v4_str_chars by (fastforce simp: is_digit_def less_eq_char_def)
  with assms show ?thesis by (simp add: parse_cidr_def cut_append)
qed

lemma drop_bit_ucast: "drop_bit 32 (ucast (w :: 32 word) :: 128 word) = 0"
  by (rule bit_word_eqI) (auto simp: bit_simps dest: bit_imp_le_length)

lemma is_v4_mapped_v4_in_6 [simp]: "is_v4_mapped (v4_in_6 w)"
proof -
  have "drop_bit 32 (0xFFFF00000000 :: 128 word) = 0xFFFF"
    by (simp add: drop_bit_eq_div)
  then show ?thesis
    by (simp add: is_v4_mapped_def v4_in_6_def drop_bit_or drop_bit_ucast)
qed

lemma ucast_v4_in_6 [simp]: "ucast (v4_in_6 w) = w"
proof (rule bit_word_eqI)
  fix n assume n: "n < LENGTH(32)"
  have "take_bit 32 (0xFFFF00000000 :: 128 word) = 0" by (simp add: take_bit_eq_mod)
  then have "\<not> bit (take_bit 32 (0xFFFF00000000 :: 128 word)) n" by simp
  with n have "\<not> bit (0xFFFF00000000 :: 128 word) n" by (simp only: bit_take_bit_iff) simp
  with n show "bit (ucast (v4_in_6 w) :: 32 word) n = bit w n"
    by (simp add: v4_in_6_def bit_simps)
qed

lemma to4_v4_in_6 [simp]: "to4 (v4_in_6 w) = Some w"
  by (simp add: to4_def)

lemma ip_str_v4_in_6 [simp]: "ip_str (v4_in_6 w) = v4_str w"
  by (simp add: ip_str_def)

end
