(* ===== verification/Role.thy ===== *)
theory Role
  imports Prelude
begin

text \<open>
  \<open>pkg/role\<close>: the roles of a mesh node and the rule for combining them. A role is a string, as in
  the Go code; the five constants are the known ones.
\<close>

type_synonym role = string

definition RoleClient :: role where "RoleClient = ''client''"
definition RoleMaster :: role where "RoleMaster = ''master''"
definition RoleEgress :: role where "RoleEgress = ''egress''"
definition RoleIngress :: role where "RoleIngress = ''ingress''"
definition RoleBalancer :: role where "RoleBalancer = ''balancer''"

lemmas role_defs = RoleClient_def RoleMaster_def RoleEgress_def RoleIngress_def RoleBalancer_def

datatype role_error = ErrRoleClientExclusive | ErrRoleEmpty | ErrRoleUnknown string

definition validRoles :: "role list" where
  "validRoles = [RoleClient, RoleMaster, RoleEgress, RoleIngress, RoleBalancer]"

text \<open>The loop over the roles: the set of roles seen and whether the client role was among them.\<close>

fun composability_loop :: "role list \<Rightarrow> bool \<Rightarrow> role list \<Rightarrow> role_error + role list \<times> bool" where
  "composability_loop seen hasClient [] = Inr (seen, hasClient)"
| "composability_loop seen hasClient (r # rs) =
     (if r \<notin> set validRoles then Inl (ErrRoleUnknown r)
      else composability_loop (List.insert r seen) (hasClient \<or> r = RoleClient) rs)"

definition ValidateComposability :: "role list \<Rightarrow> role_error + unit" where
  "ValidateComposability roles =
     (if roles = [] then Inl ErrRoleEmpty
      else case composability_loop [] False roles of
        Inl e \<Rightarrow> Inl e
      | Inr (seen, hasClient) \<Rightarrow>
          if hasClient \<and> length seen > 1 then Inl ErrRoleClientExclusive else Inr ())"

section \<open>Properties\<close>

lemma composability_loop_ok:
  assumes "set rs \<subseteq> set validRoles"
  shows "\<exists>seen'. composability_loop seen hc rs = Inr (seen', hc \<or> RoleClient \<in> set rs)
    \<and> set seen' = set seen \<union> set rs \<and> (distinct seen \<longrightarrow> distinct seen')"
  using assms
proof (induction rs arbitrary: seen hc)
  case Nil
  then show ?case by simp
next
  case (Cons r rs)
  then have "set rs \<subseteq> set validRoles" by simp
  from Cons.IH [OF this, of "List.insert r seen" "hc \<or> r = RoleClient"] Cons.prems
  show ?case by (auto simp: distinct_insert)
qed

lemma composability_loop_unknown:
  assumes "r \<in> set rs" and "r \<notin> set validRoles"
  shows "\<exists>u \<in> set rs. u \<notin> set validRoles
    \<and> composability_loop seen hc rs = Inl (ErrRoleUnknown u)"
  using assms by (induction rs arbitrary: seen hc) auto

lemma single_distinct_set:
  "distinct xs \<Longrightarrow> set xs = {a} \<union> B \<Longrightarrow> length xs > 1 \<longleftrightarrow> B - {a} \<noteq> {}"
proof -
  assume d: "distinct xs" and s: "set xs = {a} \<union> B"
  have l: "length xs = card (insert a B)"
    using distinct_card [OF d] s by simp
  have fin: "finite B" using s by (metis finite_Un finite_set)
  show ?thesis
  proof (cases "B - {a} = {}")
    case True
    then have "insert a B = {a}" by auto
    with l True show ?thesis by simp
  next
    case False
    have "card (insert a B) = Suc (card (B - {a}))"
      using fin by (simp add: card.insert_remove)
    moreover have "card (B - {a}) > 0"
      using False fin by (simp add: card_gt_0_iff)
    ultimately show ?thesis using l False by simp
  qed
qed

text \<open>
  The roles \<open>ValidateComposability\<close> accepts are exactly: a non-empty list of known roles that,
  if the client role occurs in it, holds nothing else.
\<close>

lemma ValidateComposability_ok_iff:
  "ValidateComposability roles = Inr () \<longleftrightarrow>
     roles \<noteq> [] \<and> set roles \<subseteq> set validRoles
     \<and> (RoleClient \<in> set roles \<longrightarrow> set roles = {RoleClient})"
proof (cases "set roles \<subseteq> set validRoles")
  case True
  from composability_loop_ok [OF True, of "[]" False] obtain seen where
    l: "composability_loop [] False roles = Inr (seen, RoleClient \<in> set roles)"
    and s: "set seen = set roles" and d: "distinct seen" by auto
  have "length seen > 1 \<longleftrightarrow> set roles \<noteq> {RoleClient}" if "RoleClient \<in> set roles"
    using single_distinct_set [OF d, of RoleClient "set roles"] s that by auto
  with l True show ?thesis
    by (auto simp: ValidateComposability_def)
next
  case False
  then obtain r where "r \<in> set roles" "r \<notin> set validRoles" by auto
  from composability_loop_unknown [OF this, of "[]" False] False show ?thesis
    by (auto simp: ValidateComposability_def)
qed

end
