(* ===== verification/Topology.thy ===== *)
theory Topology
  imports Go_Net Role
begin

text \<open>
  The data of \<open>pkg/topology\<close>: the v1 topology (\<open>topology.go\<close>), the v2 topology
  (\<open>topology_v2.go\<close>), and the lookups on them. A pointer that may be nil is an option. Reading and
  writing the YAML file is I/O and is not modelled.
\<close>

section \<open>The v1 topology\<close>

record image_defaults =
  img_node :: string
  img_client :: string

record named_range =
  nr_name :: string
  nr_cidr :: string
  nr_balancer_ip :: string

record overlay_config =
  ov_space :: string
  ov_physical_mtu :: int
  ov_awg_overhead :: int
  ov_ranges :: "named_range list"

record master_node =
  mn_name :: string
  mn_host :: string
  mn_peer_host :: string
  mn_overlay_ip :: string
  mn_listen_port :: int
  mn_grpc_port :: int
  mn_endpoints :: "string list"
  mn_exit :: bool

record endpoint_node =
  en_name :: string
  en_host :: string
  en_peer_host :: string
  en_overlay_ip :: string
  en_listen_port :: int
  en_grpc_port :: int
  en_region :: string

record veth_config =
  veth_name :: string
  veth_gateway :: string

record mikrotik_config =
  mt_storage_root :: string

record routing_policy =
  rp_name :: string
  rp_dscp :: int
  rp_targets :: "string list"

record dns_config =
  dns_zone :: string
  dns_listen :: string
  dns_upstream :: string

record client_node =
  cn_name :: string
  cn_type :: string
  cn_host :: string
  cn_overlay_ip :: string
  cn_grpc_port :: int
  cn_veth :: "veth_config option"
  cn_mikrotik :: "mikrotik_config option"
  cn_masters :: "string list"
  cn_routing_policies :: "routing_policy list"
  cn_dns :: "dns_config option"

record capture_config =
  cap_domains_file :: string
  cap_schedule :: string
  cap_retention_days :: int

record rotation_defaults =
  rd_tier1_interval :: string
  rd_tier2_interval :: string
  rd_tier3_interval :: string
  rd_preset :: string

record topology =
  tp_defaults :: image_defaults
  tp_overlay :: overlay_config
  tp_masters :: "master_node list"
  tp_endpoints :: "endpoint_node list"
  tp_clients :: "client_node list"
  tp_capture :: capture_config
  tp_rotation :: rotation_defaults

definition default_grpc_port :: int where "default_grpc_port = 9090"

definition grpc_addr :: "string \<Rightarrow> int \<Rightarrow> string" where
  "grpc_addr host port = host @ '':'' @ itoa (if port = 0 then default_grpc_port else port)"

definition MasterNode_GRPCAddr :: "master_node \<Rightarrow> string" where
  "MasterNode_GRPCAddr m = grpc_addr (mn_host m) (mn_grpc_port m)"

definition MasterNode_PeerAddr :: "master_node \<Rightarrow> string" where
  "MasterNode_PeerAddr m =
     (if mn_peer_host m = [] then mn_host m else mn_peer_host m) @ '':'' @ itoa (mn_listen_port m)"

definition EndpointNode_GRPCAddr :: "endpoint_node \<Rightarrow> string" where
  "EndpointNode_GRPCAddr e = grpc_addr (en_host e) (en_grpc_port e)"

definition EndpointNode_PeerAddr :: "endpoint_node \<Rightarrow> string" where
  "EndpointNode_PeerAddr e =
     (if en_peer_host e = [] then en_host e else en_peer_host e) @ '':'' @ itoa (en_listen_port e)"

definition ClientNode_GRPCAddr :: "client_node \<Rightarrow> string" where
  "ClientNode_GRPCAddr c =
     grpc_addr (if cn_host c = [] then ''localhost'' else cn_host c) (cn_grpc_port c)"

definition FindMaster :: "topology \<Rightarrow> string \<Rightarrow> master_node option" where
  "FindMaster t name = find (\<lambda>m. mn_name m = name) (tp_masters t)"

definition FindEndpoint :: "topology \<Rightarrow> string \<Rightarrow> endpoint_node option" where
  "FindEndpoint t name = find (\<lambda>e. en_name e = name) (tp_endpoints t)"

definition FindClient :: "topology \<Rightarrow> string \<Rightarrow> client_node option" where
  "FindClient t name = find (\<lambda>c. cn_name c = name) (tp_clients t)"

text \<open>The masters bound to an endpoint, in the order that fixes the listen-port offsets.\<close>

definition MastersForEndpoint :: "topology \<Rightarrow> string \<Rightarrow> master_node list" where
  "MastersForEndpoint t ep =
     sort_slice mn_name (filter (\<lambda>m. ep \<in> set (mn_endpoints m)) (tp_masters t))"

section \<open>The v2 topology\<close>

definition SchemaV1 :: int where "SchemaV1 = 1"
definition SchemaV2 :: int where "SchemaV2 = 2"

record mesh_config =
  mesh_name :: string
  mesh_overlay_supernet :: string
  mesh_tenants :: "string list"

record node_v2 =
  n2_name :: string
  n2_roles :: "role list"
  n2_overlay_ip :: string
  n2_bridge_ip :: string
  n2_public_ip :: string
  n2_mesh_listen_port :: int
  n2_mesh_endpoint :: string
  n2_region :: string
  n2_platform :: string
  n2_preferred_master :: string
  n2_internet_iface :: string
  n2_client_protocol :: string
  n2_mesh_protocol :: string

record ingress_binding_v2 =
  ib_hostname :: string
  ib_mode :: string
  ib_ingress_node :: string
  ib_port :: int
  ib_http3 :: bool

record service_v2 =
  sv_name :: string
  sv_owner_node :: string
  sv_protocol :: string
  sv_local_port :: int
  sv_ingress :: "ingress_binding_v2 list"
  sv_tenant :: string

record observability_config =
  ob_audit_retention_days :: int
  ob_cert_rotation_days :: int
  ob_prometheus_listen :: string
  ob_log_level :: string

record topology_v2 =
  t2_schema_version :: int
  t2_mesh :: mesh_config
  t2_nodes :: "node_v2 list"
  t2_services :: "service_v2 list"
  t2_rotation :: rotation_defaults
  t2_capture :: capture_config
  t2_observability :: observability_config

section \<open>Lookups\<close>

text \<open>
  The contract shared by the three \<open>Find\<close> methods: the first entry with the name, and nothing
  when no entry has it.
\<close>

locale named_lookup =
  fixes find_by :: "'t \<Rightarrow> string \<Rightarrow> 'n option"
    and entries :: "'t \<Rightarrow> 'n list"
    and name_of :: "'n \<Rightarrow> string"
  assumes find_by_eq: "find_by t x = find (\<lambda>n. name_of n = x) (entries t)"
begin

lemma find_by_Some: "find_by t x = Some n \<Longrightarrow> n \<in> set (entries t) \<and> name_of n = x"
  by (auto simp: find_by_eq find_Some_iff)

lemma find_by_None_iff: "find_by t x = None \<longleftrightarrow> x \<notin> name_of ` set (entries t)"
  by (auto simp: find_by_eq find_None_iff)

lemma find_by_unique:
  assumes "distinct (map name_of (entries t))" and "n \<in> set (entries t)"
  shows "find_by t (name_of n) = Some n"
proof -
  from assms(2) have "find_by t (name_of n) \<noteq> None"
    by (simp add: find_by_None_iff)
  then obtain m where m: "find_by t (name_of n) = Some m" by blast
  from find_by_Some [OF m] have "m \<in> set (entries t)" "name_of m = name_of n" by simp_all
  moreover from assms(1) have "inj_on name_of (set (entries t))" by (simp add: distinct_map)
  ultimately have "m = n" using assms(2) by (simp add: inj_on_eq_iff)
  with m show ?thesis by simp
qed

end

interpretation fm: named_lookup FindMaster tp_masters mn_name
  by unfold_locales (simp add: FindMaster_def)

interpretation fe: named_lookup FindEndpoint tp_endpoints en_name
  by unfold_locales (simp add: FindEndpoint_def)

interpretation fc: named_lookup FindClient tp_clients cn_name
  by unfold_locales (simp add: FindClient_def)

lemma MastersForEndpoint_set:
  "set (MastersForEndpoint t ep) = {m \<in> set (tp_masters t). ep \<in> set (mn_endpoints m)}"
  by (simp add: MastersForEndpoint_def)

lemma MastersForEndpoint_sorted: "sorted (map mn_name (MastersForEndpoint t ep))"
  by (simp add: MastersForEndpoint_def)

text \<open>
  The listen-port offset of a master is its position in this list. It does not depend on the order
  in which the topology file lists the masters.
\<close>

lemma MastersForEndpoint_order_independent:
  assumes "distinct (map mn_name (tp_masters t))" and "mset (tp_masters u) = mset (tp_masters t)"
  shows "MastersForEndpoint u ep = MastersForEndpoint t ep"
proof (rule sorted_key_unique [where f = mn_name])
  show "mset (MastersForEndpoint u ep) = mset (MastersForEndpoint t ep)"
    using assms(2) by (simp add: MastersForEndpoint_def)
  have "mset (map mn_name (tp_masters u)) = mset (map mn_name (tp_masters t))"
    using assms(2) by simp
  from mset_eq_imp_distinct_iff [OF this] assms(1)
  have "distinct (map mn_name (tp_masters u))" by simp
  from distinct_map_filter [OF this, of "\<lambda>m. ep \<in> set (mn_endpoints m)"]
  show "distinct (map mn_name (MastersForEndpoint u ep))"
    unfolding MastersForEndpoint_def by (rule distinct_map_sort_key)
  show "sorted (map mn_name (MastersForEndpoint u ep))"
    by (rule MastersForEndpoint_sorted)
  show "sorted (map mn_name (MastersForEndpoint t ep))"
    by (rule MastersForEndpoint_sorted)
qed

end
