(* ===== verification/Ranges.thy ===== *)
theory Ranges
  imports Topology
begin

text \<open>
  \<open>pkg/topology/ranges.go\<close>: the named address ranges of the overlay, the allocation of a free
  address, and the overlap test. The lemmas relate them to the set of addresses of a prefix.
\<close>

record range_t =
  rg_name :: string
  rg_network :: prefix_t
  rg_balancer_ip :: addr

datatype range_error = ParseCIDRError string | ParseBalancerIPError string | NoAvailableIP

definition normalizeAddr :: "addr \<Rightarrow> addr" where
  "normalizeAddr a = (if is4in6 a then unmap a else a)"

definition ParseRange :: "named_range \<Rightarrow> range_error + range_t" where
  "ParseRange nr =
     (case parse_prefix (nr_cidr nr) of
        None \<Rightarrow> Inl (ParseCIDRError (nr_cidr nr))
      | Some p \<Rightarrow>
          if nr_balancer_ip nr \<noteq> [] then
            (case parse_addr (nr_balancer_ip nr) of
               None \<Rightarrow> Inl (ParseBalancerIPError (nr_balancer_ip nr))
             | Some b \<Rightarrow> Inr \<lparr>rg_name = nr_name nr, rg_network = masked p,
                            rg_balancer_ip = normalizeAddr b\<rparr>)
          else Inr \<lparr>rg_name = nr_name nr, rg_network = masked p, rg_balancer_ip = AddrNone\<rparr>)"

definition Range_Contains :: "range_t \<Rightarrow> addr \<Rightarrow> bool" where
  "Range_Contains r a = pfx_contains (rg_network r) a"

text \<open>
  \<open>prefixLastAddr\<close>: for IPv4 the base or-ed with the host mask, for IPv6 the bytes of the base with
  the host bits set, one partial byte first and then whole bytes. On the invalid prefix, whose number
  of bits is -1 in Go, the loop leaves the first of 16 zero bytes and sets the others.
\<close>

definition host_mask32 :: "nat \<Rightarrow> 32 word" where
  "host_mask32 hostBits =
     (if hostBits = 32 then NOT 0 else if hostBits = 0 then 0 else push_bit hostBits 1 - 1)"

definition fill_host_bytes :: "nat \<Rightarrow> nat list \<Rightarrow> nat list" where
  "fill_host_bytes prefixBits a =
     (let fullBytes = prefixBits div 8; remainderBits = prefixBits mod 8 in
      if fullBytes < length a then
        (let a' = (if remainderBits \<noteq> 0
                   then a[fullBytes := a ! fullBytes OR drop_bit remainderBits 255] else a);
             fb = (if remainderBits \<noteq> 0 then fullBytes + 1 else fullBytes)
         in take fb a' @ replicate (length a - fb) 255)
      else a)"

definition prefixLastAddr :: "prefix_t \<Rightarrow> addr" where
  "prefixLastAddr p =
     (case pfx_addr (masked p) of
        V4 base \<Rightarrow> V4 (base OR host_mask32 (32 - pfx_bits p))
      | V6 w _ \<Rightarrow>
          V6 (of_nat (bytes_nat (fill_host_bytes (pfx_bits p) (nat_bytes 16 (unat w))))) []
      | AddrNone \<Rightarrow> V6 (mask 120) [])"

text \<open>The number of steps \<open>addr_next\<close> can take before the address becomes invalid.\<close>

fun addr_room :: "addr \<Rightarrow> nat" where
  "addr_room AddrNone = 0"
| "addr_room (V4 w) = 2 ^ 32 - unat w"
| "addr_room (V6 w z) = 2 ^ 128 - unat w"

lemma addr_room_next: "a \<noteq> AddrNone \<Longrightarrow> addr_room (addr_next a) < addr_room a"
proof (cases a)
  case (V4 w)
  have "unat w < 2 ^ 32" using unsigned_less [of w, where ?'a = nat] by simp
  moreover have "unat (w + 1) = Suc (unat w)" if "w + 1 \<noteq> 0"
    using that unatSuc [of w] by (simp add: add.commute)
  ultimately show ?thesis using V4 by auto
next
  case (V6 w z)
  have "unat w < 2 ^ 128" using unsigned_less [of w, where ?'a = nat] by simp
  moreover have "unat (w + 1) = Suc (unat w)" if "w + 1 \<noteq> 0"
    using that unatSuc [of w] by (simp add: add.commute)
  ultimately show ?thesis using V6 by auto
qed simp

text \<open>The loop of \<open>AvailableIPs\<close>, from an address up to but not including the last one.\<close>

function avail_from :: "addr \<Rightarrow> addr \<Rightarrow> addr list" where
  "avail_from ip lst =
     (if ip \<noteq> AddrNone \<and> addr_less ip lst then ip # avail_from (addr_next ip) lst else [])"
  by pat_completeness auto
termination
  by (relation "measure (\<lambda>(ip, lst). addr_room ip)") (simp_all add: addr_room_next)

definition AvailableIPs :: "range_t \<Rightarrow> addr list" where
  "AvailableIPs r =
     (let network = pfx_addr (masked (rg_network r));
          lst = prefixLastAddr (masked (rg_network r));
          first = addr_next network
      in if first = AddrNone \<or> \<not> addr_less first lst then [] else avail_from first lst)"

text \<open>The inner loop of \<open>AllocateIP\<close>: the first address of the range that is not used.\<close>

function alloc_from :: "addr list \<Rightarrow> addr \<Rightarrow> addr \<Rightarrow> addr option" where
  "alloc_from used ip lst =
     (if ip \<noteq> AddrNone \<and> addr_less ip lst then
        (if normalizeAddr ip \<notin> set used then Some (normalizeAddr ip)
         else alloc_from used (addr_next ip) lst)
      else None)"
  by pat_completeness auto
termination
  by (relation "measure (\<lambda>(used, ip, lst). addr_room ip)") (simp_all add: addr_room_next)

declare avail_from.simps [simp del] alloc_from.simps [simp del]

fun alloc_ranges :: "addr list \<Rightarrow> range_t list \<Rightarrow> range_error + addr" where
  "alloc_ranges used [] = Inl NoAvailableIP"
| "alloc_ranges used (r # rs) =
     (case alloc_from used (addr_next (pfx_addr (masked (rg_network r))))
             (prefixLastAddr (masked (rg_network r))) of
        Some a \<Rightarrow> Inr a
      | None \<Rightarrow> alloc_ranges used rs)"

definition AllocateIP :: "range_t list \<Rightarrow> addr list \<Rightarrow> range_error + addr" where
  "AllocateIP ranges existing =
     alloc_ranges (map normalizeAddr (filter addr_valid existing)) ranges"

definition BalancerIPForAddr :: "range_t list \<Rightarrow> addr \<Rightarrow> addr" where
  "BalancerIPForAddr ranges a =
     (case find (\<lambda>r. Range_Contains r (normalizeAddr a)) ranges of
        None \<Rightarrow> AddrNone
      | Some r \<Rightarrow> rg_balancer_ip r)"

definition RangesOverlap :: "range_t \<Rightarrow> range_t \<Rightarrow> bool" where
  "RangesOverlap a b =
     (let aPrefix = masked (rg_network a); bPrefix = masked (rg_network b) in
      pfx_contains aPrefix (pfx_addr bPrefix) \<or> pfx_contains bPrefix (pfx_addr aPrefix))"

section \<open>Prefixes as intervals\<close>

fun addr_val :: "addr \<Rightarrow> nat" where
  "addr_val AddrNone = 0" | "addr_val (V4 w) = unat w" | "addr_val (V6 w z) = unat w"

definition pfx_net :: "prefix_t \<Rightarrow> addr" where
  "pfx_net p = pfx_addr (masked p)"

definition host_bits :: "prefix_t \<Rightarrow> nat" where
  "host_bits p = bit_len (pfx_addr p) - pfx_bits p"

lemma drop_bit_eq_iff:
  "drop_bit k (a :: 'a::len word) = drop_bit k b \<longleftrightarrow> unat a div 2 ^ k = unat b div 2 ^ k"
  by (simp add: word_unat_eq_iff unat_drop_bit_eq flip: drop_bit_eq_div)

lemma masked_idem [simp]: "masked (masked p) = masked p"
  by (cases p; cases "pfx_addr p") (auto simp: masked_def)

lemma masked_sel [simp]: "pfx_bits (masked p) = pfx_bits p" "bit_len (pfx_addr (masked p)) = bit_len (pfx_addr p)"
  by (cases "pfx_addr p"; simp add: masked_def)+

lemma masked_wf: "pfx_wf p \<Longrightarrow> pfx_wf (masked p)"
  by (cases "pfx_addr p") (auto simp: pfx_wf_def masked_def addr_valid_def)

lemma hi_bits_or_mask: "hi_bits k w OR mask k = hi_bits k (w :: 'a::len word) + mask k"
  by (rule disjunctive_add_eq_or [symmetric])
    (auto simp: bit_eq_iff bit_simps hi_bits_def)

lemma unat_hi_bits_or_mask:
  assumes "k \<le> LENGTH('a)"
  shows "unat (hi_bits k w OR mask k) = unat (w :: 'a::len word) div 2 ^ k * 2 ^ k + (2 ^ k - 1)"
proof -
  have "unat w div 2 ^ k < 2 ^ (LENGTH('a) - k)"
    using unsigned_less [of w, where ?'a = nat] assms
    by (simp add: less_mult_imp_div_less flip: power_add)
  then have "(unat w div 2 ^ k + 1) * 2 ^ k \<le> 2 ^ (LENGTH('a) - k) * 2 ^ k"
    by (intro mult_right_mono) auto
  then have "unat w div 2 ^ k * 2 ^ k + 2 ^ k \<le> 2 ^ LENGTH('a)"
    using assms by (simp add: add_mult_distrib flip: power_add)
  moreover have "(0::nat) < 2 ^ k" by simp
  ultimately have b: "unat w div 2 ^ k * 2 ^ k + (2 ^ k - 1) < 2 ^ LENGTH('a)" by linarith
  have m: "unat (mask k :: 'a word) = 2 ^ k - 1"
  proof -
    have "uint (mask k :: 'a word) = mask k"
      using assms by (simp add: uint_mask_eq min_def)
    then have "uint (mask k :: 'a word) = 2 ^ k - 1"
      by (simp only: mask_eq_exp_minus_1)
    then have "int (unat (mask k :: 'a word)) = int (2 ^ k - 1)"
      by (simp add: of_nat_diff)
    then show ?thesis by (simp only: of_nat_eq_iff)
  qed
  show ?thesis
    unfolding hi_bits_or_mask
    using b by (subst unat_plus_if') (simp add: unat_hi_bits m)
qed

lemma host_mask32_eq: "k \<le> 32 \<Longrightarrow> host_mask32 k = mask k"
  by (auto simp: host_mask32_def mask_eq_exp_minus_1 push_bit_eq_mult)


lemma take_nat_bytes: "m \<le> n \<Longrightarrow> take m (nat_bytes n v) = nat_bytes m (v div 256 ^ (n - m))"
proof (induction n arbitrary: m v)
  case 0
  then show ?case by simp
next
  case (Suc n)
  show ?case
  proof (cases "m = Suc n")
    case True
    then show ?thesis by simp
  next
    case False
    with Suc.prems have m: "m \<le> n" by simp
    have "v div 256 div 256 ^ (n - m) = v div 256 ^ (Suc n - m)"
      using m by (simp add: div_mult2_eq Suc_diff_le)
    with Suc.IH [OF m] m show ?thesis by simp
  qed
qed

lemma bytes_nat_append: "bytes_nat (xs @ ys) = bytes_nat xs * 256 ^ length ys + bytes_nat ys"
proof (induction ys rule: rev_induct)
  case Nil
  then show ?case by (simp add: bytes_nat_def)
next
  case (snoc y ys)
  have "bytes_nat (xs @ ys @ [y]) = bytes_nat (xs @ ys) * 256 + y"
    using bytes_nat_snoc [of "xs @ ys" y] by simp
  with snoc show ?case by (simp add: bytes_nat_snoc algebra_simps)
qed

lemma bytes_nat_replicate_255: "bytes_nat (replicate n 255) = 256 ^ n - 1"
proof (induction n)
  case 0
  then show ?case by (simp add: bytes_nat_def)
next
  case (Suc n)
  have "replicate (Suc n) 255 = replicate n 255 @ [255 :: nat]"
    by (simp add: replicate_append_same)
  then have "bytes_nat (replicate (Suc n) 255) = (256 ^ n - 1) * 256 + 255"
    by (simp only: bytes_nat_snoc Suc.IH)
  moreover have "(1::nat) \<le> 256 ^ n" by simp
  ultimately show ?case by (simp add: diff_mult_distrib)
qed

lemma nat_or_low_ones:
  assumes "2 ^ k dvd (b :: nat)"
  shows "b OR (2 ^ k - 1) = b + (2 ^ k - 1)"
proof -
  from assms obtain c where "b = push_bit k c"
    by (auto simp: dvd_def push_bit_eq_mult mult.commute)
  then have "b AND mask k = 0"
    by (auto simp: bit_eq_iff bit_simps)
  then have "b + mask k = b OR mask k"
    by (rule disjunctive_add_eq_or)
  then show ?thesis by (simp add: mask_eq_exp_minus_1)
qed


lemma drop_bit_255: "r < 8 \<Longrightarrow> drop_bit r (255::nat) = 2 ^ (8 - r) - 1"
proof -
  assume "r < 8"
  then consider "r = 0" | "r = 1" | "r = 2" | "r = 3" | "r = 4" | "r = 5" | "r = 6" | "r = 7"
    by arith
  then show ?thesis by cases (simp_all add: drop_bit_eq_div)
qed

lemma pow2_256: "(2::nat) ^ (8 * n) = 256 ^ n"
  by (simp add: power_mult)

lemma fill_whole_bytes:
  assumes "f < 16" and "v < 256 ^ 16" and "256 ^ (16 - f) dvd v"
  shows "bytes_nat (take f (nat_bytes 16 v) @ replicate (16 - f) 255) = v + (256 ^ (16 - f) - 1)"
proof -
  let ?X = "256 ^ (16 - f) :: nat"
  have "256 ^ f * ?X = (256 ^ 16 :: nat)"
    using assms(1) by (simp only: power_add [symmetric]) simp
  then have "v div ?X < 256 ^ f"
    using assms(2) by (simp only: less_mult_imp_div_less)
  then have "bytes_nat (take f (nat_bytes 16 v)) = v div ?X"
    using assms(1) by (simp add: take_nat_bytes bytes_nat_nat_bytes)
  with assms(3) show ?thesis
    by (simp only: bytes_nat_append bytes_nat_replicate_255 length_replicate dvd_div_mult_self)
qed

lemma fill_partial_byte:
  assumes "f < 16" and "0 < r" and "r < 8" and "v < 256 ^ 16"
    and "2 ^ (8 - r) * 256 ^ (15 - f) dvd v"
  shows "bytes_nat (take (f + 1) ((nat_bytes 16 v)[f := nat_bytes 16 v ! f OR drop_bit r 255])
           @ replicate (15 - f) 255) = v + (2 ^ (8 - r) * 256 ^ (15 - f) - 1)"
proof -
  let ?X = "256 ^ (15 - f) :: nat"
  let ?a = "nat_bytes 16 v"
  define q where "q = v div ?X"
  have dv: "?X dvd v" using assms(5) by (rule dvd_mult_right)
  then have v: "v = q * ?X" by (simp add: q_def)
  have "0 < ?X" by simp
  from assms(5) v have "2 ^ (8 - r) * ?X dvd q * ?X" by simp
  then have dq: "2 ^ (8 - r) dvd q" using \<open>0 < ?X\<close> by simp
  have "256 ^ (f + 1) * ?X = (256 ^ 16 :: nat)"
    using assms(1) by (simp only: power_add [symmetric]) simp
  then have "q < 256 ^ (f + 1)"
    using assms(4) unfolding q_def by (simp only: less_mult_imp_div_less)
  then have full: "bytes_nat (take (f + 1) ?a) = q"
    using assms(1) by (simp add: take_nat_bytes q_def bytes_nat_nat_bytes del: nat_bytes.simps)
  have tk: "take (f + 1) ?a = take f ?a @ [?a ! f]"
    using assms(1) by (simp add: take_Suc_conv_app_nth)
  have "?a ! f = take (f + 1) ?a ! f" using assms(1) by simp
  also have "take (f + 1) ?a = nat_bytes (Suc f) q"
    using assms(1) by (simp add: take_nat_bytes q_def del: nat_bytes.simps)
  finally have af: "?a ! f = q mod 256" by (simp add: nth_append)
  have "(2::nat) ^ (8 - r) dvd 2 ^ 8" by (rule le_imp_power_dvd) simp
  with dq have "2 ^ (8 - r) dvd q mod 256" by (simp add: dvd_mod)
  from nat_or_low_ones [OF this]
  have orv: "?a ! f OR drop_bit r 255 = ?a ! f + (2 ^ (8 - r) - 1)"
    by (simp only: af drop_bit_255 [OF assms(3)])
  have "take (f + 1) (?a[f := ?a ! f OR drop_bit r 255]) = take f ?a @ [?a ! f OR drop_bit r 255]"
    using assms(1) by (simp add: take_Suc_conv_app_nth)
  then have "bytes_nat (take (f + 1) (?a[f := ?a ! f OR drop_bit r 255]))
      = bytes_nat (take f ?a) * 256 + ?a ! f + (2 ^ (8 - r) - 1)"
    by (simp only: bytes_nat_snoc orv add.assoc)
  moreover have "bytes_nat (take f ?a) * 256 + ?a ! f = q"
    using full by (simp only: tk bytes_nat_snoc)
  ultimately have "bytes_nat (take (f + 1) (?a[f := ?a ! f OR drop_bit r 255])) = q + (2 ^ (8 - r) - 1)"
    by (simp only:)
  then have "bytes_nat (take (f + 1) (?a[f := ?a ! f OR drop_bit r 255]) @ replicate (15 - f) 255)
      = (q + (2 ^ (8 - r) - 1)) * ?X + (?X - 1)"
    by (simp only: bytes_nat_append bytes_nat_replicate_255 length_replicate)
  also have "\<dots> = v + (2 ^ (8 - r) * ?X - 1)"
  proof -
    have "(1::nat) \<le> 2 ^ (8 - r)" by simp
    then have "(2 ^ (8 - r) - 1) * ?X + ?X = 2 ^ (8 - r) * ?X"
      by (simp add: diff_mult_distrib)
    moreover have "(q + (2 ^ (8 - r) - 1)) * ?X = q * ?X + (2 ^ (8 - r) - 1) * ?X"
      by (rule add_mult_distrib)
    ultimately show ?thesis using \<open>0 < ?X\<close> v by linarith
  qed
  finally show ?thesis .
qed

lemma fill_host_bytes_val:
  assumes "b \<le> 128" and "2 ^ (128 - b) dvd v" and "v < 2 ^ 128"
  shows "bytes_nat (fill_host_bytes b (nat_bytes 16 v)) = v + (2 ^ (128 - b) - 1)"
proof -
  define f r where "f = b div 8" and "r = b mod 8"
  have b: "b = 8 * f + r" and r8: "r < 8" by (simp_all add: f_def r_def)
  have v: "v < 256 ^ 16" using assms(3) by simp
  consider "f = 16" "r = 0" | "f < 16" "r = 0" | "f < 16" "0 < r"
    using assms(1) b by linarith
  then show ?thesis
  proof cases
    case 1
    then have "fill_host_bytes b (nat_bytes 16 v) = nat_bytes 16 v"
      by (simp add: fill_host_bytes_def flip: f_def)
    with 1 b v show ?thesis by (simp add: bytes_nat_nat_bytes)
  next
    case 2
    have e: "(2::nat) ^ (128 - b) = 256 ^ (16 - f)"
      using 2 b by (simp add: pow2_256 [symmetric] diff_mult_distrib2)
    have "fill_host_bytes b (nat_bytes 16 v) = take f (nat_bytes 16 v) @ replicate (16 - f) 255"
      using 2 by (simp add: fill_host_bytes_def Let_def flip: f_def r_def)
    with fill_whole_bytes [OF \<open>f < 16\<close> v] assms(2) e show ?thesis by simp
  next
    case 3
    have "128 - b = (8 - r) + 8 * (15 - f)" using 3 b r8 by simp
    then have e: "(2::nat) ^ (128 - b) = 2 ^ (8 - r) * 256 ^ (15 - f)"
      by (simp add: power_add pow2_256)
    have "fill_host_bytes b (nat_bytes 16 v) =
        take (f + 1) ((nat_bytes 16 v)[f := nat_bytes 16 v ! f OR drop_bit r 255])
        @ replicate (15 - f) 255"
      using 3 by (simp add: fill_host_bytes_def Let_def flip: f_def r_def)
    with fill_partial_byte [OF 3 r8 v] assms(2) e show ?thesis by simp
  qed
qed


lemma addr_val_net:
  "addr_val (pfx_net p) = addr_val (pfx_addr p) div 2 ^ host_bits p * 2 ^ host_bits p"
  by (cases "pfx_addr p") (simp_all add: pfx_net_def host_bits_def masked_def unat_hi_bits)

lemma prefixLastAddr_val:
  assumes "pfx_wf p"
  shows "bit_len (prefixLastAddr p) = bit_len (pfx_addr p)"
    and "zone_of (prefixLastAddr p) = []"
    and "addr_val (prefixLastAddr p) = addr_val (pfx_net p) + (2 ^ host_bits p - 1)"
proof (atomize (full), cases "pfx_addr p")
  case AddrNone
  with assms show "bit_len (prefixLastAddr p) = bit_len (pfx_addr p) \<and> zone_of (prefixLastAddr p) = []
    \<and> addr_val (prefixLastAddr p) = addr_val (pfx_net p) + (2 ^ host_bits p - 1)"
    by (simp add: pfx_wf_def addr_valid_def)
next
  case (V4 w)
  then show "bit_len (prefixLastAddr p) = bit_len (pfx_addr p) \<and> zone_of (prefixLastAddr p) = []
    \<and> addr_val (prefixLastAddr p) = addr_val (pfx_net p) + (2 ^ host_bits p - 1)"
    using unat_hi_bits_or_mask [of "32 - pfx_bits p" w]
    by (simp add: prefixLastAddr_def pfx_net_def masked_def host_bits_def host_mask32_eq
        unat_hi_bits del: One_nat_def)
next
  case (V6 w z)
  let ?k = "128 - pfx_bits p"
  have b: "pfx_bits p \<le> 128" using assms V6 by (simp add: pfx_wf_def)
  have lt: "unat (hi_bits ?k w) < 2 ^ 128"
    using unsigned_less [of "hi_bits ?k w", where ?'a = nat] by simp
  have "2 ^ ?k dvd unat (hi_bits ?k w)" by (simp add: unat_hi_bits)
  from fill_host_bytes_val [OF b this lt]
  have f: "bytes_nat (fill_host_bytes (pfx_bits p) (nat_bytes 16 (unat (hi_bits ?k w))))
      = unat (hi_bits ?k w) + (2 ^ ?k - 1)" .
  have "unat (hi_bits ?k w) + (2 ^ ?k - 1) = unat (hi_bits ?k w OR mask ?k)"
    by (simp add: unat_hi_bits_or_mask unat_hi_bits del: One_nat_def)
  also have "\<dots> < 2 ^ 128"
    using unsigned_less [of "hi_bits ?k w OR mask ?k", where ?'a = nat] by simp
  finally have "unat (of_nat (unat (hi_bits ?k w) + (2 ^ ?k - 1)) :: 128 word)
      = unat (hi_bits ?k w) + (2 ^ ?k - 1)"
    by (simp add: unat_of_nat)
  with V6 f show "bit_len (prefixLastAddr p) = bit_len (pfx_addr p) \<and> zone_of (prefixLastAddr p) = []
    \<and> addr_val (prefixLastAddr p) = addr_val (pfx_net p) + (2 ^ host_bits p - 1)"
    by (simp add: prefixLastAddr_def pfx_net_def masked_def host_bits_def
        del: One_nat_def nat_bytes.simps of_nat_add)
qed

lemma pfx_contains_iff:
  assumes "pfx_wf p"
  shows "pfx_contains p a \<longleftrightarrow> bit_len a = bit_len (pfx_addr p) \<and> zone_of a = []
    \<and> addr_val a div 2 ^ host_bits p = addr_val (pfx_addr p) div 2 ^ host_bits p"
  using assms
  by (cases "pfx_addr p"; cases a)
    (auto simp: pfx_contains_def pfx_wf_def addr_valid_def host_bits_def drop_bit_eq_iff)

lemma div_eq_interval:
  fixes x b m :: nat
  assumes "0 < m"
  shows "x div m = b div m \<longleftrightarrow> b div m * m \<le> x \<and> x \<le> b div m * m + (m - 1)"
proof
  assume e: "x div m = b div m"
  have "x = x div m * m + x mod m" by simp
  with e have "x = b div m * m + x mod m" by simp
  moreover have "x mod m < m" using assms by simp
  ultimately show "b div m * m \<le> x \<and> x \<le> b div m * m + (m - 1)" by linarith
next
  assume a: "b div m * m \<le> x \<and> x \<le> b div m * m + (m - 1)"
  define d where "d = x - b div m * m"
  have d: "x = b div m * m + d" "d < m"
    using a assms unfolding d_def by linarith+
  have "(b div m * m + d) div m = b div m" using d(2) by simp
  with d(1) show "x div m = b div m" by simp
qed

text \<open>The addresses of a prefix are those from its network address to \<open>prefixLastAddr\<close>.\<close>

lemma pfx_contains_interval:
  assumes "pfx_wf p"
  shows "pfx_contains p a \<longleftrightarrow> bit_len a = bit_len (pfx_addr p) \<and> zone_of a = []
    \<and> addr_val (pfx_net p) \<le> addr_val a \<and> addr_val a \<le> addr_val (prefixLastAddr p)"
  by (simp only: pfx_contains_iff [OF assms] prefixLastAddr_val(3) [OF assms] addr_val_net
      div_eq_interval zero_less_power zero_less_numeral)


section \<open>Allocation\<close>

lemma AvailableIPs_eq:
  "AvailableIPs r = avail_from (addr_next (pfx_net (rg_network r))) (prefixLastAddr (masked (rg_network r)))"
  by (simp add: AvailableIPs_def Let_def pfx_net_def avail_from.simps [of "addr_next _"])

lemma alloc_from_eq:
  "alloc_from used ip lst = find (\<lambda>a. a \<notin> set used) (map normalizeAddr (avail_from ip lst))"
proof (induction ip lst rule: avail_from.induct)
  case (1 ip lst)
  show ?case
  proof (cases "ip \<noteq> AddrNone \<and> addr_less ip lst")
    case True
    with 1 show ?thesis
      by (simp add: alloc_from.simps [of used ip lst] avail_from.simps [of ip lst])
  next
    case False
    then show ?thesis
      by (auto simp: alloc_from.simps [of used ip lst] avail_from.simps [of ip lst])
  qed
qed

lemma find_append:
  "find P (xs @ ys) = (case find P xs of None \<Rightarrow> find P ys | Some x \<Rightarrow> Some x)"
  by (induction xs) auto

text \<open>
  The iterative allocation is the reference one: build the list of all usable addresses of all
  ranges, in order, and take the first that is not used.
\<close>

lemma alloc_ranges_reference:
  "alloc_ranges used rs =
     (case find (\<lambda>a. a \<notin> set used) (map normalizeAddr (concat (map AvailableIPs rs))) of
        None \<Rightarrow> Inl NoAvailableIP
      | Some a \<Rightarrow> Inr a)"
proof (induction rs)
  case Nil
  then show ?case by simp
next
  case (Cons r rs)
  have "alloc_from used (addr_next (pfx_addr (masked (rg_network r))))
      (prefixLastAddr (masked (rg_network r)))
    = find (\<lambda>a. a \<notin> set used) (map normalizeAddr (AvailableIPs r))"
    by (simp add: alloc_from_eq AvailableIPs_eq pfx_net_def)
  with Cons show ?case by (simp add: find_append split: option.splits)
qed

text \<open>The addresses of one family without zone, ordered by value.\<close>

definition same_kind :: "addr \<Rightarrow> addr \<Rightarrow> bool" where
  "same_kind a b \<longleftrightarrow> bit_len a = bit_len b \<and> zone_of a = [] \<and> zone_of b = []"

lemma addr_less_val: "same_kind a b \<Longrightarrow> addr_less a b \<longleftrightarrow> addr_val a < addr_val b"
  by (cases a; cases b) (auto simp: same_kind_def word_less_nat_alt)

lemma addr_eq_val: "same_kind a b \<Longrightarrow> a = b \<longleftrightarrow> addr_val a = addr_val b"
  by (cases a; cases b) (auto simp: same_kind_def word_unat_eq_iff)

lemma unat_succ_if_less:
  assumes "w < (l :: 'a::len word)"
  shows "w + 1 \<noteq> 0" and "unat (w + 1) = Suc (unat w)"
proof -
  from assms have "unat w < unat l" by (simp add: word_less_nat_alt)
  moreover have "unat l < 2 ^ LENGTH('a)" by (rule unsigned_less)
  ultimately have "Suc (unat w) < 2 ^ LENGTH('a)" by (metis Suc_leI le_less_trans)
  then show u: "unat (w + 1) = Suc (unat w)"
    by (simp add: unat_plus_if' unat_1)
  then show "w + 1 \<noteq> 0" by (metis nat.distinct(1) unat_0)
qed

lemma addr_next_val:
  assumes "same_kind a b" and "addr_less a b"
  shows "same_kind (addr_next a) b" and "addr_val (addr_next a) = Suc (addr_val a)"
    and "addr_next a \<noteq> AddrNone" and "a \<noteq> AddrNone"
proof -
  have "same_kind (addr_next a) b \<and> addr_val (addr_next a) = Suc (addr_val a)
      \<and> addr_next a \<noteq> AddrNone \<and> a \<noteq> AddrNone"
    using assms by (cases a; cases b) (auto simp: same_kind_def unat_succ_if_less)
  then show "same_kind (addr_next a) b" and "addr_val (addr_next a) = Suc (addr_val a)"
    and "addr_next a \<noteq> AddrNone" and "a \<noteq> AddrNone" by auto
qed

lemma avail_from_unfold:
  "same_kind ip lst \<Longrightarrow> addr_less ip lst \<Longrightarrow> avail_from ip lst = ip # avail_from (addr_next ip) lst"
  using addr_next_val(4) avail_from.simps [of ip lst] by auto

lemma avail_from_stop: "\<not> addr_less ip lst \<Longrightarrow> avail_from ip lst = []"
  by (simp add: avail_from.simps [of ip lst])

lemma avail_from_spec:
  assumes "same_kind ip lst"
  shows "set (avail_from ip lst) = {a. same_kind a lst \<and> addr_val ip \<le> addr_val a \<and> addr_val a < addr_val lst}"
    and "map addr_val (avail_from ip lst) = [addr_val ip..<addr_val lst]"
proof -
  have "set (avail_from ip lst) = {a. same_kind a lst \<and> addr_val ip \<le> addr_val a \<and> addr_val a < addr_val lst}
    \<and> map addr_val (avail_from ip lst) = [addr_val ip..<addr_val lst]"
    using assms
  proof (induction "addr_val lst - addr_val ip" arbitrary: ip)
    case 0
    then have "\<not> addr_less ip lst" by (simp add: addr_less_val)
    with 0 show ?case by (auto simp: avail_from_stop)
  next
    case (Suc n)
    then have less: "addr_val ip < addr_val lst" by simp
    then have l: "addr_less ip lst" using Suc.prems by (simp add: addr_less_val)
    note nxt = addr_next_val [OF Suc.prems l]
    from Suc(2) nxt(2) have n: "n = addr_val lst - addr_val (addr_next ip)" by simp
    note IH = Suc(1) [OF n nxt(1)]
    have eq: "a = ip" if "same_kind a lst" "addr_val a = addr_val ip" for a
      using that Suc.prems addr_eq_val [of a ip] by (auto simp: same_kind_def)
    show ?case
    proof
      show "set (avail_from ip lst)
        = {a. same_kind a lst \<and> addr_val ip \<le> addr_val a \<and> addr_val a < addr_val lst}"
        using IH nxt(2) eq Suc.prems less
        by (auto simp: avail_from_unfold [OF Suc.prems l] Suc_le_eq le_less)
      show "map addr_val (avail_from ip lst) = [addr_val ip..<addr_val lst]"
        using IH nxt(2) less by (simp add: avail_from_unfold [OF Suc.prems l] upt_conv_Cons)
    qed
  qed
  then show "set (avail_from ip lst) = {a. same_kind a lst \<and> addr_val ip \<le> addr_val a \<and> addr_val a < addr_val lst}"
    and "map addr_val (avail_from ip lst) = [addr_val ip..<addr_val lst]" by auto
qed

lemma pfx_net_kind: "pfx_wf p \<Longrightarrow> same_kind (pfx_net p) (prefixLastAddr p)"
  using prefixLastAddr_val(1,2) [of p]
  by (cases "pfx_addr p") (auto simp: same_kind_def pfx_net_def masked_def pfx_wf_def)

lemma prefixLastAddr_masked [simp]: "prefixLastAddr (masked p) = prefixLastAddr p"
  by (auto simp: prefixLastAddr_def split: addr.splits)

lemma prefixLastAddr_ge: "pfx_wf p \<Longrightarrow> addr_val (pfx_net p) \<le> addr_val (prefixLastAddr p)"
  using prefixLastAddr_val(3) [of p] by (metis le_add1)

lemma not_succ_less: "w + 1 \<noteq> 0 \<Longrightarrow> \<not> w + 1 < (w :: 'a::len word)"
  using unatSuc [of w] by (simp add: word_less_nat_alt add.commute)

lemma avail_from_next_self: "avail_from (addr_next a) a = []"
proof -
  have "addr_next a = AddrNone \<or> \<not> addr_less (addr_next a) a"
    by (cases a) (auto simp: not_succ_less)
  then show ?thesis by (auto simp: avail_from.simps [of "addr_next a"])
qed

lemma AvailableIPs_spec:
  assumes "pfx_wf (rg_network r)"
  shows "set (AvailableIPs r) = {a. same_kind a (prefixLastAddr (rg_network r))
      \<and> addr_val (pfx_net (rg_network r)) < addr_val a
      \<and> addr_val a < addr_val (prefixLastAddr (rg_network r))}"
    and "map addr_val (AvailableIPs r)
      = [Suc (addr_val (pfx_net (rg_network r)))..<addr_val (prefixLastAddr (rg_network r))]"
proof -
  let ?n = "pfx_net (rg_network r)" and ?l = "prefixLastAddr (rg_network r)"
  have "set (AvailableIPs r)
      = {a. same_kind a ?l \<and> addr_val ?n < addr_val a \<and> addr_val a < addr_val ?l}
    \<and> map addr_val (AvailableIPs r) = [Suc (addr_val ?n)..<addr_val ?l]"
  proof (cases "addr_less ?n ?l")
    case True
    note nxt = addr_next_val [OF pfx_net_kind [OF assms] True]
    show ?thesis
      using avail_from_spec [OF nxt(1)] nxt(2) by (simp add: AvailableIPs_eq Suc_le_eq)
  next
    case False
    then have v: "addr_val ?n = addr_val ?l"
      using pfx_net_kind [OF assms] prefixLastAddr_ge [OF assms] by (simp add: addr_less_val)
    then have "?n = ?l" using pfx_net_kind [OF assms] by (simp add: addr_eq_val)
    then have "AvailableIPs r = []"
      using avail_from_next_self [of ?l] by (simp add: AvailableIPs_eq)
    with v show ?thesis by auto
  qed
  then show "set (AvailableIPs r) = {a. same_kind a ?l \<and> addr_val ?n < addr_val a
      \<and> addr_val a < addr_val ?l}"
    and "map addr_val (AvailableIPs r) = [Suc (addr_val ?n)..<addr_val ?l]" by auto
qed

lemma AvailableIPs_iff:
  assumes "pfx_wf (rg_network r)"
  shows "a \<in> set (AvailableIPs r) \<longleftrightarrow> Range_Contains r a
    \<and> a \<noteq> pfx_net (rg_network r) \<and> a \<noteq> prefixLastAddr (rg_network r)"
proof -
  let ?n = "pfx_net (rg_network r)" and ?l = "prefixLastAddr (rg_network r)"
  have k: "same_kind ?n ?l" by (rule pfx_net_kind [OF assms])
  have c: "Range_Contains r a \<longleftrightarrow> same_kind a ?l \<and> addr_val ?n \<le> addr_val a \<and> addr_val a \<le> addr_val ?l"
    using prefixLastAddr_val(1,2) [OF assms]
    by (simp add: Range_Contains_def pfx_contains_interval [OF assms] same_kind_def)
  show ?thesis
  proof (cases "same_kind a ?l")
    case True
    then have "same_kind a ?n" using k by (auto simp: same_kind_def)
    with True have "a = ?n \<longleftrightarrow> addr_val a = addr_val ?n" "a = ?l \<longleftrightarrow> addr_val a = addr_val ?l"
      by (simp_all add: addr_eq_val)
    with True c show ?thesis by (auto simp: AvailableIPs_spec(1) [OF assms])
  next
    case False
    with c show ?thesis by (simp add: AvailableIPs_spec(1) [OF assms])
  qed
qed

lemma AvailableIPs_distinct: "pfx_wf (rg_network r) \<Longrightarrow> distinct (AvailableIPs r)"
  using AvailableIPs_spec(2) [of r] by (metis distinct_map distinct_upt)

lemma AvailableIPs_length:
  assumes "pfx_wf (rg_network r)"
  shows "length (AvailableIPs r) = 2 ^ host_bits (rg_network r) - 2"
proof -
  have "length (AvailableIPs r) = length (map addr_val (AvailableIPs r))" by simp
  also have "\<dots> = 2 ^ host_bits (rg_network r) - 2"
    by (simp only: AvailableIPs_spec(2) [OF assms] prefixLastAddr_val(3) [OF assms]) simp
  finally show ?thesis .
qed

section \<open>Overlap\<close>

lemma div_mult_div_dvd:
  fixes x m n :: nat
  assumes "0 < m" and "m dvd n"
  shows "(x div m * m) div n = x div n"
proof -
  from assms(2) obtain k where k: "n = m * k" ..
  have "(x div m * m) div n = x div m div k"
    using assms(1) by (simp only: k div_mult2_eq) simp
  then show ?thesis by (simp add: k div_mult2_eq)
qed

lemma pfx_contains_masked:
  assumes "pfx_wf p"
  shows "pfx_contains (masked p) y = pfx_contains p y"
proof -
  have h: "host_bits (masked p) = host_bits p" by (simp add: host_bits_def)
  have "addr_val (pfx_addr (masked p)) div 2 ^ host_bits p = addr_val (pfx_addr p) div 2 ^ host_bits p"
    using addr_val_net [of p] by (simp add: pfx_net_def)
  then show ?thesis
    by (simp add: pfx_contains_iff [OF assms] pfx_contains_iff [OF masked_wf [OF assms]] h)
qed

lemma pfx_contains_net: "pfx_wf p \<Longrightarrow> pfx_contains p (pfx_net p)"
  using prefixLastAddr_ge pfx_net_kind [of p] prefixLastAddr_val(1) [of p]
  by (simp add: pfx_contains_interval same_kind_def)

lemma pfx_contains_last: "pfx_wf p \<Longrightarrow> pfx_contains p (prefixLastAddr p)"
  using prefixLastAddr_ge prefixLastAddr_val(1,2) [of p]
  by (simp add: pfx_contains_interval)

lemma RangesOverlap_iff:
  assumes "pfx_wf (rg_network a)" and "pfx_wf (rg_network b)"
  shows "RangesOverlap a b \<longleftrightarrow> (\<exists>x. Range_Contains a x \<and> Range_Contains b x)"
proof -
  have common: "pfx_contains q (pfx_net p)"
    if "pfx_wf p" "pfx_wf q" "pfx_contains p x" "pfx_contains q x" "host_bits p \<le> host_bits q"
    for p q x
    using that div_mult_div_dvd [of "2 ^ host_bits p" "2 ^ host_bits q" "addr_val (pfx_addr p)"]
      div_mult_div_dvd [of "2 ^ host_bits p" "2 ^ host_bits q" "addr_val x"] pfx_net_kind [of p]
      prefixLastAddr_val(1) [of p]
    by (simp add: pfx_contains_iff addr_val_net same_kind_def le_imp_power_dvd)
  show ?thesis
  proof
    assume "RangesOverlap a b"
    then show "\<exists>x. Range_Contains a x \<and> Range_Contains b x"
      using pfx_contains_masked [OF assms(1)] pfx_contains_masked [OF assms(2)]
        pfx_contains_net [OF assms(1)] pfx_contains_net [OF assms(2)]
      by (auto simp: RangesOverlap_def Range_Contains_def Let_def pfx_net_def)
  next
    assume "\<exists>x. Range_Contains a x \<and> Range_Contains b x"
    then obtain x where "pfx_contains (rg_network a) x" "pfx_contains (rg_network b) x"
      by (auto simp: Range_Contains_def)
    then show "RangesOverlap a b"
      using common [OF assms] common [OF assms(2,1)]
        pfx_contains_masked [OF assms(1)] pfx_contains_masked [OF assms(2)]
        linear [of "host_bits (rg_network a)" "host_bits (rg_network b)"]
      by (auto simp: RangesOverlap_def Let_def pfx_net_def)
  qed
qed

lemma parse_v4_Some: "parse_v4 s = Some a \<Longrightarrow> a \<noteq> AddrNone"
  by (auto simp: parse_v4_def)

lemma parse_v6_Some: "parse_v6 s = Some a \<Longrightarrow> a \<noteq> AddrNone"
  by (auto simp: parse_v6_def split: option.splits prod.splits if_splits)

lemma parse_addr_valid: "parse_addr s = Some a \<Longrightarrow> addr_valid a"
  by (auto simp: parse_addr_def addr_valid_def dest: parse_v4_Some parse_v6_Some
      split: option.splits if_splits)

lemma parse_prefix_wf: "parse_prefix s = Some p \<Longrightarrow> pfx_wf p"
  by (auto simp: parse_prefix_def pfx_wf_def parse_addr_valid split: option.splits if_splits)

lemma ParseRange_wf: "ParseRange nr = Inr r \<Longrightarrow> pfx_wf (rg_network r)"
  by (auto simp: ParseRange_def dest!: parse_prefix_wf intro: masked_wf split: option.splits if_splits)


section \<open>Properties\<close>

text \<open>
  C3. \<open>AllocateIP\<close> walks the ranges address by address without building a list. It returns exactly
  what the reference computation returns: the first address, in range order and then in address
  order, of the usable addresses (\<open>AvailableIPs\<close>) whose normalised form is not the normalised form
  of an existing address; and the error exactly when there is none.
\<close>

theorem AllocateIP_reference:
  "AllocateIP ranges existing =
     (case find (\<lambda>a. a \<notin> normalizeAddr ` {e \<in> set existing. addr_valid e})
             (map normalizeAddr (concat (map AvailableIPs ranges))) of
        None \<Rightarrow> Inl NoAvailableIP
      | Some a \<Rightarrow> Inr a)"
  by (simp add: AllocateIP_def alloc_ranges_reference)

text \<open>
  C40. The usable addresses of a parsed range are its addresses without the network address and the
  last (broadcast) address, each listed once.
\<close>

theorem AvailableIPs_exact:
  assumes "ParseRange nr = Inr r"
  shows "distinct (AvailableIPs r)
    \<and> (a \<in> set (AvailableIPs r) \<longleftrightarrow> Range_Contains r a
         \<and> a \<noteq> pfx_addr (rg_network r) \<and> a \<noteq> prefixLastAddr (rg_network r))
    \<and> length (AvailableIPs r) = 2 ^ (bit_len (pfx_addr (rg_network r)) - pfx_bits (rg_network r)) - 2"
proof -
  note wf = ParseRange_wf [OF assms]
  have "pfx_net (rg_network r) = pfx_addr (rg_network r)"
    using assms by (auto simp: pfx_net_def ParseRange_def split: option.splits if_splits)
  then show ?thesis
    using AvailableIPs_distinct [OF wf] AvailableIPs_iff [OF wf, of a] AvailableIPs_length [OF wf]
    by (simp add: host_bits_def)
qed

definition sample_range :: named_range where
  "sample_range = \<lparr>nr_name = ''edge'', nr_cidr = ''10.0.0.9/30'', nr_balancer_ip = []\<rparr>"

lemma sample_range_parsed:
  "ParseRange sample_range =
     Inr \<lparr>rg_name = ''edge'', rg_network = \<lparr>pfx_addr = V4 0x0A000008, pfx_bits = 30\<rparr>,
          rg_balancer_ip = AddrNone\<rparr>"
  by code_simp

theorem AvailableIPs_exact_witness:
  "\<exists>r. ParseRange sample_range = Inr r \<and> V4 0x0A00000B \<notin> set (AvailableIPs r)
     \<and> length (AvailableIPs r) = 2"
proof -
  have "prefixLastAddr \<lparr>pfx_addr = V4 0x0A000008, pfx_bits = 30\<rparr> = V4 0x0A00000B"
    by code_simp
  then show ?thesis
    using AvailableIPs_exact [OF sample_range_parsed, of "V4 0x0A00000B"]
    by (simp add: sample_range_parsed)
qed

text \<open>
  C39. Two parsed ranges are reported as overlapping exactly when some address lies in both.
\<close>

theorem RangesOverlap_common_address:
  assumes "ParseRange x = Inr a" and "ParseRange y = Inr b"
  shows "RangesOverlap a b \<longleftrightarrow> (\<exists>ip. Range_Contains a ip \<and> Range_Contains b ip)"
  by (rule RangesOverlap_iff [OF ParseRange_wf [OF assms(1)] ParseRange_wf [OF assms(2)]])

theorem RangesOverlap_common_address_witness:
  "\<exists>a. ParseRange sample_range = Inr a \<and> RangesOverlap a a"
proof -
  have "Range_Contains \<lparr>rg_name = ''edge'', rg_network = \<lparr>pfx_addr = V4 0x0A000008, pfx_bits = 30\<rparr>,
      rg_balancer_ip = AddrNone\<rparr> (V4 0x0A000009)"
    by code_simp
  then show ?thesis
    using RangesOverlap_common_address [OF sample_range_parsed sample_range_parsed]
    by (auto simp: sample_range_parsed)
qed

end
