(* ===== verification/Topology_Validate.thy ===== *)
theory Topology_Validate
  imports Ranges
begin

text \<open>
  \<open>pkg/topology/validate.go\<close> and \<open>ValidateV2\<close> of \<open>topology_v2.go\<close>. The v1 validator collects
  findings; the v2 validator stops at the first error. Each is compared with a description of the
  valid topologies that speaks of addresses, not of the validator's loops.

  The text of a finding is a value of \<open>finding_msg\<close>, whose arguments are the values the code
  formats.
\<close>

section \<open>The v1 validator\<close>

definition ValidateDSCP :: "int \<Rightarrow> bool" where
  "ValidateDSCP dscp \<longleftrightarrow> \<not> (dscp < 1 \<or> dscp > 63)"

datatype storage_error = StorageDotDot | StorageLeadingSlash | StorageBadChars

text \<open>The class \<^verbatim>\<open>[a-zA-Z0-9_/-]\<close> of \<open>storageRootPattern\<close>.\<close>

definition storage_char :: "char \<Rightarrow> bool" where
  "storage_char c \<longleftrightarrow> is_lower c \<or> is_upper c \<or> is_digit c \<or> c = CHR ''_'' \<or> c = CHR ''/'' \<or> c = CHR ''-''"

definition ValidateStorageRoot :: "string \<Rightarrow> storage_error + unit" where
  "ValidateStorageRoot s =
     (if sublist ''..'' s then Inl StorageDotDot
      else if prefix ''/'' s then Inl StorageLeadingSlash
      else if \<not> (s \<noteq> [] \<and> list_all storage_char s) then Inl StorageBadChars
      else Inr ())"

datatype finding_msg =
    BadOverlayCIDR string
  | DuplicateRangeName string
  | RangeUnparsable range_error
  | RangeOutsideOverlay
  | BalancerIPOutsideRange
  | RangesOverlapping string string
  | DuplicateNodeName string
  | LongMasterName string
  | BadOverlayIP string
  | OverlayIPUsed string string
  | EndpointNotFound string
  | MasterNotFound string
  | PolicyBadDSCP string string int
  | BadStorageRoot string storage_error

record validation_error =
  ve_field :: string
  ve_message :: finding_msg
  ve_severity :: string

definition ve_error :: "string \<Rightarrow> finding_msg \<Rightarrow> validation_error" where
  "ve_error field msg = \<lparr>ve_field = field, ve_message = msg, ve_severity = ''error''\<rparr>"

definition ve_warning :: "string \<Rightarrow> finding_msg \<Rightarrow> validation_error" where
  "ve_warning field msg = \<lparr>ve_field = field, ve_message = msg, ve_severity = ''warning''\<rparr>"

text \<open>\<^verbatim>\<open>fmt.Sprintf("%s[%d]%s", base, i, rest)\<close>.\<close>

definition indexed :: "string \<Rightarrow> nat \<Rightarrow> string \<Rightarrow> string" where
  "indexed base i rest = base @ ''['' @ nat_str i @ '']'' @ rest"

definition isRangeWithinOverlay :: "prefix_t \<Rightarrow> prefix_t \<Rightarrow> bool" where
  "isRangeWithinOverlay overlay candidate \<longleftrightarrow>
     pfx_contains overlay (pfx_addr (masked candidate))
     \<and> pfx_contains overlay (prefixLastAddr (masked candidate))"

text \<open>
  The loop over the declared ranges: the masked overlay prefix when it parsed, the index, the names
  seen; the findings and the ranges that parsed.
\<close>

fun range_findings ::
  "prefix_t option \<Rightarrow> nat \<Rightarrow> string list \<Rightarrow> named_range list \<Rightarrow> validation_error list \<times> range_t list"
where
  "range_findings overlay i rangeNames [] = ([], [])"
| "range_findings overlay i rangeNames (nr # nrs) =
     (let (es, rs) = range_findings overlay (Suc i) (List.insert (nr_name nr) rangeNames) nrs;
          dup = (if nr_name nr \<in> set rangeNames
                 then [ve_error (indexed ''overlay.ranges'' i ''.name'') (DuplicateRangeName (nr_name nr))]
                 else [])
      in case ParseRange nr of
           Inl e \<Rightarrow>
             (dup @ ve_error (indexed ''overlay.ranges'' i ''.cidr'') (RangeUnparsable e) # es, rs)
         | Inr r \<Rightarrow>
             (dup
              @ (case overlay of
                   Some ov \<Rightarrow>
                     if isRangeWithinOverlay ov (rg_network r) then []
                     else [ve_error (indexed ''overlay.ranges'' i ''.cidr'') RangeOutsideOverlay]
                 | None \<Rightarrow> [])
              @ (if nr_balancer_ip nr \<noteq> [] \<and> \<not> Range_Contains r (rg_balancer_ip r)
                 then [ve_error (indexed ''overlay.ranges'' i ''.balancer_ip'') BalancerIPOutsideRange]
                 else [])
              @ es,
              r # rs))"

text \<open>The double loop over the pairs of parsed ranges.\<close>

fun overlap_findings :: "range_t list \<Rightarrow> validation_error list" where
  "overlap_findings [] = []"
| "overlap_findings (r # rs) =
     map (\<lambda>s. ve_error ''overlay.ranges'' (RangesOverlapping (rg_name r) (rg_name s)))
       (filter (RangesOverlap r) rs) @ overlap_findings rs"

fun unique_names_from :: "string \<Rightarrow> nat \<Rightarrow> string list \<Rightarrow> string list \<Rightarrow> validation_error list" where
  "unique_names_from fieldPrefix i seen [] = []"
| "unique_names_from fieldPrefix i seen (name # names) =
     (if name \<in> set seen then
        ve_error (indexed fieldPrefix i ''.name'') (DuplicateNodeName name)
        # unique_names_from fieldPrefix (Suc i) seen names
      else unique_names_from fieldPrefix (Suc i) (name # seen) names)"

definition validateUniqueNames :: "'a list \<Rightarrow> string \<Rightarrow> ('a \<Rightarrow> string) \<Rightarrow> validation_error list" where
  "validateUniqueNames items fieldPrefix nameOf = unique_names_from fieldPrefix 0 [] (map nameOf items)"

definition maxMasterNameLen :: nat where "maxMasterNameLen = 12"

definition long_master_names :: "master_node list \<Rightarrow> validation_error list" where
  "long_master_names masters =
     concat (map (\<lambda>(i, m).
       if length (mn_name m) > maxMasterNameLen
       then [ve_warning (indexed ''masters'' i ''.name'') (LongMasterName (mn_name m))] else [])
       (enumerate 0 masters))"

text \<open>\<open>recordIP\<close>, folded over the fields in order: the owner of each normalised address.\<close>

fun record_ips :: "(addr, string) gomap \<Rightarrow> (string \<times> string) list \<Rightarrow> validation_error list" where
  "record_ips owners [] = []"
| "record_ips owners ((field, v) # rest) =
     (case parse_addr v of
        None \<Rightarrow> ve_error field (BadOverlayIP v) # record_ips owners rest
      | Some a \<Rightarrow>
          (case gm_get owners (normalizeAddr a) of
             Some owner \<Rightarrow> ve_error field (OverlayIPUsed v owner) # record_ips owners rest
           | None \<Rightarrow> record_ips (gm_put (normalizeAddr a) field owners) rest))"

definition overlay_ip_fields :: "topology \<Rightarrow> (string \<times> string) list" where
  "overlay_ip_fields t =
     map (\<lambda>(i, m). (indexed ''masters'' i ''.overlay_ip'', mn_overlay_ip m)) (enumerate 0 (tp_masters t))
     @ map (\<lambda>(i, e). (indexed ''endpoints'' i ''.overlay_ip'', en_overlay_ip e)) (enumerate 0 (tp_endpoints t))
     @ map (\<lambda>(i, c). (indexed ''clients'' i ''.overlay_ip'', cn_overlay_ip c)) (enumerate 0 (tp_clients t))"

definition validateUniqueOverlayIPs :: "topology \<Rightarrow> validation_error list" where
  "validateUniqueOverlayIPs t = record_ips [] (overlay_ip_fields t)"

text \<open>The references of one node that name nothing, as warnings.\<close>

definition missing_refs ::
  "string \<Rightarrow> nat \<Rightarrow> string \<Rightarrow> (string \<Rightarrow> finding_msg) \<Rightarrow> string list \<Rightarrow> string list \<Rightarrow> validation_error list"
where
  "missing_refs base i sub msg known refs =
     concat (map (\<lambda>(j, ref).
       if ref \<in> set known then [] else [ve_warning (indexed base i (indexed sub j [])) (msg ref)])
       (enumerate 0 refs))"

definition validateReferences :: "topology \<Rightarrow> validation_error list" where
  "validateReferences t =
     concat (map (\<lambda>(i, m). missing_refs ''masters'' i ''.endpoints'' EndpointNotFound
         (map en_name (tp_endpoints t)) (mn_endpoints m)) (enumerate 0 (tp_masters t)))
     @ concat (map (\<lambda>(i, c). missing_refs ''clients'' i ''.masters'' MasterNotFound
         (map mn_name (tp_masters t)) (cn_masters c)) (enumerate 0 (tp_clients t)))"

definition validateClientDSCPPolicies :: "topology \<Rightarrow> validation_error list" where
  "validateClientDSCPPolicies t =
     concat (map (\<lambda>(i, c). concat (map (\<lambda>(j, p).
         if ValidateDSCP (rp_dscp p) then []
         else [ve_error (indexed ''clients'' i (indexed ''.routing_policies'' j ''.dscp''))
                 (PolicyBadDSCP (cn_name c) (rp_name p) (rp_dscp p))])
       (enumerate 0 (cn_routing_policies c)))) (enumerate 0 (tp_clients t)))"

definition validateClientStorageRoots :: "topology \<Rightarrow> validation_error list" where
  "validateClientStorageRoots t =
     concat (map (\<lambda>(i, c).
       case cn_mikrotik c of
         None \<Rightarrow> []
       | Some m \<Rightarrow>
           if mt_storage_root m = [] then []
           else (case ValidateStorageRoot (mt_storage_root m) of
               Inl e \<Rightarrow> [ve_error (indexed ''clients'' i ''.mikrotik.storage_root'')
                          (BadStorageRoot (cn_name c) e)]
             | Inr _ \<Rightarrow> []))
       (enumerate 0 (tp_clients t)))"

definition ValidateTopology :: "topology \<Rightarrow> validation_error list" where
  "ValidateTopology t =
     (let space = ov_space (tp_overlay t);
          overlayPrefix = map_option masked (parse_prefix space);
          (es, validRanges) = range_findings overlayPrefix 0 [] (ov_ranges (tp_overlay t))
      in (if overlayPrefix = None then [ve_error ''overlay.space'' (BadOverlayCIDR space)] else [])
         @ es
         @ overlap_findings validRanges
         @ validateUniqueNames (tp_masters t) ''masters'' mn_name
         @ validateUniqueNames (tp_endpoints t) ''endpoints'' en_name
         @ validateUniqueNames (tp_clients t) ''clients'' cn_name
         @ long_master_names (tp_masters t)
         @ validateUniqueOverlayIPs t
         @ validateReferences t
         @ validateClientDSCPPolicies t
         @ validateClientStorageRoots t)"

section \<open>The v2 validator\<close>

datatype endpoint_error = NotHostPort | EmptyHost | BadPort string

definition validateV2MeshEndpoint :: "string \<Rightarrow> endpoint_error + unit" where
  "validateV2MeshEndpoint endpoint =
     (case split_host_port endpoint of
        None \<Rightarrow> Inl NotHostPort
      | Some (host, portText) \<Rightarrow>
          if trim_space host = [] then Inl EmptyHost
          else (case atoi portText of
              None \<Rightarrow> Inl (BadPort portText)
            | Some port \<Rightarrow> if port < 1 \<or> port > 65535 then Inl (BadPort portText) else Inr ()))"

datatype v2_error =
    NilTopology
  | ErrV2SchemaMissing
  | ErrV2OverlayMissing
  | ErrV2OverlayInvalid string
  | ErrV2NoNodes
  | ErrV2NodeMissingName nat
  | ErrV2NodeMissingRoles string
  | V2RoleComposability string role_error
  | V2BadListenPort string
  | V2BadMeshEndpoint string endpoint_error
  | V2PublicIPHasPort string
  | ErrV2NodeMissingOverlay string
  | V2OverlayNotIP string string
  | ErrV2OverlayOutOfRange string string string
  | ErrV2OverlayDuplicate string string string

text \<open>The checks of one node that do not depend on the other nodes, in the order of the code.\<close>

definition check_node_v2 :: "string \<Rightarrow> ipnet \<Rightarrow> nat \<Rightarrow> node_v2 \<Rightarrow> v2_error + unit" where
  "check_node_v2 supernetText supernet i n =
     (if n2_name n = [] then Inl (ErrV2NodeMissingName i)
      else if n2_roles n = [] then Inl (ErrV2NodeMissingRoles (n2_name n))
      else rbind (map_err (V2RoleComposability (n2_name n)) (ValidateComposability (n2_roles n))) (\<lambda>_.
      if n2_mesh_listen_port n < 0 \<or> n2_mesh_listen_port n > 65535 then Inl (V2BadListenPort (n2_name n))
      else rbind (if trim_space (n2_mesh_endpoint n) \<noteq> []
                  then map_err (V2BadMeshEndpoint (n2_name n))
                         (validateV2MeshEndpoint (trim_space (n2_mesh_endpoint n)))
                  else Inr ()) (\<lambda>_.
      if split_host_port (trim_space (n2_public_ip n)) \<noteq> None then Inl (V2PublicIPHasPort (n2_name n))
      else if n2_overlay_ip n = [] then Inl (ErrV2NodeMissingOverlay (n2_name n))
      else (case parse_ip (n2_overlay_ip n) of
          None \<Rightarrow> Inl (V2OverlayNotIP (n2_name n) (n2_overlay_ip n))
        | Some ip \<Rightarrow>
            if \<not> net_contains supernet ip
            then Inl (ErrV2OverlayOutOfRange (n2_name n) (n2_overlay_ip n) supernetText)
            else Inr ()))))"

fun validate_nodes_v2 ::
  "string \<Rightarrow> ipnet \<Rightarrow> nat \<Rightarrow> (string, string) gomap \<Rightarrow> node_v2 list \<Rightarrow> v2_error + unit"
where
  "validate_nodes_v2 supernetText supernet i seenOverlay [] = Inr ()"
| "validate_nodes_v2 supernetText supernet i seenOverlay (n # ns) =
     rbind (check_node_v2 supernetText supernet i n) (\<lambda>_.
       case gm_get seenOverlay (n2_overlay_ip n) of
         Some prev \<Rightarrow> Inl (ErrV2OverlayDuplicate prev (n2_name n) (n2_overlay_ip n))
       | None \<Rightarrow>
           validate_nodes_v2 supernetText supernet (Suc i)
             (gm_put (n2_overlay_ip n) (n2_name n) seenOverlay) ns)"

definition ValidateV2 :: "topology_v2 option \<Rightarrow> v2_error + unit" where
  "ValidateV2 topo =
     (case topo of
        None \<Rightarrow> Inl NilTopology
      | Some t \<Rightarrow>
          if t2_schema_version t \<noteq> SchemaV2 then Inl ErrV2SchemaMissing
          else if mesh_overlay_supernet (t2_mesh t) = [] then Inl ErrV2OverlayMissing
          else (case parse_cidr (mesh_overlay_supernet (t2_mesh t)) of
              None \<Rightarrow> Inl (ErrV2OverlayInvalid (mesh_overlay_supernet (t2_mesh t)))
            | Some (_, supernet) \<Rightarrow>
                if t2_nodes t = [] then Inl ErrV2NoNodes
                else validate_nodes_v2 (mesh_overlay_supernet (t2_mesh t)) supernet 0 [] (t2_nodes t)))"

section \<open>What the v1 validator accepts\<close>

definition topology_errors :: "topology \<Rightarrow> validation_error list" where
  "topology_errors t = filter (\<lambda>e. ve_severity e = ''error'') (ValidateTopology t)"

lemma severity_simps [simp]:
  "ve_severity (ve_error f m) = ''error''"
  "ve_severity (ve_warning f m) = ''warning''"
  by (simp_all add: ve_error_def ve_warning_def)

lemma isRangeWithinOverlay_iff:
  assumes "pfx_wf ov" and "pfx_wf c"
  shows "isRangeWithinOverlay ov c \<longleftrightarrow> (\<forall>ip. pfx_contains c ip \<longrightarrow> pfx_contains ov ip)"
proof
  assume w: "isRangeWithinOverlay ov c"
  have "pfx_contains ov (pfx_net c)" "pfx_contains ov (prefixLastAddr c)"
    using w by (simp_all add: isRangeWithinOverlay_def pfx_net_def)
  then show "\<forall>ip. pfx_contains c ip \<longrightarrow> pfx_contains ov ip"
    using pfx_net_kind [OF assms(2)]
    by (auto simp: pfx_contains_interval [OF assms(1)] pfx_contains_interval [OF assms(2)]
        prefixLastAddr_val(1,2) [OF assms(2)])
next
  assume "\<forall>ip. pfx_contains c ip \<longrightarrow> pfx_contains ov ip"
  then show "isRangeWithinOverlay ov c"
    using pfx_contains_net [OF assms(2)] pfx_contains_last [OF assms(2)]
    by (simp add: isRangeWithinOverlay_def flip: pfx_net_def)
qed

text \<open>What the loop requires of one declared range, given the masked overlay prefix.\<close>

definition range_accepted :: "prefix_t \<Rightarrow> named_range \<Rightarrow> range_t \<Rightarrow> bool" where
  "range_accepted ov nr r \<longleftrightarrow>
     ParseRange nr = Inr r \<and> isRangeWithinOverlay ov (rg_network r)
     \<and> (nr_balancer_ip nr \<noteq> [] \<longrightarrow> Range_Contains r (rg_balancer_ip r))"

lemma range_findings_error:
  "e \<in> set (fst (range_findings ov i names nrs)) \<Longrightarrow> ve_severity e = ''error''"
  by (induction ov i names nrs rule: range_findings.induct)
    (auto simp: Let_def split: prod.splits sum.splits option.splits if_splits)

lemma range_findings_Nil:
  "fst (range_findings (Some ov) i names nrs) = [] \<longleftrightarrow>
     distinct (map nr_name nrs) \<and> set names \<inter> nr_name ` set nrs = {}
     \<and> list_all2 (range_accepted ov) nrs (snd (range_findings (Some ov) i names nrs))"
proof (induction nrs arbitrary: i names)
  case Nil
  then show ?case by simp
next
  case (Cons nr nrs)
  obtain es rs where rec: "range_findings (Some ov) (Suc i) (List.insert (nr_name nr) names) nrs = (es, rs)"
    by fastforce
  with Cons [of "Suc i" "List.insert (nr_name nr) names"]
  have IH: "es = [] \<longleftrightarrow> distinct (map nr_name nrs)
      \<and> set (List.insert (nr_name nr) names) \<inter> nr_name ` set nrs = {}
      \<and> list_all2 (range_accepted ov) nrs rs" by simp
  show ?case
  proof (cases "ParseRange nr")
    case (Inl e)
    have "\<not> list_all2 (range_accepted ov) (nr # nrs) zs" for zs
      using Inl by (cases zs) (auto simp: range_accepted_def)
    with Inl rec show ?thesis by simp
  next
    case (Inr r)
    with rec IH show ?thesis by (auto simp: range_accepted_def [of ov nr r])
  qed
qed

lemma overlap_findings_error: "e \<in> set (overlap_findings rs) \<Longrightarrow> ve_severity e = ''error''"
  by (induction rs) auto

lemma overlap_findings_Nil:
  "overlap_findings rs = [] \<longleftrightarrow> sorted_wrt (\<lambda>a b. \<not> RangesOverlap a b) rs"
  by (induction rs) (auto simp: filter_empty_conv)

lemma unique_names_error: "e \<in> set (unique_names_from f i seen ns) \<Longrightarrow> ve_severity e = ''error''"
  by (induction f i seen ns rule: unique_names_from.induct) (auto split: if_splits)

lemma unique_names_Nil:
  "unique_names_from f i seen ns = [] \<longleftrightarrow> distinct ns \<and> set seen \<inter> set ns = {}"
  by (induction ns arbitrary: i seen) auto

lemma record_ips_error: "e \<in> set (record_ips owners fs) \<Longrightarrow> ve_severity e = ''error''"
  by (induction owners fs rule: record_ips.induct) (auto split: option.splits)

lemma record_ips_Nil:
  "record_ips owners fs = [] \<longleftrightarrow>
     (\<exists>as. map (parse_addr \<circ> snd) fs = map Some as \<and> distinct (map normalizeAddr as)
        \<and> (\<forall>a \<in> set as. gm_get owners (normalizeAddr a) = None))"
proof (induction fs arbitrary: owners)
  case Nil
  then show ?case by simp
next
  case (Cons fv fs)
  obtain f v where fv: "fv = (f, v)" by (cases fv)
  show ?case
  proof (cases "parse_addr v")
    case None
    with fv show ?thesis by (auto simp: Cons_eq_map_conv)
  next
    case (Some a)
    have hd: "(\<exists>as. map (parse_addr \<circ> snd) (fv # fs) = map Some as \<and> P as)
      \<longleftrightarrow> (\<exists>as. map (parse_addr \<circ> snd) fs = map Some as \<and> P (a # as))" for P
      using Some fv by (auto simp: Cons_eq_map_conv)
    have new: "(\<forall>x \<in> set as. gm_get (gm_put (normalizeAddr a) f owners) (normalizeAddr x) = None)
      \<longleftrightarrow> normalizeAddr a \<notin> normalizeAddr ` set as
        \<and> (\<forall>x \<in> set as. gm_get owners (normalizeAddr x) = None)" for as
      by (fastforce simp: gm_simps image_iff split: if_splits)
    have "record_ips owners (fv # fs) = [] \<longleftrightarrow> gm_get owners (normalizeAddr a) = None
        \<and> record_ips (gm_put (normalizeAddr a) f owners) fs = []"
      using Some fv by (auto split: option.splits)
    also have "\<dots> \<longleftrightarrow> (\<exists>as. map (parse_addr \<circ> snd) fs = map Some as
        \<and> distinct (map normalizeAddr (a # as))
        \<and> (\<forall>x \<in> set (a # as). gm_get owners (normalizeAddr x) = None))"
      unfolding Cons.IH new by auto
    finally show ?thesis unfolding hd .
  qed
qed

lemma long_master_names_warning:
  "e \<in> set (long_master_names ms) \<Longrightarrow> ve_severity e = ''warning''"
  by (auto simp: long_master_names_def split: if_splits)

lemma validateReferences_warning:
  "e \<in> set (validateReferences t) \<Longrightarrow> ve_severity e = ''warning''"
  by (auto simp: validateReferences_def missing_refs_def split: if_splits)

lemma enumerate_all: "(\<forall>(i, x) \<in> set (enumerate n xs). P x) \<longleftrightarrow> (\<forall>x \<in> set xs. P x)"
  by (induction xs arbitrary: n) auto

lemma concat_enumerate_Nil:
  assumes "\<And>i x. f (i, x) = [] \<longleftrightarrow> P x"
  shows "concat (map f (enumerate n xs)) = [] \<longleftrightarrow> (\<forall>x \<in> set xs. P x)"
  using assms by (induction xs arbitrary: n) auto

lemma dscp_Nil:
  "validateClientDSCPPolicies t = [] \<longleftrightarrow>
     (\<forall>c \<in> set (tp_clients t). \<forall>p \<in> set (cn_routing_policies c). 1 \<le> rp_dscp p \<and> rp_dscp p \<le> 63)"
  unfolding validateClientDSCPPolicies_def
proof (rule concat_enumerate_Nil, simp only: prod.case, rule concat_enumerate_Nil)
  fix p :: routing_policy and c i j
  show "(case (j, p) of (j, p) \<Rightarrow> if ValidateDSCP (rp_dscp p) then []
      else [ve_error (indexed ''clients'' i (indexed ''.routing_policies'' j ''.dscp''))
              (PolicyBadDSCP (cn_name c) (rp_name p) (rp_dscp p))]) = []
    \<longleftrightarrow> 1 \<le> rp_dscp p \<and> rp_dscp p \<le> 63"
    by (auto simp: ValidateDSCP_def)
qed

lemma dscp_error: "e \<in> set (validateClientDSCPPolicies t) \<Longrightarrow> ve_severity e = ''error''"
  by (auto simp: validateClientDSCPPolicies_def split: if_splits)

lemma storage_error: "e \<in> set (validateClientStorageRoots t) \<Longrightarrow> ve_severity e = ''error''"
  by (auto simp: validateClientStorageRoots_def split: if_splits option.splits sum.splits)

lemma storage_Nil:
  "validateClientStorageRoots t = [] \<longleftrightarrow>
     (\<forall>c \<in> set (tp_clients t). \<forall>m. cn_mikrotik c = Some m \<longrightarrow>
        mt_storage_root m = [] \<or> ValidateStorageRoot (mt_storage_root m) = Inr ())"
  unfolding validateClientStorageRoots_def
  by (rule concat_enumerate_Nil) (auto split: option.splits sum.splits if_splits)

definition overlay_ips :: "topology \<Rightarrow> string list" where
  "overlay_ips t = map mn_overlay_ip (tp_masters t) @ map en_overlay_ip (tp_endpoints t)
     @ map cn_overlay_ip (tp_clients t)"

lemma map_enumerate_snd: "map (\<lambda>(i, x). g x) (enumerate n xs) = map g xs"
  by (induction xs arbitrary: n) auto

lemma overlay_ip_fields_snd: "map snd (overlay_ip_fields t) = overlay_ips t"
proof -
  have c: "map snd (map (\<lambda>(i, x). (h i, g x)) (enumerate n xs)) = map g xs" for h :: "nat \<Rightarrow> string" and g n xs
    by (induction xs arbitrary: n) auto
  show ?thesis unfolding overlay_ip_fields_def overlay_ips_def map_append
    by (simp only: c)
qed

text \<open>
  The valid v1 topologies. Two ranges are compared by their addresses, not by their prefixes.
\<close>

definition valid_range :: "prefix_t \<Rightarrow> named_range \<Rightarrow> bool" where
  "valid_range ov nr \<longleftrightarrow> (\<exists>r. ParseRange nr = Inr r
     \<and> (\<forall>ip. Range_Contains r ip \<longrightarrow> pfx_contains ov ip)
     \<and> (nr_balancer_ip nr \<noteq> [] \<longrightarrow> Range_Contains r (rg_balancer_ip r)))"

definition disjoint_ranges :: "named_range \<Rightarrow> named_range \<Rightarrow> bool" where
  "disjoint_ranges x y \<longleftrightarrow> \<not> (\<exists>a b ip. ParseRange x = Inr a \<and> ParseRange y = Inr b
     \<and> Range_Contains a ip \<and> Range_Contains b ip)"

definition valid_topology :: "topology \<Rightarrow> bool" where
  "valid_topology t \<longleftrightarrow>
     (\<exists>ov. parse_prefix (ov_space (tp_overlay t)) = Some ov
        \<and> (\<forall>nr \<in> set (ov_ranges (tp_overlay t)). valid_range ov nr))
     \<and> distinct (map nr_name (ov_ranges (tp_overlay t)))
     \<and> sorted_wrt disjoint_ranges (ov_ranges (tp_overlay t))
     \<and> distinct (map mn_name (tp_masters t))
     \<and> distinct (map en_name (tp_endpoints t))
     \<and> distinct (map cn_name (tp_clients t))
     \<and> (\<exists>as. map parse_addr (overlay_ips t) = map Some as \<and> distinct (map normalizeAddr as))
     \<and> (\<forall>c \<in> set (tp_clients t). \<forall>p \<in> set (cn_routing_policies c). 1 \<le> rp_dscp p \<and> rp_dscp p \<le> 63)
     \<and> (\<forall>c \<in> set (tp_clients t). \<forall>m. cn_mikrotik c = Some m \<longrightarrow>
          mt_storage_root m = [] \<or> ValidateStorageRoot (mt_storage_root m) = Inr ())"

lemma range_accepted_valid:
  assumes "pfx_wf ov"
  shows "(\<exists>r. range_accepted (masked ov) nr r) \<longleftrightarrow> valid_range ov nr"
  using isRangeWithinOverlay_iff [OF masked_wf [OF assms] ParseRange_wf]
  by (auto simp: range_accepted_def valid_range_def Range_Contains_def pfx_contains_masked [OF assms])

lemma range_findings_parsed:
  "\<forall>nr \<in> set nrs. \<exists>r. ParseRange nr = Inr r \<Longrightarrow>
     list_all2 (\<lambda>nr r. ParseRange nr = Inr r) nrs (snd (range_findings ov i names nrs))"
  by (induction ov i names nrs rule: range_findings.induct)
    (auto simp: Let_def split: prod.splits sum.splits)

lemma list_all2_functional:
  assumes "list_all2 (\<lambda>x y. f x = Inr y) xs ys"
  shows "list_all2 P xs ys \<longleftrightarrow> (\<forall>x \<in> set xs. \<forall>y. f x = Inr y \<longrightarrow> P x y)"
  using assms by (induction xs ys rule: list_all2_induct) auto

lemma list_all2_ball_iff:
  assumes "list_all2 (\<lambda>x y. f x = Inr y) xs ys" and "\<And>x y. f x = Inr y \<Longrightarrow> P x \<longleftrightarrow> Q y"
  shows "(\<forall>y \<in> set ys. Q y) \<longleftrightarrow> (\<forall>x \<in> set xs. P x)"
  using assms by (induction xs ys rule: list_all2_induct) auto

lemma no_overlap_disjoint:
  assumes "list_all2 (\<lambda>nr r. ParseRange nr = Inr r) nrs rs"
  shows "sorted_wrt (\<lambda>a b. \<not> RangesOverlap a b) rs \<longleftrightarrow> sorted_wrt disjoint_ranges nrs"
  using assms
proof (induction nrs rs rule: list_all2_induct)
  case Nil
  then show ?case by simp
next
  case (Cons nr nrs r rs)
  have "disjoint_ranges nr ns \<longleftrightarrow> \<not> RangesOverlap r s" if "ParseRange ns = Inr s" for ns s
    using RangesOverlap_iff [OF ParseRange_wf [OF Cons(1)] ParseRange_wf [OF that]] Cons(1) that
    by (auto simp: disjoint_ranges_def)
  with Cons(2) have "(\<forall>s \<in> set rs. \<not> RangesOverlap r s) \<longleftrightarrow> (\<forall>ns \<in> set nrs. disjoint_ranges nr ns)"
    by (rule list_all2_ball_iff)
  with Cons(3) show ?case by simp
qed

lemma ranges_Nil:
  assumes "pfx_wf ov"
  shows "fst (range_findings (Some (masked ov)) 0 [] nrs) = []
      \<and> overlap_findings (snd (range_findings (Some (masked ov)) 0 [] nrs)) = []
    \<longleftrightarrow> distinct (map nr_name nrs) \<and> (\<forall>nr \<in> set nrs. valid_range ov nr)
      \<and> sorted_wrt disjoint_ranges nrs"
proof (cases "\<forall>nr \<in> set nrs. \<exists>r. ParseRange nr = Inr r")
  case True
  let ?rs = "snd (range_findings (Some (masked ov)) 0 [] nrs)"
  have parsed: "list_all2 (\<lambda>nr r. ParseRange nr = Inr r) nrs ?rs"
    by (rule range_findings_parsed [OF True])
  have "list_all2 (range_accepted (masked ov)) nrs ?rs
      \<longleftrightarrow> (\<forall>nr \<in> set nrs. \<exists>r. range_accepted (masked ov) nr r)"
    unfolding list_all2_functional [OF parsed]
    using True by (auto simp: range_accepted_def)
  then show ?thesis
    by (simp add: range_findings_Nil overlap_findings_Nil no_overlap_disjoint [OF parsed]
        range_accepted_valid [OF assms])
next
  case False
  then obtain nr where nr: "nr \<in> set nrs" "\<And>r. ParseRange nr \<noteq> Inr r" by blast
  have "\<not> list_all2 (range_accepted (masked ov)) nrs rs" for rs
  proof
    assume "list_all2 (range_accepted (masked ov)) nrs rs"
    with nr(1) obtain r where "range_accepted (masked ov) nr r"
      by (auto simp: list_all2_conv_all_nth in_set_conv_nth)
    with nr(2) show False by (simp add: range_accepted_def)
  qed
  moreover from nr have "\<not> valid_range ov nr" by (simp add: valid_range_def)
  ultimately show ?thesis using nr(1) by (auto simp: range_findings_Nil)
qed

lemma filter_error_id: "(\<And>e. e \<in> set es \<Longrightarrow> ve_severity e = ''error'') \<Longrightarrow>
    filter (\<lambda>e. ve_severity e = ''error'') es = es"
  by (simp add: filter_id_conv)

lemma filter_error_warnings: "(\<And>e. e \<in> set es \<Longrightarrow> ve_severity e = ''warning'') \<Longrightarrow>
    filter (\<lambda>e. ve_severity e = ''error'') es = []"
  by (auto simp: filter_empty_conv)

lemmas topology_filters =
  filter_error_id [OF range_findings_error] filter_error_id [OF overlap_findings_error]
  filter_error_id [OF unique_names_error] filter_error_id [OF record_ips_error]
  filter_error_id [OF dscp_error] filter_error_id [OF storage_error]
  filter_error_warnings [OF long_master_names_warning]
  filter_error_warnings [OF validateReferences_warning]

text \<open>
  C1. The v1 validator is sound and complete. It reports no finding of severity \<open>error\<close> exactly for
  the valid topologies: the overlay prefix and every range parse, every address of a range is an
  address of the overlay, the balancer address of a range is in the range, no two ranges share an
  address, range names and node names of each kind are unique, all overlay addresses parse and no two
  nodes have the same address after unmapping, every DSCP value is in 1 to 63 and every storage root
  is safe. Unknown references and long master names are warnings only.
\<close>

theorem ValidateTopology_exact: "topology_errors t = [] \<longleftrightarrow> valid_topology t"
proof -
  let ?nrs = "ov_ranges (tp_overlay t)"
  let ?ov = "parse_prefix (ov_space (tp_overlay t))"
  let ?f = "range_findings (map_option masked ?ov) 0 [] ?nrs"
  have ips: "record_ips [] (overlay_ip_fields t) = [] \<longleftrightarrow>
      (\<exists>as. map parse_addr (overlay_ips t) = map Some as \<and> distinct (map normalizeAddr as))"
    using overlay_ip_fields_snd [of t]
    by (simp add: record_ips_Nil flip: map_map) 
  have "topology_errors t = [] \<longleftrightarrow> ?ov \<noteq> None \<and> fst ?f = [] \<and> overlap_findings (snd ?f) = []
      \<and> distinct (map mn_name (tp_masters t)) \<and> distinct (map en_name (tp_endpoints t))
      \<and> distinct (map cn_name (tp_clients t)) \<and> record_ips [] (overlay_ip_fields t) = []
      \<and> validateClientDSCPPolicies t = [] \<and> validateClientStorageRoots t = []"
    by (auto simp: topology_errors_def ValidateTopology_def Let_def topology_filters
        validateUniqueNames_def unique_names_Nil validateUniqueOverlayIPs_def split_beta)
  also have "\<dots> \<longleftrightarrow> valid_topology t"
  proof (cases ?ov)
    case None
    then show ?thesis by (simp add: valid_topology_def)
  next
    case (Some ov)
    with ranges_Nil [OF parse_prefix_wf [OF Some], of ?nrs] ips show ?thesis
      by (auto simp: valid_topology_def dscp_Nil storage_Nil)
  qed
  finally show ?thesis .
qed

section \<open>What the v2 validator accepts\<close>

definition valid_endpoint :: "string \<Rightarrow> bool" where
  "valid_endpoint e \<longleftrightarrow> (\<exists>host portText port. split_host_port e = Some (host, portText)
     \<and> trim_space host \<noteq> [] \<and> atoi portText = Some port \<and> 1 \<le> port \<and> port \<le> 65535)"

lemma validateV2MeshEndpoint_ok: "validateV2MeshEndpoint e = Inr () \<longleftrightarrow> valid_endpoint e"
  by (auto simp: validateV2MeshEndpoint_def valid_endpoint_def split: option.splits)

definition valid_node_v2 :: "ipnet \<Rightarrow> node_v2 \<Rightarrow> bool" where
  "valid_node_v2 supernet n \<longleftrightarrow>
     n2_name n \<noteq> []
     \<and> n2_roles n \<noteq> [] \<and> set (n2_roles n) \<subseteq> set validRoles
     \<and> (RoleClient \<in> set (n2_roles n) \<longrightarrow> set (n2_roles n) = {RoleClient})
     \<and> 0 \<le> n2_mesh_listen_port n \<and> n2_mesh_listen_port n \<le> 65535
     \<and> (trim_space (n2_mesh_endpoint n) \<noteq> [] \<longrightarrow> valid_endpoint (trim_space (n2_mesh_endpoint n)))
     \<and> split_host_port (trim_space (n2_public_ip n)) = None
     \<and> (\<exists>ip. parse_ip (n2_overlay_ip n) = Some ip \<and> net_contains supernet ip)"

lemma parse_ip_Nil [simp]: "parse_ip [] = None"
  by (simp add: parse_ip_def parse_addr_def)

lemma check_node_v2_ok: "check_node_v2 txt supernet i n = Inr () \<longleftrightarrow> valid_node_v2 supernet n"
  unfolding check_node_v2_def valid_node_v2_def
  by (cases "split_host_port (trim_space (n2_public_ip n))")
    (auto simp: res_simps ValidateComposability_ok_iff validateV2MeshEndpoint_ok
      split: option.splits if_splits)

lemma validate_nodes_v2_ok:
  "validate_nodes_v2 txt supernet i seen ns = Inr () \<longleftrightarrow>
     (\<forall>n \<in> set ns. valid_node_v2 supernet n) \<and> distinct (map n2_overlay_ip ns)
     \<and> (\<forall>n \<in> set ns. gm_get seen (n2_overlay_ip n) = None)"
proof (induction ns arbitrary: i seen)
  case Nil
  then show ?case by simp
next
  case (Cons n ns)
  have new: "(\<forall>m \<in> set ns. gm_get (gm_put (n2_overlay_ip n) x seen) (n2_overlay_ip m) = None)
      \<longleftrightarrow> n2_overlay_ip n \<notin> n2_overlay_ip ` set ns \<and> (\<forall>m \<in> set ns. gm_get seen (n2_overlay_ip m) = None)" for x
    by (fastforce simp: gm_simps image_iff split: if_splits)
  show ?case
    by (auto simp: res_simps check_node_v2_ok Cons.IH new split: option.splits)
qed

definition valid_topology_v2 :: "topology_v2 \<Rightarrow> bool" where
  "valid_topology_v2 t \<longleftrightarrow>
     t2_schema_version t = SchemaV2
     \<and> (\<exists>ip supernet. parse_cidr (mesh_overlay_supernet (t2_mesh t)) = Some (ip, supernet)
          \<and> (\<forall>n \<in> set (t2_nodes t). valid_node_v2 supernet n))
     \<and> t2_nodes t \<noteq> [] \<and> distinct (map n2_overlay_ip (t2_nodes t))"

lemma ValidateV2_ok_iff: "ValidateV2 (Some t) = Inr () \<longleftrightarrow> valid_topology_v2 t"
proof -
  have "parse_cidr [] = None" by (simp add: parse_cidr_def cut_def)
  then show ?thesis
    by (auto simp: ValidateV2_def valid_topology_v2_def validate_nodes_v2_ok split: option.splits)
qed


text \<open>
  The check of duplicate overlay addresses compares texts. Two nodes that write the same address
  differently are both accepted.
\<close>

definition node_at :: "string \<Rightarrow> string \<Rightarrow> node_v2" where
  "node_at name ip = \<lparr>n2_name = name, n2_roles = [RoleMaster], n2_overlay_ip = ip, n2_bridge_ip = [],
     n2_public_ip = [], n2_mesh_listen_port = 51820, n2_mesh_endpoint = [], n2_region = [],
     n2_platform = [], n2_preferred_master = [], n2_internet_iface = [], n2_client_protocol = [],
     n2_mesh_protocol = []\<rparr>"

definition two_spellings :: topology_v2 where
  "two_spellings = \<lparr>t2_schema_version = 2,
     t2_mesh = \<lparr>mesh_name = ''m'', mesh_overlay_supernet = ''172.21.92.0/24'', mesh_tenants = []\<rparr>,
     t2_nodes = [node_at ''a'' ''172.21.92.2'', node_at ''b'' ''::ffff:172.21.92.2''],
     t2_services = [],
     t2_rotation = \<lparr>rd_tier1_interval = [], rd_tier2_interval = [], rd_tier3_interval = [], rd_preset = []\<rparr>,
     t2_capture = \<lparr>cap_domains_file = [], cap_schedule = [], cap_retention_days = 0\<rparr>,
     t2_observability = \<lparr>ob_audit_retention_days = 0, ob_cert_rotation_days = 0,
       ob_prometheus_listen = [], ob_log_level = []\<rparr>\<rparr>"

lemma ValidateV2_two_spellings:
  "ValidateV2 (Some two_spellings) = Inr ()
   \<and> parse_ip ''172.21.92.2'' = parse_ip ''::ffff:172.21.92.2''"
  by code_simp

end
