(* ===== verification/AllowedIPs.thy ===== *)
theory AllowedIPs
  imports Topology_Validate
begin

text \<open>
  \<open>pkg/topology/allowedips.go\<close>: the AllowedIPs lists that masters and endpoints install for each
  other.
\<close>

datatype allowed_error =
    OverlayIPRequired
  | TransportRequired
  | BadMasterOverlayIP string
  | BadTransport string
  | BadRangeCIDR string string
  | BadEndpointOverlayIP string
  | BadEndpointsRange string
  | BadPeerOverlayIP string string

text \<open>\<open>dedup\<close>: the loop, with the strings seen so far.\<close>

fun dedup_loop :: "string list \<Rightarrow> string list \<Rightarrow> string list" where
  "dedup_loop seen [] = []"
| "dedup_loop seen (s # ss) =
     (if s \<in> set seen then dedup_loop seen ss else s # dedup_loop (s # seen) ss)"

definition dedup :: "string list \<Rightarrow> string list" where
  "dedup ss = dedup_loop [] ss"

text \<open>The loop over the overlay ranges: empty texts are skipped, the others must parse.\<close>

fun range_cidrs :: "named_range list \<Rightarrow> allowed_error + string list" where
  "range_cidrs [] = Inr []"
| "range_cidrs (r # rs) =
     (if nr_cidr r = [] then range_cidrs rs
      else if parse_cidr (nr_cidr r) = None then Inl (BadRangeCIDR (nr_cidr r) (nr_name r))
      else rbind (range_cidrs rs) (\<lambda>cs. Inr (nr_cidr r # cs)))"

definition BuildAllowedIPsForEndpoint ::
  "topology \<Rightarrow> string \<Rightarrow> string \<Rightarrow> allowed_error + string list" where
  "BuildAllowedIPsForEndpoint topo masterOverlayIP transportSubnet =
     (if masterOverlayIP = [] then Inl OverlayIPRequired
      else if transportSubnet = [] then Inl TransportRequired
      else if parse_ip masterOverlayIP = None then Inl (BadMasterOverlayIP masterOverlayIP)
      else if parse_cidr transportSubnet = None then Inl (BadTransport transportSubnet)
      else rbind (range_cidrs (ov_ranges (tp_overlay topo))) (\<lambda>cs.
        Inr (dedup ([transportSubnet, masterOverlayIP @ ''/32''] @ cs))))"

definition BuildMinimalAllowedIPsForEndpointPeer :: "string \<Rightarrow> string \<Rightarrow> allowed_error + string list"
where
  "BuildMinimalAllowedIPsForEndpointPeer masterOverlayIP transportSubnet =
     (if masterOverlayIP = [] then Inl OverlayIPRequired
      else if transportSubnet = [] then Inl TransportRequired
      else if parse_ip masterOverlayIP = None then Inl (BadMasterOverlayIP masterOverlayIP)
      else if parse_cidr transportSubnet = None then Inl (BadTransport transportSubnet)
      else Inr [transportSubnet, masterOverlayIP @ ''/32''])"

text \<open>
  The normalisation of an overlay address, written twice in the code: the host part of a text in CIDR
  form, then \<open>/32\<close>, then parsed as a network.
\<close>

definition host_net :: "string \<Rightarrow> ipnet option" where
  "host_net overlayCIDR =
     (case (if CHR ''/'' \<in> set overlayCIDR
            then map_option (\<lambda>(hostIP, _). ip_str hostIP @ ''/32'') (parse_cidr overlayCIDR)
            else Some (overlayCIDR @ ''/32'')) of
        None \<Rightarrow> None
      | Some c \<Rightarrow> map_option snd (parse_cidr c))"

text \<open>The first range named \<open>endpoints\<close> with a CIDR that is not blank.\<close>

definition endpoints_range :: "named_range list \<Rightarrow> named_range option" where
  "endpoints_range rs =
     find (\<lambda>r. equal_fold (trim_space (nr_name r)) ''endpoints'' \<and> trim_space (nr_cidr r) \<noteq> []) rs"

text \<open>The loop over the other endpoints.\<close>

fun peer_overlays :: "string \<Rightarrow> string \<Rightarrow> endpoint_node list \<Rightarrow> allowed_error + string list" where
  "peer_overlays selfName selfOverlay [] = Inr []"
| "peer_overlays selfName selfOverlay (e # es) =
     (if (selfName \<noteq> [] \<and> en_name e = selfName) \<or> trim_space (en_overlay_ip e) = []
      then peer_overlays selfName selfOverlay es
      else (case host_net (trim_space (en_overlay_ip e)) of
          None \<Rightarrow> Inl (BadPeerOverlayIP (en_overlay_ip e) (en_name e))
        | Some peerOverlay \<Rightarrow>
            if net_str peerOverlay = selfOverlay then peer_overlays selfName selfOverlay es
            else rbind (peer_overlays selfName selfOverlay es) (\<lambda>out.
                   Inr (net_str peerOverlay # out))))"

definition BuildAllowedIPsForMasterPeer ::
  "topology option \<Rightarrow> string \<Rightarrow> string \<Rightarrow> string \<Rightarrow> allowed_error + string list" where
  "BuildAllowedIPsForMasterPeer topo endpointName endpointOverlayIP transportSubnet =
     (if endpointOverlayIP = [] then Inl OverlayIPRequired
      else if transportSubnet = [] then Inl TransportRequired
      else (case parse_cidr (trim_space transportSubnet) of
          None \<Rightarrow> Inl (BadTransport transportSubnet)
        | Some (_, transport) \<Rightarrow>
      (case host_net (trim_space endpointOverlayIP) of
          None \<Rightarrow> Inl (BadEndpointOverlayIP endpointOverlayIP)
        | Some overlay \<Rightarrow>
      (case topo of
          None \<Rightarrow> Inr [net_str transport, net_str overlay]
        | Some t \<Rightarrow>
      (case endpoints_range (ov_ranges (tp_overlay t)) of
          Some r \<Rightarrow>
            if parse_cidr (nr_cidr r) = None then Inl (BadEndpointsRange (nr_cidr r))
            else Inr (dedup ([net_str transport, net_str overlay] @ [nr_cidr r]))
        | None \<Rightarrow>
            rbind (peer_overlays (trim_space endpointName) (net_str overlay) (tp_endpoints t)) (\<lambda>out.
              Inr (dedup ([net_str transport, net_str overlay] @ out))))))))"

section \<open>Duplicates\<close>

lemma set_dedup_loop: "set (dedup_loop seen ss) = set ss - set seen"
  by (induction seen ss rule: dedup_loop.induct) auto

lemma set_dedup [simp]: "set (dedup ss) = set ss"
  by (simp add: dedup_def set_dedup_loop)

lemma distinct_dedup [simp]: "distinct (dedup ss)"
proof -
  have "distinct (dedup_loop seen ss)" for seen
    by (induction seen ss rule: dedup_loop.induct) (auto simp: set_dedup_loop)
  then show ?thesis by (simp add: dedup_def)
qed

section \<open>Host networks\<close>

text \<open>The overlay text of an IPv4 node: the address, or the address in CIDR form.\<close>

definition overlay_v4 :: "string \<Rightarrow> 32 word \<Rightarrow> bool" where
  "overlay_v4 s w \<longleftrightarrow>
     (if CHR ''/'' \<in> set s then \<exists>net. parse_cidr s = Some (v4_in_6 w, net)
      else parse_addr s = Some (V4 w))"

lemma host_net_v4: "overlay_v4 s w \<Longrightarrow> host_net s = Some (IPNet4 w 32)"
proof (cases "CHR ''/'' \<in> set s")
  case True
  have "nat_str 32 = ''32''" by code_simp
  moreover assume "overlay_v4 s w"
  ultimately show ?thesis
    using True parse_cidr_v4_str [of 32 w] by (auto simp: overlay_v4_def host_net_def)
next
  case False
  have "parse_dec ''32'' = Some 32" by code_simp
  moreover assume "overlay_v4 s w"
  ultimately show ?thesis
    using False by (simp add: overlay_v4_def host_net_def parse_cidr_def cut_append)
qed

lemma net_str_host: "net_str (IPNet4 w 32) = v4_str w @ ''/32''"
proof -
  have "nat_str 32 = ''32''" by code_simp
  then show ?thesis by (simp add: net_str_def norm_net_def)
qed

lemma overlay_v4_unique: "overlay_v4 s v \<Longrightarrow> overlay_v4 s w \<Longrightarrow> v = w"
  using host_net_v4 [of s v] host_net_v4 [of s w] by simp

text \<open>The overlay addresses of the endpoints other than the one named.\<close>

definition other_overlays :: "string \<Rightarrow> endpoint_node list \<Rightarrow> 32 word set" where
  "other_overlays selfName es =
     {w. \<exists>e \<in> set es. \<not> (selfName \<noteq> [] \<and> en_name e = selfName) \<and> overlay_v4 (trim_space (en_overlay_ip e)) w}"

lemma overlay_v4_Nil [simp]: "\<not> overlay_v4 [] w"
  by (simp add: overlay_v4_def parse_addr_def)

lemma peer_overlays_v4:
  assumes "\<And>e. e \<in> set es \<Longrightarrow> trim_space (en_overlay_ip e) = [] \<or> (\<exists>w. overlay_v4 (trim_space (en_overlay_ip e)) w)"
  shows "\<exists>out. peer_overlays self (v4_str w @ ''/32'') es = Inr out
    \<and> insert (v4_str w @ ''/32'') (set out)
      = insert (v4_str w @ ''/32'') ((\<lambda>v. v4_str v @ ''/32'') ` other_overlays self es)"
  using assms
proof (induction es)
  case Nil
  then show ?case by (simp add: other_overlays_def)
next
  case (Cons e es)
  then obtain out where out: "peer_overlays self (v4_str w @ ''/32'') es = Inr out"
    and set_out: "insert (v4_str w @ ''/32'') (set out)
      = insert (v4_str w @ ''/32'') ((\<lambda>v. v4_str v @ ''/32'') ` other_overlays self es)" by auto
  let ?skip = "(self \<noteq> [] \<and> en_name e = self) \<or> trim_space (en_overlay_ip e) = []"
  show ?case
  proof (cases ?skip)
    case True
    then have "other_overlays self (e # es) = other_overlays self es"
      by (auto simp: other_overlays_def)
    with True out set_out show ?thesis by auto
  next
    case False
    with Cons.prems [of e] obtain v where v: "overlay_v4 (trim_space (en_overlay_ip e)) v" by auto
    with False have "other_overlays self (e # es) = insert v (other_overlays self es)"
      by (auto simp: other_overlays_def dest: overlay_v4_unique)
    with False v out set_out show ?thesis
      by (auto simp: host_net_v4 net_str_host)
  qed
qed

section \<open>Properties\<close>


definition sample_endpoint :: "string \<Rightarrow> string \<Rightarrow> endpoint_node" where
  "sample_endpoint name ip = \<lparr>en_name = name, en_host = [], en_peer_host = [], en_overlay_ip = ip,
     en_listen_port = 0, en_grpc_port = 0, en_region = []\<rparr>"

definition sample_topology :: topology where
  "sample_topology = \<lparr>tp_defaults = \<lparr>img_node = [], img_client = []\<rparr>,
     tp_overlay = \<lparr>ov_space = ''172.20.70.0/24'', ov_physical_mtu = 0, ov_awg_overhead = 0, ov_ranges = []\<rparr>,
     tp_masters = [],
     tp_endpoints = [sample_endpoint ''e1'' ''172.20.70.34/27'', sample_endpoint ''e2'' ''172.20.70.35''],
     tp_clients = [],
     tp_capture = \<lparr>cap_domains_file = [], cap_schedule = [], cap_retention_days = 0\<rparr>,
     tp_rotation = \<lparr>rd_tier1_interval = [], rd_tier2_interval = [], rd_tier3_interval = [], rd_preset = []\<rparr>\<rparr>"

lemma sample_overlays:
  "overlay_v4 (trim_space ''172.20.70.34/27'') 0xAC144622"
  "overlay_v4 (trim_space ''172.20.70.35'') 0xAC144623"
proof -
  have "trim_space ''172.20.70.34/27'' = ''172.20.70.34/27''" "trim_space ''172.20.70.35'' = ''172.20.70.35''"
    by code_simp+
  moreover have "map_option fst (parse_cidr ''172.20.70.34/27'') = Some (v4_in_6 0xAC144622)"
    and "parse_addr ''172.20.70.35'' = Some (V4 0xAC144623)" by code_simp+
  ultimately show "overlay_v4 (trim_space ''172.20.70.34/27'') 0xAC144622"
    "overlay_v4 (trim_space ''172.20.70.35'') 0xAC144623"
    by (auto simp: overlay_v4_def)
qed


end
