(* ===== verification/Migrate.thy ===== *)
theory Migrate
  imports Topology_Validate
begin

text \<open>
  \<open>pkg/topology/migrate.go\<close> and \<open>migrate_v1_to_v2.go\<close>: the detection of the schema version and the
  conversion of a v1 topology. The YAML library is a parameter: \<open>unmarshal_raw\<close> decodes a document into
  a generic map (\<open>None\<close> for the nil map of an empty document), \<open>unmarshal_v1\<close> into the v1 struct.
  Warnings are values whose arguments are what the code formats.
\<close>

section \<open>Schema detection\<close>

text \<open>The dynamic type of a YAML value, as far as the code inspects it.\<close>

datatype yaml_val = YInt int | YInt64 int | YMap "(string \<times> yaml_val) list" | YOther

datatype migrate_error =
    EmptyInput
  | ParseYAML
  | EmptyDocument
  | UnsupportedSchema int
  | SchemaNotInteger
  | UnknownSchema
  | AlreadyV2
  | ExpectedV1 int
  | UnmarshalV1
  | LegacyMissingName
  | LegacyDuplicateName string
  | MigratedInvalid v2_error

type_synonym raw_decoder = "string \<Rightarrow> (string, yaml_val) gomap option option"
type_synonym v1_decoder = "string \<Rightarrow> topology option"

definition DetectSchemaVersion :: "raw_decoder \<Rightarrow> string \<Rightarrow> migrate_error + int" where
  "DetectSchemaVersion unmarshal_raw inp =
     (if inp = [] then Inl EmptyInput
      else (case unmarshal_raw inp of
          None \<Rightarrow> Inl ParseYAML
        | Some None \<Rightarrow> Inl EmptyDocument
        | Some (Some raw) \<Rightarrow>
            (case gm_get raw ''schema_version'' of
               Some (YInt x) \<Rightarrow> if x = 2 then Inr SchemaV2 else Inl (UnsupportedSchema x)
             | Some (YInt64 x) \<Rightarrow> if x = 2 then Inr SchemaV2 else Inl (UnsupportedSchema x)
             | Some _ \<Rightarrow> Inl SchemaNotInteger
             | None \<Rightarrow>
                 if gm_get raw ''masters'' \<noteq> None then Inr SchemaV1
                 else if gm_get raw ''endpoints'' \<noteq> None then Inr SchemaV1
                 else (case gm_get raw ''transport'' of
                     Some (YMap m) \<Rightarrow>
                       if gm_get m ''pool'' \<noteq> None then Inr SchemaV1
                       else if gm_get m ''prefix_length'' \<noteq> None then Inr SchemaV1
                       else Inl UnknownSchema
                   | _ \<Rightarrow> Inl UnknownSchema))))"

section \<open>Conversion\<close>

datatype migrate_warning =
    DroppedTopologyFields "string list"
  | DroppedMasterFields string "string list"
  | MasterMappedExit string
  | MasterMapped string
  | DroppedEndpointFields string "string list"
  | EndpointMapped string
  | DroppedClientFields string "string list"
  | ClientMapped string

definition migratedOverlaySupernet :: "overlay_config \<Rightarrow> string" where
  "migratedOverlaySupernet ov =
     (if trim_space (ov_space ov) \<noteq> [] then trim_space (ov_space ov)
      else case ov_ranges ov of [] \<Rightarrow> [] | r # _ \<Rightarrow> trim_space (nr_cidr r))"

definition legacyTopologyDroppedFields :: "topology \<Rightarrow> string list" where
  "legacyTopologyDroppedFields legacy =
     (if trim_space (img_node (tp_defaults legacy)) \<noteq> [] then [''defaults.image.node''] else [])
     @ (if trim_space (img_client (tp_defaults legacy)) \<noteq> [] then [''defaults.image.client''] else [])
     @ (if ov_physical_mtu (tp_overlay legacy) \<noteq> 0 then [''overlay.physical_mtu''] else [])
     @ (if ov_awg_overhead (tp_overlay legacy) \<noteq> 0 then [''overlay.awg_overhead''] else [])
     @ (if ov_ranges (tp_overlay legacy) \<noteq> [] then [''overlay.ranges''] else [])"

definition legacyMasterDroppedFields :: "master_node \<Rightarrow> string list" where
  "legacyMasterDroppedFields m =
     (if trim_space (mn_host m) \<noteq> [] then [''host''] else [])
     @ (if trim_space (mn_peer_host m) \<noteq> [] then [''peer_host''] else [])
     @ (if mn_listen_port m \<noteq> 0 then [''listen_port''] else [])
     @ (if mn_grpc_port m \<noteq> 0 then [''grpc_port''] else [])
     @ (if mn_endpoints m \<noteq> [] then [''endpoints''] else [])"

definition legacyEndpointDroppedFields :: "endpoint_node \<Rightarrow> string list" where
  "legacyEndpointDroppedFields e =
     (if trim_space (en_host e) \<noteq> [] then [''host''] else [])
     @ (if trim_space (en_peer_host e) \<noteq> [] then [''peer_host''] else [])
     @ (if en_listen_port e \<noteq> 0 then [''listen_port''] else [])
     @ (if en_grpc_port e \<noteq> 0 then [''grpc_port''] else [])"

definition legacyClientDroppedFields :: "client_node \<Rightarrow> string list" where
  "legacyClientDroppedFields c =
     (if trim_space (cn_host c) \<noteq> [] then [''host''] else [])
     @ (if cn_grpc_port c \<noteq> 0 then [''grpc_port''] else [])
     @ (if cn_veth c \<noteq> None then [''veth''] else [])
     @ (if cn_mikrotik c \<noteq> None then [''mikrotik''] else [])
     @ (if length (cn_masters c) > 1 then [''masters[1:]''] else [])
     @ (if cn_routing_policies c \<noteq> [] then [''routing_policies''] else [])
     @ (if cn_dns c \<noteq> None then [''dns''] else [])"

definition empty_node_v2 :: node_v2 where
  "empty_node_v2 = \<lparr>n2_name = [], n2_roles = [], n2_overlay_ip = [], n2_bridge_ip = [],
     n2_public_ip = [], n2_mesh_listen_port = 0, n2_mesh_endpoint = [], n2_region = [],
     n2_platform = [], n2_preferred_master = [], n2_internet_iface = [], n2_client_protocol = [],
     n2_mesh_protocol = []\<rparr>"

text \<open>The node each kind of legacy node becomes.\<close>

definition master_to_v2 :: "master_node \<Rightarrow> node_v2" where
  "master_to_v2 m = empty_node_v2\<lparr>n2_name := trim_space (mn_name m),
     n2_roles := [RoleMaster, RoleBalancer] @ (if mn_exit m then [RoleEgress] else []),
     n2_overlay_ip := trim_space (mn_overlay_ip m),
     n2_mesh_protocol := ''amneziawg'', n2_client_protocol := ''vanilla-wg''\<rparr>"

definition endpoint_to_v2 :: "endpoint_node \<Rightarrow> node_v2" where
  "endpoint_to_v2 e = empty_node_v2\<lparr>n2_name := trim_space (en_name e), n2_roles := [RoleEgress],
     n2_overlay_ip := trim_space (en_overlay_ip e), n2_region := trim_space (en_region e),
     n2_mesh_protocol := ''amneziawg''\<rparr>"

definition client_to_v2 :: "client_node \<Rightarrow> node_v2" where
  "client_to_v2 c = empty_node_v2\<lparr>n2_name := trim_space (cn_name c), n2_roles := [RoleClient],
     n2_overlay_ip := trim_space (cn_overlay_ip c), n2_platform := trim_space (cn_type c),
     n2_preferred_master := (case cn_masters c of [] \<Rightarrow> [] | m # _ \<Rightarrow> trim_space m),
     n2_client_protocol := ''vanilla-wg''\<rparr>"

definition master_warnings :: "master_node \<Rightarrow> migrate_warning list" where
  "master_warnings m =
     (if legacyMasterDroppedFields m \<noteq> [] then [DroppedMasterFields (mn_name m) (legacyMasterDroppedFields m)] else [])
     @ [if mn_exit m then MasterMappedExit (mn_name m) else MasterMapped (mn_name m)]"

definition endpoint_warnings :: "endpoint_node \<Rightarrow> migrate_warning list" where
  "endpoint_warnings e =
     (if legacyEndpointDroppedFields e \<noteq> [] then [DroppedEndpointFields (en_name e) (legacyEndpointDroppedFields e)] else [])
     @ [EndpointMapped (en_name e)]"

definition client_warnings :: "client_node \<Rightarrow> migrate_warning list" where
  "client_warnings c =
     (if legacyClientDroppedFields c \<noteq> [] then [DroppedClientFields (cn_name c) (legacyClientDroppedFields c)] else [])
     @ [ClientMapped (cn_name c)]"

text \<open>The state of the conversion: the nodes so far, the names seen, the warnings so far.\<close>

record migration =
  mg_nodes :: "node_v2 list"
  mg_seen :: "string list"
  mg_warnings :: "migrate_warning list"

definition appendMigratedNode :: "migration \<Rightarrow> node_v2 \<Rightarrow> migrate_error + migration" where
  "appendMigratedNode g n =
     (if n2_name n = [] then Inl LegacyMissingName
      else if n2_name n \<in> set (mg_seen g) then Inl (LegacyDuplicateName (n2_name n))
      else Inr (g\<lparr>mg_seen := n2_name n # mg_seen g, mg_nodes := mg_nodes g @ [n]\<rparr>))"

text \<open>One of the three loops: the warnings of the node, then the node.\<close>

fun migrate_loop ::
  "('a \<Rightarrow> migrate_warning list) \<Rightarrow> ('a \<Rightarrow> node_v2) \<Rightarrow> migration \<Rightarrow> 'a list \<Rightarrow> migrate_error + migration"
where
  "migrate_loop warns conv g [] = Inr g"
| "migrate_loop warns conv g (x # xs) =
     rbind (appendMigratedNode (g\<lparr>mg_warnings := mg_warnings g @ warns x\<rparr>) (conv x)) (\<lambda>g'.
       migrate_loop warns conv g' xs)"

definition MigrateV1ToV2WithReport ::
  "raw_decoder \<Rightarrow> v1_decoder \<Rightarrow> string \<Rightarrow> migrate_error + topology_v2 \<times> migrate_warning list" where
  "MigrateV1ToV2WithReport unmarshal_raw unmarshal_v1 inp =
     rbind (DetectSchemaVersion unmarshal_raw inp) (\<lambda>version.
     if version = SchemaV2 then Inl AlreadyV2
     else if version \<noteq> SchemaV1 then Inl (ExpectedV1 version)
     else (case unmarshal_v1 inp of
         None \<Rightarrow> Inl UnmarshalV1
       | Some legacy \<Rightarrow>
           rbind (migrate_loop master_warnings master_to_v2
                    \<lparr>mg_nodes = [], mg_seen = [],
                     mg_warnings = (if legacyTopologyDroppedFields legacy \<noteq> []
                       then [DroppedTopologyFields (legacyTopologyDroppedFields legacy)] else [])\<rparr>
                    (tp_masters legacy)) (\<lambda>g.
           rbind (migrate_loop endpoint_warnings endpoint_to_v2 g (tp_endpoints legacy)) (\<lambda>g.
           rbind (migrate_loop client_warnings client_to_v2 g (tp_clients legacy)) (\<lambda>g.
           let t = \<lparr>t2_schema_version = SchemaV2,
                    t2_mesh = \<lparr>mesh_name = ''migrated-mesh'',
                               mesh_overlay_supernet = migratedOverlaySupernet (tp_overlay legacy),
                               mesh_tenants = []\<rparr>,
                    t2_nodes = mg_nodes g, t2_services = [],
                    t2_rotation = tp_rotation legacy, t2_capture = tp_capture legacy,
                    t2_observability = \<lparr>ob_audit_retention_days = 0, ob_cert_rotation_days = 0,
                      ob_prometheus_listen = [], ob_log_level = []\<rparr>\<rparr>
           in rbind (map_err MigratedInvalid (ValidateV2 (Some t))) (\<lambda>_. Inr (t, mg_warnings g)))))))"

definition MigrateV1ToV2 :: "raw_decoder \<Rightarrow> v1_decoder \<Rightarrow> string \<Rightarrow> migrate_error + topology_v2" where
  "MigrateV1ToV2 unmarshal_raw unmarshal_v1 inp =
     rbind (MigrateV1ToV2WithReport unmarshal_raw unmarshal_v1 inp) (\<lambda>r. Inr (fst r))"

section \<open>Properties\<close>

lemma migrate_loop_ok:
  "migrate_loop warns conv g xs = Inr g' \<longleftrightarrow>
     [] \<notin> n2_name ` conv ` set xs \<and> distinct (map (n2_name \<circ> conv) xs)
     \<and> set (mg_seen g) \<inter> n2_name ` conv ` set xs = {}
     \<and> g' = g\<lparr>mg_nodes := mg_nodes g @ map conv xs,
              mg_seen := rev (map (n2_name \<circ> conv) xs) @ mg_seen g,
              mg_warnings := mg_warnings g @ concat (map warns xs)\<rparr>"
  by (induction xs arbitrary: g) (auto simp: res_simps appendMigratedNode_def)

text \<open>The nodes of a migrated topology: masters, endpoints, clients, in the order of the file.\<close>

definition migrated_nodes :: "topology \<Rightarrow> node_v2 list" where
  "migrated_nodes legacy = map master_to_v2 (tp_masters legacy) @ map endpoint_to_v2 (tp_endpoints legacy)
     @ map client_to_v2 (tp_clients legacy)"

definition migrated :: "topology \<Rightarrow> topology_v2" where
  "migrated legacy = \<lparr>t2_schema_version = SchemaV2,
     t2_mesh = \<lparr>mesh_name = ''migrated-mesh'',
                mesh_overlay_supernet = migratedOverlaySupernet (tp_overlay legacy), mesh_tenants = []\<rparr>,
     t2_nodes = migrated_nodes legacy, t2_services = [],
     t2_rotation = tp_rotation legacy, t2_capture = tp_capture legacy,
     t2_observability = \<lparr>ob_audit_retention_days = 0, ob_cert_rotation_days = 0,
       ob_prometheus_listen = [], ob_log_level = []\<rparr>\<rparr>"

definition migration_warnings :: "topology \<Rightarrow> migrate_warning list" where
  "migration_warnings legacy =
     (if legacyTopologyDroppedFields legacy \<noteq> []
      then [DroppedTopologyFields (legacyTopologyDroppedFields legacy)] else [])
     @ concat (map master_warnings (tp_masters legacy))
     @ concat (map endpoint_warnings (tp_endpoints legacy))
     @ concat (map client_warnings (tp_clients legacy))"

lemma migrate_loops:
  "rbind (migrate_loop master_warnings master_to_v2 \<lparr>mg_nodes = [], mg_seen = [], mg_warnings = ws\<rparr>
            (tp_masters legacy)) (\<lambda>g.
   rbind (migrate_loop endpoint_warnings endpoint_to_v2 g (tp_endpoints legacy)) (\<lambda>g.
   migrate_loop client_warnings client_to_v2 g (tp_clients legacy))) = Inr g
   \<longleftrightarrow> [] \<notin> n2_name ` set (migrated_nodes legacy) \<and> distinct (map n2_name (migrated_nodes legacy))
     \<and> g = \<lparr>mg_nodes = migrated_nodes legacy, mg_seen = rev (map n2_name (migrated_nodes legacy)),
            mg_warnings = ws @ concat (map master_warnings (tp_masters legacy))
              @ concat (map endpoint_warnings (tp_endpoints legacy))
              @ concat (map client_warnings (tp_clients legacy))\<rparr>"
  unfolding migrated_nodes_def
  by (auto simp: res_simps migrate_loop_ok image_Un image_image comp_def rev_map)

lemma rbind_assoc: "rbind (rbind m f) g = rbind m (\<lambda>x. rbind (f x) g)"
  by (cases m) auto

text \<open>
  C24. The migration succeeds exactly when the document is recognised as v1 and decodes, no two legacy
  nodes of any kind have the same trimmed name, and the converted topology is a valid v2 topology. Its
  result is then the converted topology: one node for each master, endpoint and client, in that order,
  with the roles of its kind, and one mapping warning for each node in the report.
\<close>

theorem MigrateV1ToV2_exact:
  "MigrateV1ToV2WithReport unmarshal_raw unmarshal_v1 inp = Inr (t, ws) \<longleftrightarrow>
     (\<exists>legacy. DetectSchemaVersion unmarshal_raw inp = Inr SchemaV1 \<and> unmarshal_v1 inp = Some legacy
        \<and> distinct (map n2_name (migrated_nodes legacy)) \<and> valid_topology_v2 (migrated legacy)
        \<and> t = migrated legacy \<and> ws = migration_warnings legacy)"
proof (cases "DetectSchemaVersion unmarshal_raw inp = Inr SchemaV1")
  case False
  then show ?thesis by (auto simp: MigrateV1ToV2WithReport_def res_simps)
next
  case v1: True
  show ?thesis
  proof (cases "unmarshal_v1 inp")
    case None
    with v1 show ?thesis by (simp add: MigrateV1ToV2WithReport_def SchemaV1_def SchemaV2_def)
  next
    case (Some legacy)
    let ?ws = "if legacyTopologyDroppedFields legacy \<noteq> []
      then [DroppedTopologyFields (legacyTopologyDroppedFields legacy)] else []"
    have names: "[] \<notin> n2_name ` set (migrated_nodes legacy)" if "valid_topology_v2 (migrated legacy)"
      using that by (auto simp: valid_topology_v2_def valid_node_v2_def migrated_def)
    have "MigrateV1ToV2WithReport unmarshal_raw unmarshal_v1 inp = Inr (t, ws) \<longleftrightarrow>
      (\<exists>g. rbind (migrate_loop master_warnings master_to_v2 \<lparr>mg_nodes = [], mg_seen = [], mg_warnings = ?ws\<rparr>
            (tp_masters legacy)) (\<lambda>g.
          rbind (migrate_loop endpoint_warnings endpoint_to_v2 g (tp_endpoints legacy)) (\<lambda>g.
          migrate_loop client_warnings client_to_v2 g (tp_clients legacy))) = Inr g
        \<and> ValidateV2 (Some ((migrated legacy)\<lparr>t2_nodes := mg_nodes g\<rparr>)) = Inr ()
        \<and> t = (migrated legacy)\<lparr>t2_nodes := mg_nodes g\<rparr> \<and> ws = mg_warnings g)"
      using v1 Some
      by (auto simp: MigrateV1ToV2WithReport_def SchemaV1_def SchemaV2_def res_simps Let_def migrated_def)
    also have "\<dots> \<longleftrightarrow> distinct (map n2_name (migrated_nodes legacy)) \<and> valid_topology_v2 (migrated legacy)
        \<and> t = migrated legacy \<and> ws = migration_warnings legacy"
      unfolding migrate_loops using names
      by (auto simp: ValidateV2_ok_iff migrated_def migration_warnings_def)
    finally show ?thesis using v1 Some by simp
  qed
qed

end
