(* ===== verification/Contracts.thy ===== *)
theory Contracts
  imports Prelude
begin

text \<open>
  Contracts that more than one component keeps, as locales, with what a client can conclude from them:
  a normalisation that is stable on its results, a registry of immutable snapshots, a tracker of
  target health. The balancer and the ingress interpret each of them.
\<close>

section \<open>Metrics\<close>

text \<open>
  A call into the Prometheus library is an event: a counter incremented or a gauge set, with the
  metric's name and label values. A component's metrics are the log of its events.
\<close>

datatype metric_event =
    CounterInc string "string list"
  | GaugeSet string "string list" int

type_synonym metrics = "metric_event list"

section \<open>Normalisation\<close>

locale normaliser =
  fixes norm :: "'a \<Rightarrow> 'e + 'a"
  assumes norm_stable: "norm x = Inr y \<Longrightarrow> norm y = Inr y"
begin

lemma norm_twice: "rbind (norm x) norm = norm x"
  by (cases "norm x") (auto dest: norm_stable)

lemma norm_then: "norm x = Inr y \<Longrightarrow> rbind (norm y) f = f y"
  by (simp add: norm_stable)

lemma traverse_stable:
  assumes "traverse_from i (\<lambda>j x. map_err (w j) (norm x)) xs = Inr ys"
  shows "traverse_from k (\<lambda>j x. map_err (v j) (norm x)) ys = Inr ys"
proof (rule traverse_from_fixpoint)
  fix j y assume "y \<in> set ys"
  from traverse_from_set [OF assms this] obtain x where "norm x = Inr y"
    by (auto simp: res_simps)
  then show "map_err (v j) (norm y) = Inr y" by (simp add: norm_stable)
qed

end

section \<open>Snapshot registries\<close>

text \<open>
  \<open>make\<close> builds a snapshot or fails, \<open>replace\<close> publishes one, \<open>current\<close> reads the published one. A
  replacement that fails leaves the registry as it was.
\<close>

locale snapshot_registry =
  fixes make :: "'c \<Rightarrow> 'e + 's"
    and replace :: "'r option \<Rightarrow> 'c \<Rightarrow> 'r option \<times> ('e + 's)"
    and current :: "'r option \<Rightarrow> 's option"
  assumes replace_ok: "make c = Inr s \<Longrightarrow>
      \<exists>r'. replace (Some r) c = (Some r', Inr s) \<and> current (Some r') = Some s"
    and replace_err: "make c = Inl e \<Longrightarrow> replace (Some r) c = (Some r, Inl e)"
begin

lemma replace_returns_make: "snd (replace (Some r) c) = make c"
  using replace_ok [of c _ r] replace_err [of c _ r] by (cases "make c") auto

lemma current_replace:
  "current (fst (replace (Some r) c)) = (case make c of Inl _ \<Rightarrow> current (Some r) | Inr s \<Rightarrow> Some s)"
  using replace_ok [of c _ r] replace_err [of c _ r] by (cases "make c") auto

lemma replace_not_nil: "\<exists>r'. fst (replace (Some r) c) = Some r'"
  using replace_ok [of c _ r] replace_err [of c _ r] by (cases "make c") force+

text \<open>After any number of replacements the registry publishes the last one that succeeded.\<close>

lemma current_after_replacements:
  "current (fold (\<lambda>c r. fst (replace r c)) cs (Some r)) =
     (case filter is_ok (map make cs) of
        [] \<Rightarrow> current (Some r)
      | oks \<Rightarrow> (case last oks of Inr s \<Rightarrow> Some s | Inl _ \<Rightarrow> None))"
proof (induction cs arbitrary: r)
  case Nil
  then show ?case by simp
next
  case (Cons c cs)
  obtain r' where r': "fst (replace (Some r) c) = Some r'" using replace_not_nil by blast
  have c: "current (Some r') = (case make c of Inl _ \<Rightarrow> current (Some r) | Inr s \<Rightarrow> Some s)"
    using current_replace [of r c] r' by simp
  show ?case
    using Cons.IH [of r'] r' c
    by (cases "make c") (auto split: list.splits)
qed

end

section \<open>Health\<close>

text \<open>
  Targets are healthy until a probe has failed, and a target's state is the one last set for its key.
  A probe round probes every target and sets its state; the probe gives the error text, or \<open>None\<close>.
\<close>

definition probe_round ::
  "('h \<Rightarrow> 't \<Rightarrow> bool \<Rightarrow> gotime \<Rightarrow> string \<Rightarrow> 'h) \<Rightarrow> ('t \<Rightarrow> string option) \<Rightarrow> gotime \<Rightarrow> 't list \<Rightarrow> 'h \<Rightarrow> 'h"
where
  "probe_round set_health probe now ts h =
     fold (\<lambda>t h. set_health h t (probe t = None) now (case probe t of None \<Rightarrow> [] | Some e \<Rightarrow> e)) ts h"

locale health_contract =
  fixes healthy :: "'h \<Rightarrow> 't \<Rightarrow> bool"
    and set_health :: "'h \<Rightarrow> 't \<Rightarrow> bool \<Rightarrow> gotime \<Rightarrow> string \<Rightarrow> 'h"
    and key :: "'t \<Rightarrow> string"
    and empty_tracker :: 'h
  assumes healthy_set: "healthy (set_health h t b now err) t' = (if key t' = key t then b else healthy h t')"
    and healthy_empty: "healthy empty_tracker t"
begin

lemma healthy_round_other: "key t \<notin> key ` set ts \<Longrightarrow> healthy (probe_round set_health probe now ts h) t = healthy h t"
  unfolding probe_round_def by (induction ts arbitrary: h) (auto simp: healthy_set)

lemma healthy_round:
  "distinct (map key ts) \<Longrightarrow> t \<in> set ts \<Longrightarrow> healthy (probe_round set_health probe now ts h) t \<longleftrightarrow> probe t = None"
proof (induction ts arbitrary: h)
  case Nil
  then show ?case by simp
next
  case (Cons u ts)
  let ?h = "set_health h u (probe u = None) now (case probe u of None \<Rightarrow> [] | Some e \<Rightarrow> e)"
  have r: "probe_round set_health probe now (u # ts) h = probe_round set_health probe now ts ?h" by (simp add: probe_round_def)
  show ?case
  proof (cases "t \<in> set ts")
    case True
    with Cons r show ?thesis by simp
  next
    case False
    with Cons.prems have t: "t = u" "key t \<notin> key ` set ts" by auto
    from t(2) have "healthy (probe_round set_health probe now ts ?h) t = healthy ?h t" by (rule healthy_round_other)
    with t(1) r show ?thesis by (simp add: healthy_set)
  qed
qed

end

end
