(* ===== verification/Balancer.thy ===== *)
theory Balancer
  imports Go_Net Contracts
begin

text \<open>
  \<open>pkg/balancer/types.go\<close>, \<open>registry.go\<close>, \<open>health.go\<close> and \<open>metrics.go\<close>: the configuration of the
  egress balancer and its normalisation, the registry of the current egress snapshot, the health
  tracker and the metrics. A call into the Prometheus library is an event of the metrics log; the
  library itself is not modelled. A nil receiver is \<open>None\<close>.
\<close>

section \<open>Configuration\<close>

definition DefaultHealthProbeInterval :: duration where "DefaultHealthProbeInterval = 5 * second"
definition DefaultFlowIdleTimeout :: duration where "DefaultFlowIdleTimeout = 30 * second"
definition maxFWMarkValue :: int where "maxFWMarkValue = 2 ^ 32 - 1"

type_synonym balancer_mode = string
definition ModeDumb :: balancer_mode where "ModeDumb = ''dumb''"
definition ModeLabeled :: balancer_mode where "ModeLabeled = ''labeled''"

type_synonym label_type = string
definition LabelDSCP :: label_type where "LabelDSCP = ''dscp''"
definition LabelFWMark :: label_type where "LabelFWMark = ''fwmark''"

record egress_target =
  eg_id :: string
  eg_target :: string
  eg_weight :: int

record label_mapping =
  lm_type :: label_type
  lm_value :: int
  lm_egress_id :: string

record balancer_config =
  bc_name :: string
  bc_overlay_ip :: string
  bc_mode :: balancer_mode
  bc_egresses :: "egress_target list"
  bc_labels :: "label_mapping list"
  bc_health_probe_interval :: duration
  bc_flow_idle_timeout :: duration
  bc_metrics_address :: string

record balancer_plan =
  bp_name :: string
  bp_overlay_ip :: string
  bp_mode :: balancer_mode
  bp_egress_count :: nat
  bp_egresses :: "egress_target list"
  bp_label_count :: nat
  bp_labels :: "label_mapping list"
  bp_health_probe_interval :: duration
  bp_flow_idle_timeout :: duration
  bp_metrics_address :: string

datatype balancer_error =
    NameRequired
  | OverlayIPRequired
  | OverlayIPInvalid string
  | UnsupportedMode string
  | NoEgressTargets
  | EgressTargetAt nat balancer_error
  | EgressIDDuplicated string
  | EgressIDRequired
  | EgressIDSeparator string
  | WeightNotPositive string
  | TargetRequired
  | TargetNotHostPort string
  | TargetHostNotIP string
  | TargetPortInvalid string
  | LabelMappingAt nat balancer_error
  | LabelUnknownEgress label_type int string
  | LabelDuplicated label_type int
  | UnsupportedLabelType string
  | LabelValueNotPositive label_type
  | DSCPOutOfRange int
  | FWMarkTooLarge int
  | LabelEgressRequired label_type
  | RegistryNil
  | EngineNil
  | NoSnapshot
  | NoWeightedCandidates
  | NoHealthyTargets
  | IndexOutOfRange int
  | MetricsFailed

definition validateTarget :: "string \<Rightarrow> balancer_error + unit" where
  "validateTarget target =
     (if target = [] then Inl TargetRequired
      else case split_host_port target of
        None \<Rightarrow> Inl (TargetNotHostPort target)
      | Some (host, portText) \<Rightarrow>
          if parse_addr host = None then Inl (TargetHostNotIP host)
          else (case atoi portText of
              None \<Rightarrow> Inl (TargetPortInvalid portText)
            | Some port \<Rightarrow>
                if port < 1 \<or> port > 65535 then Inl (TargetPortInvalid portText) else Inr ()))"

definition validateMode :: "balancer_mode \<Rightarrow> balancer_error + unit" where
  "validateMode mode =
     (if mode = ModeDumb \<or> mode = ModeLabeled then Inr () else Inl (UnsupportedMode mode))"

definition validateLabelType :: "label_type \<Rightarrow> balancer_error + unit" where
  "validateLabelType t =
     (if t = LabelDSCP \<or> t = LabelFWMark then Inr () else Inl (UnsupportedLabelType t))"

definition labelKey :: "label_type \<Rightarrow> int \<Rightarrow> string" where
  "labelKey t v = t @ '':'' @ itoa v"

text \<open>\<^verbatim>\<open>strings.ContainsAny(id, " \t\r\n=,")\<close>.\<close>

definition egress_separators :: "char list" where
  "egress_separators = [CHR '' '', CHR 0x09, CHR 0x0D, CHR 0x0A, CHR ''='', CHR '','']"

definition NormalizeEgressTarget :: "egress_target \<Rightarrow> balancer_error + egress_target" where
  "NormalizeEgressTarget e =
     (let id = trim_space (eg_id e); target = trim_space (eg_target e) in
      if id = [] then Inl EgressIDRequired
      else if list_ex (\<lambda>c. c \<in> set egress_separators) id then Inl (EgressIDSeparator id)
      else rbind (validateTarget target) (\<lambda>_.
        if eg_weight e \<le> 0 then Inl (WeightNotPositive id)
        else Inr \<lparr>eg_id = id, eg_target = target, eg_weight = eg_weight e\<rparr>))"

fun normalize_egresses_loop ::
  "nat \<Rightarrow> (string, egress_target) gomap \<Rightarrow> egress_target list
     \<Rightarrow> balancer_error + egress_target list \<times> (string, egress_target) gomap" where
  "normalize_egresses_loop i byID [] = Inr ([], byID)"
| "normalize_egresses_loop i byID (e # es) =
     rbind (map_err (EgressTargetAt i) (NormalizeEgressTarget e)) (\<lambda>next.
       if gm_get byID (eg_id next) \<noteq> None then Inl (EgressIDDuplicated (eg_id next))
       else rbind (normalize_egresses_loop (Suc i) (gm_put (eg_id next) next byID) es) (\<lambda>(ns, m).
         Inr (next # ns, m)))"

definition normalizeEgresses ::
  "egress_target list \<Rightarrow> balancer_error + egress_target list \<times> (string, egress_target) gomap" where
  "normalizeEgresses es =
     (if es = [] then Inl NoEgressTargets else normalize_egresses_loop 0 [] es)"

definition NormalizeLabelMapping :: "label_mapping \<Rightarrow> balancer_error + label_mapping" where
  "NormalizeLabelMapping l =
     rbind (validateLabelType (lm_type l)) (\<lambda>_.
       if lm_value l \<le> 0 then Inl (LabelValueNotPositive (lm_type l))
       else if lm_type l = LabelDSCP \<and> lm_value l > 63 then Inl (DSCPOutOfRange (lm_value l))
       else if lm_type l = LabelFWMark \<and> lm_value l > maxFWMarkValue then Inl (FWMarkTooLarge (lm_value l))
       else if trim_space (lm_egress_id l) = [] then Inl (LabelEgressRequired (lm_type l))
       else Inr \<lparr>lm_type = lm_type l, lm_value = lm_value l, lm_egress_id = trim_space (lm_egress_id l)\<rparr>)"

fun normalize_labels_loop ::
  "nat \<Rightarrow> (string, egress_target) gomap \<Rightarrow> string list \<Rightarrow> label_mapping list
     \<Rightarrow> balancer_error + label_mapping list" where
  "normalize_labels_loop i egresses seen [] = Inr []"
| "normalize_labels_loop i egresses seen (l # ls) =
     rbind (map_err (LabelMappingAt i) (NormalizeLabelMapping l)) (\<lambda>next.
       if gm_get egresses (lm_egress_id next) = None
       then Inl (LabelUnknownEgress (lm_type next) (lm_value next) (lm_egress_id next))
       else if labelKey (lm_type next) (lm_value next) \<in> set seen
       then Inl (LabelDuplicated (lm_type next) (lm_value next))
       else rbind (normalize_labels_loop (Suc i) egresses
              (labelKey (lm_type next) (lm_value next) # seen) ls) (\<lambda>ns.
         Inr (next # ns)))"

definition normalizeLabels ::
  "label_mapping list \<Rightarrow> (string, egress_target) gomap \<Rightarrow> balancer_error + label_mapping list" where
  "normalizeLabels labels egresses = normalize_labels_loop 0 egresses [] labels"

definition NormalizeConfig :: "balancer_config \<Rightarrow> balancer_error + balancer_config" where
  "NormalizeConfig cfg =
     (let name = trim_space (bc_name cfg); overlay = trim_space (bc_overlay_ip cfg);
          mode = (if bc_mode cfg = [] then ModeDumb else bc_mode cfg) in
      if name = [] then Inl NameRequired
      else if overlay = [] then Inl OverlayIPRequired
      else if parse_addr overlay = None then Inl (OverlayIPInvalid overlay)
      else rbind (validateMode mode) (\<lambda>_.
           rbind (normalizeEgresses (bc_egresses cfg)) (\<lambda>(egresses, byID).
           rbind (normalizeLabels (bc_labels cfg) byID) (\<lambda>labels.
           Inr \<lparr>bc_name = name, bc_overlay_ip = overlay, bc_mode = mode, bc_egresses = egresses,
                bc_labels = labels,
                bc_health_probe_interval = (if bc_health_probe_interval cfg \<le> 0
                  then DefaultHealthProbeInterval else bc_health_probe_interval cfg),
                bc_flow_idle_timeout = (if bc_flow_idle_timeout cfg \<le> 0
                  then DefaultFlowIdleTimeout else bc_flow_idle_timeout cfg),
                bc_metrics_address = trim_space (bc_metrics_address cfg)\<rparr>))))"

definition PlanConfig :: "balancer_config \<Rightarrow> balancer_error + balancer_plan" where
  "PlanConfig cfg =
     rbind (NormalizeConfig cfg) (\<lambda>n.
       Inr \<lparr>bp_name = bc_name n, bp_overlay_ip = bc_overlay_ip n, bp_mode = bc_mode n,
            bp_egress_count = length (bc_egresses n), bp_egresses = bc_egresses n,
            bp_label_count = length (bc_labels n), bp_labels = bc_labels n,
            bp_health_probe_interval = bc_health_probe_interval n,
            bp_flow_idle_timeout = bc_flow_idle_timeout n,
            bp_metrics_address = bc_metrics_address n\<rparr>)"

section \<open>Snapshots and the registry\<close>

record egress_snapshot =
  sn_egresses :: "egress_target list"
  sn_by_id :: "(string, egress_target) gomap"
  sn_weighted :: "egress_target list"

definition NewSnapshot :: "egress_target list \<Rightarrow> balancer_error + egress_snapshot" where
  "NewSnapshot es =
     rbind (normalizeEgresses es) (\<lambda>(normalized, byID).
       Inr \<lparr>sn_egresses = normalized, sn_by_id = byID,
            sn_weighted = concat (map (\<lambda>e. replicate (nat (eg_weight e)) e) normalized)\<rparr>)"

definition Snapshot_Egresses :: "egress_snapshot option \<Rightarrow> egress_target list" where
  "Snapshot_Egresses s = (case s of None \<Rightarrow> [] | Some sn \<Rightarrow> sn_egresses sn)"

definition Snapshot_Weighted :: "egress_snapshot option \<Rightarrow> egress_target list" where
  "Snapshot_Weighted s = (case s of None \<Rightarrow> [] | Some sn \<Rightarrow> sn_weighted sn)"

definition Snapshot_Lookup :: "egress_snapshot option \<Rightarrow> string \<Rightarrow> egress_target option" where
  "Snapshot_Lookup s eid = (case s of None \<Rightarrow> None | Some sn \<Rightarrow> gm_get (sn_by_id sn) eid)"

text \<open>The atomic value that holds the current snapshot, empty before the first store.\<close>

record egress_registry =
  er_current :: "egress_snapshot option"

definition NewRegistry :: "egress_target list \<Rightarrow> balancer_error + egress_registry" where
  "NewRegistry es = rbind (NewSnapshot es) (\<lambda>s. Inr \<lparr>er_current = Some s\<rparr>)"

text \<open>\<open>Replace\<close>: on an error the registry keeps its snapshot.\<close>

definition Registry_Replace ::
  "egress_registry option \<Rightarrow> egress_target list
     \<Rightarrow> egress_registry option \<times> (balancer_error + egress_snapshot)" where
  "Registry_Replace r es =
     (case r of
        None \<Rightarrow> (None, Inl RegistryNil)
      | Some reg \<Rightarrow>
          (case NewSnapshot es of
             Inl e \<Rightarrow> (Some reg, Inl e)
           | Inr s \<Rightarrow> (Some (reg\<lparr>er_current := Some s\<rparr>), Inr s)))"

definition Registry_Snapshot :: "egress_registry option \<Rightarrow> egress_snapshot option" where
  "Registry_Snapshot r = (case r of None \<Rightarrow> None | Some reg \<Rightarrow> er_current reg)"

definition Registry_Lookup :: "egress_registry option \<Rightarrow> string \<Rightarrow> egress_target option" where
  "Registry_Lookup r eid = Snapshot_Lookup (Registry_Snapshot r) eid"

section \<open>Metrics\<close>

definition Metrics_RecordDecision ::
  "metrics option \<Rightarrow> balancer_mode \<Rightarrow> egress_target \<Rightarrow> bool \<Rightarrow> string \<Rightarrow> metrics option" where
  "Metrics_RecordDecision m mode e fallback reason =
     map_option (\<lambda>log. log
       @ [CounterInc ''awg_mesh_balancer_decisions_total''
            [mode, eg_id e, if fallback then ''true'' else ''false''],
          CounterInc ''awg_mesh_balancer_egress_selections_total'' [mode, eg_id e]]
       @ (if fallback then [CounterInc ''awg_mesh_balancer_fallbacks_total'' [mode, eg_id e, reason]] else [])) m"

definition Metrics_SetTargetHealth :: "metrics option \<Rightarrow> egress_target \<Rightarrow> bool \<Rightarrow> metrics option" where
  "Metrics_SetTargetHealth m e healthy =
     map_option (\<lambda>log. log @ [GaugeSet ''awg_mesh_balancer_egress_healthy'' [eg_id e, eg_target e]
       (if healthy then 1 else 0)]) m"

definition Metrics_SetActiveFlows :: "metrics option \<Rightarrow> nat \<Rightarrow> metrics option" where
  "Metrics_SetActiveFlows m n =
     map_option (\<lambda>log. log @ [GaugeSet ''awg_mesh_balancer_active_flows'' [] (int n)]) m"

section \<open>Health\<close>

record target_health =
  th_healthy :: bool
  th_last_error :: string
  th_checked_at :: gotime

text \<open>The tracker's status map. The probe is an argument of the operations that call it.\<close>

type_synonym health_tracker = "(string, target_health) gomap"

definition healthy_default :: target_health where
  "healthy_default = \<lparr>th_healthy = True, th_last_error = [], th_checked_at = time_zero\<rparr>"

definition NewHealthTracker :: health_tracker where
  "NewHealthTracker = []"

definition Health_IsHealthy :: "health_tracker option \<Rightarrow> egress_target \<Rightarrow> bool" where
  "Health_IsHealthy h e =
     (case h of
        None \<Rightarrow> True
      | Some status \<Rightarrow> (case gm_get status (eg_id e) of None \<Rightarrow> True | Some st \<Rightarrow> th_healthy st))"

definition Health_Status :: "health_tracker option \<Rightarrow> egress_target \<Rightarrow> target_health" where
  "Health_Status h e =
     (case h of
        None \<Rightarrow> healthy_default
      | Some status \<Rightarrow> (case gm_get status (eg_id e) of None \<Rightarrow> healthy_default | Some st \<Rightarrow> st))"

definition Health_Set ::
  "health_tracker option \<Rightarrow> string \<Rightarrow> bool \<Rightarrow> gotime \<Rightarrow> string \<Rightarrow> health_tracker option" where
  "Health_Set h egressID healthy checkedAt lastError =
     map_option (gm_put egressID
       \<lparr>th_healthy = healthy, th_last_error = lastError, th_checked_at = checkedAt\<rparr>) h"

text \<open>
  \<open>ProbeOnce\<close>: the probe gives the error text of an egress, or \<open>None\<close> when it can be reached.
\<close>

type_synonym probe_func = "egress_target \<Rightarrow> string option"

definition probe_step ::
  "probe_func \<Rightarrow> gotime \<Rightarrow> egress_target \<Rightarrow> health_tracker option \<times> metrics option
     \<Rightarrow> health_tracker option \<times> metrics option" where
  "probe_step probe now e = (\<lambda>(h, m).
     (Health_Set h (eg_id e) (probe e = None) now (case probe e of None \<Rightarrow> [] | Some err \<Rightarrow> err),
      Metrics_SetTargetHealth m e (probe e = None)))"

definition Health_ProbeOnce ::
  "probe_func \<Rightarrow> health_tracker option \<Rightarrow> egress_snapshot option \<Rightarrow> metrics option \<Rightarrow> gotime
     \<Rightarrow> health_tracker option \<times> metrics option" where
  "Health_ProbeOnce probe h snapshot m now =
     (if h = None \<or> snapshot = None then (h, m)
      else fold (probe_step probe now) (Snapshot_Egresses snapshot) (h, m))"

text \<open>
  \<open>Run\<close>: a probe round at the start and one for each tick until the context ends. The ticks, with
  the snapshot the registry holds at each, are the input.
\<close>

definition Health_Run ::
  "probe_func \<Rightarrow> health_tracker option \<Rightarrow> metrics option \<Rightarrow> (gotime \<times> egress_registry) list
     \<Rightarrow> health_tracker option \<times> metrics option" where
  "Health_Run probe h m rounds =
     (if h = None then (h, m)
      else fold (\<lambda>(now, reg) (h, m). Health_ProbeOnce probe h (Registry_Snapshot (Some reg)) m now)
             rounds (h, m))"

section \<open>Normalisation is stable\<close>

interpretation ne: normaliser NormalizeEgressTarget
  by unfold_locales (auto simp: NormalizeEgressTarget_def Let_def res_simps split: if_splits)

interpretation nl: normaliser NormalizeLabelMapping
  by unfold_locales (auto simp: NormalizeLabelMapping_def res_simps split: if_splits)

lemma normalize_egresses_loop_ok:
  "normalize_egresses_loop i byID es = Inr (ns, m) \<longleftrightarrow>
     list_all2 (\<lambda>e n. NormalizeEgressTarget e = Inr n) es ns \<and> distinct (map eg_id ns)
     \<and> (\<forall>n \<in> set ns. gm_get byID (eg_id n) = None)
     \<and> m = fold (\<lambda>n. gm_put (eg_id n) n) ns byID"
proof (induction es arbitrary: i byID ns)
  case Nil
  then show ?case by auto
next
  case (Cons e es)
  show ?case
  proof (cases ns)
    case Nil
    then show ?thesis by (auto simp: res_simps)
  next
    case (Cons n ns')
    have new: "(\<forall>k \<in> set ns'. gm_get (gm_put (eg_id n) n byID) (eg_id k) = None) \<longleftrightarrow>
        eg_id n \<notin> eg_id ` set ns' \<and> (\<forall>k \<in> set ns'. gm_get byID (eg_id k) = None)"
      by (fastforce simp: gm_simps image_iff split: if_splits)
    have "normalize_egresses_loop i byID (e # es) = Inr (n # ns', m) \<longleftrightarrow>
        NormalizeEgressTarget e = Inr n \<and> gm_get byID (eg_id n) = None
        \<and> normalize_egresses_loop (Suc i) (gm_put (eg_id n) n byID) es = Inr (ns', m)"
      by (auto simp: res_simps)
    then show ?thesis using local.Cons by (auto simp: Cons.IH new)
  qed
qed

lemma normalizeEgresses_ok:
  "normalizeEgresses es = Inr (ns, m) \<longleftrightarrow> es \<noteq> []
     \<and> list_all2 (\<lambda>e n. NormalizeEgressTarget e = Inr n) es ns \<and> distinct (map eg_id ns)
     \<and> m = fold (\<lambda>n. gm_put (eg_id n) n) ns []"
  by (auto simp: normalizeEgresses_def normalize_egresses_loop_ok)

lemma normalizeEgresses_stable: "normalizeEgresses es = Inr (ns, m) \<Longrightarrow> normalizeEgresses ns = Inr (ns, m)"
  using list_all2_stable [OF _ ne.norm_stable, of es ns]
  by (auto simp: normalizeEgresses_ok)

lemma normalize_labels_loop_ok:
  "normalize_labels_loop i egresses seen ls = Inr ns \<longleftrightarrow>
     list_all2 (\<lambda>l n. NormalizeLabelMapping l = Inr n) ls ns
     \<and> (\<forall>n \<in> set ns. gm_get egresses (lm_egress_id n) \<noteq> None)
     \<and> distinct (map (\<lambda>n. labelKey (lm_type n) (lm_value n)) ns)
     \<and> set seen \<inter> (\<lambda>n. labelKey (lm_type n) (lm_value n)) ` set ns = {}"
proof (induction ls arbitrary: i seen ns)
  case Nil
  then show ?case by auto
next
  case (Cons l ls)
  show ?case
  proof (cases ns)
    case Nil
    then show ?thesis by (auto simp: res_simps)
  next
    case (Cons n ns')
    have "normalize_labels_loop i egresses seen (l # ls) = Inr (n # ns') \<longleftrightarrow>
        NormalizeLabelMapping l = Inr n \<and> gm_get egresses (lm_egress_id n) \<noteq> None
        \<and> labelKey (lm_type n) (lm_value n) \<notin> set seen
        \<and> normalize_labels_loop (Suc i) egresses (labelKey (lm_type n) (lm_value n) # seen) ls = Inr ns'"
      by (auto simp: res_simps)
    then show ?thesis using local.Cons by (auto simp: Cons.IH)
  qed
qed

lemma normalizeLabels_stable: "normalizeLabels ls m = Inr ns \<Longrightarrow> normalizeLabels ns m = Inr ns"
  using list_all2_stable [OF _ nl.norm_stable, of ls ns]
  by (auto simp: normalizeLabels_def normalize_labels_loop_ok)

interpretation nc: normaliser NormalizeConfig
proof unfold_locales
  fix c d assume "NormalizeConfig c = Inr d"
  then obtain egresses byID labels where
    e: "normalizeEgresses (bc_egresses c) = Inr (egresses, byID)"
    and l: "normalizeLabels (bc_labels c) byID = Inr labels"
    and d: "bc_egresses d = egresses" "bc_labels d = labels"
      "trim_space (bc_name d) = bc_name d" "bc_name d \<noteq> []"
      "trim_space (bc_overlay_ip d) = bc_overlay_ip d" "bc_overlay_ip d \<noteq> []"
      "parse_addr (bc_overlay_ip d) \<noteq> None" "bc_mode d \<noteq> []" "validateMode (bc_mode d) = Inr ()"
      "bc_health_probe_interval d > 0" "bc_flow_idle_timeout d > 0"
      "trim_space (bc_metrics_address d) = bc_metrics_address d"
    by (auto simp: NormalizeConfig_def Let_def res_simps ModeDumb_def DefaultHealthProbeInterval_def
        DefaultFlowIdleTimeout_def second_def nsec_per_sec_def split: if_splits prod.splits)
  from normalizeEgresses_stable [OF e] normalizeLabels_stable [OF l] d
  show "NormalizeConfig d = Inr d"
    by (auto simp: NormalizeConfig_def Let_def)
qed

section \<open>Snapshots\<close>

definition snapshot_ok :: "egress_snapshot \<Rightarrow> bool" where
  "snapshot_ok s \<longleftrightarrow> sn_egresses s \<noteq> [] \<and> distinct (map eg_id (sn_egresses s))
     \<and> (\<forall>e \<in> set (sn_egresses s). NormalizeEgressTarget e = Inr e)
     \<and> sn_by_id s = fold (\<lambda>n. gm_put (eg_id n) n) (sn_egresses s) []
     \<and> sn_weighted s = concat (map (\<lambda>e. replicate (nat (eg_weight e)) e) (sn_egresses s))"

lemma NewSnapshot_snapshot_ok: "NewSnapshot es = Inr s \<Longrightarrow> snapshot_ok s"
proof -
  assume "NewSnapshot es = Inr s"
  then obtain ns m where n: "normalizeEgresses es = Inr (ns, m)"
    and s: "s = \<lparr>sn_egresses = ns, sn_by_id = m,
      sn_weighted = concat (map (\<lambda>e. replicate (nat (eg_weight e)) e) ns)\<rparr>"
    by (auto simp: NewSnapshot_def res_simps)
  from normalizeEgresses_stable [OF n] have "list_all2 (\<lambda>e n. NormalizeEgressTarget e = Inr n) ns ns"
    and "ns \<noteq> []" "distinct (map eg_id ns)" "m = fold (\<lambda>n. gm_put (eg_id n) n) ns []"
    by (auto simp: normalizeEgresses_ok)
  with s show ?thesis by (auto simp: snapshot_ok_def list_all2_same)
qed

lemma Snapshot_Lookup_iff:
  "snapshot_ok s \<Longrightarrow> Snapshot_Lookup (Some s) k = Some e \<longleftrightarrow> e \<in> set (sn_egresses s) \<and> eg_id e = k"
  by (simp add: Snapshot_Lookup_def snapshot_ok_def gm_get_table)

lemma snapshot_weight_pos: "snapshot_ok s \<Longrightarrow> e \<in> set (sn_egresses s) \<Longrightarrow> 0 < eg_weight e"
  by (auto simp: snapshot_ok_def NormalizeEgressTarget_def Let_def res_simps split: if_splits)

lemma set_weighted: "snapshot_ok s \<Longrightarrow> set (sn_weighted s) = set (sn_egresses s)"
  using snapshot_weight_pos [of s] by (force simp: snapshot_ok_def)

lemma weighted_not_Nil: "snapshot_ok s \<Longrightarrow> sn_weighted s \<noteq> []"
  by (metis set_empty set_weighted snapshot_ok_def)

interpretation br: snapshot_registry NewSnapshot Registry_Replace Registry_Snapshot
  by unfold_locales (auto simp: Registry_Replace_def Registry_Snapshot_def)

section \<open>Health\<close>

definition put_health :: "health_tracker \<Rightarrow> egress_target \<Rightarrow> bool \<Rightarrow> gotime \<Rightarrow> string \<Rightarrow> health_tracker" where
  "put_health h e b now err =
     gm_put (eg_id e) \<lparr>th_healthy = b, th_last_error = err, th_checked_at = now\<rparr> h"

lemma Health_Set_Some: "Health_Set (Some h) (eg_id e) b now err = Some (put_health h e b now err)"
  by (simp add: Health_Set_def put_health_def)

interpretation bh: health_contract "\<lambda>h. Health_IsHealthy (Some h)" put_health eg_id NewHealthTracker
  by unfold_locales
    (auto simp: Health_IsHealthy_def put_health_def NewHealthTracker_def gm_simps)

lemma probe_fold:
  "fst (fold (probe_step probe now) es (Some h, m)) = Some (probe_round put_health probe now es h)"
  by (induction es arbitrary: h m) (simp_all add: probe_round_def probe_step_def Health_Set_Some)

lemma ProbeOnce_round:
  "fst (Health_ProbeOnce probe (Some h) (Some s) m now) = Some (probe_round put_health probe now (sn_egresses s) h)"
  by (simp add: Health_ProbeOnce_def Snapshot_Egresses_def probe_fold)

end
