(* ===== verification/Balancer_Engine.thy ===== *)
theory Balancer_Engine
  imports Balancer
begin

text \<open>
  \<open>pkg/balancer/selector.go\<close> and the constructor of \<open>runtime.go\<close>: the selection of an egress for a
  flow. The engine's mutex makes each \<open>Select\<close> one step of the state. The decision log is not
  modelled; metrics are the events of \<open>Balancer\<close>. \<open>NewMetrics\<close> on a fresh Prometheus registry is taken
  to succeed. The cursor is an \<open>int\<close> that wraps at 64 bits, and a negative remainder would panic.
\<close>

record flow_key =
  fk_source :: string
  fk_destination :: string
  fk_protocol :: string
  fk_source_port :: int
  fk_destination_port :: int

definition FlowKey_String :: "flow_key \<Rightarrow> string" where
  "FlowKey_String k = join ''|'' [trim_space (fk_source k), trim_space (fk_destination k),
     trim_space (fk_protocol k), itoa (fk_source_port k), itoa (fk_destination_port k)]"

definition FlowKey_empty :: "flow_key \<Rightarrow> bool" where
  "FlowKey_empty k \<longleftrightarrow> trim_space (fk_source k) = [] \<and> trim_space (fk_destination k) = []
     \<and> trim_space (fk_protocol k) = [] \<and> fk_source_port k = 0 \<and> fk_destination_port k = 0"

record decision_request =
  dr_flow_key :: flow_key
  dr_dscp :: int
  dr_fwmark :: int

record decision =
  de_egress :: egress_target
  de_mode :: balancer_mode
  de_flow_key :: flow_key
  de_sticky :: bool
  de_fallback_reason :: string
  de_expires_at :: gotime

record flow_entry =
  fe_egress_id :: string
  fe_expires_at :: gotime

record engine =
  en_cfg :: balancer_config
  en_registry :: egress_registry
  en_health :: health_tracker
  en_metrics :: metrics
  en_label_map :: "(string, string) gomap"
  en_flow_idle :: duration
  en_rr_cursor :: int
  en_flow_entries :: "(string, flow_entry) gomap"

definition NewEngine :: "balancer_config \<Rightarrow> balancer_error + engine" where
  "NewEngine cfg =
     rbind (NormalizeConfig cfg) (\<lambda>normalized.
     rbind (NewRegistry (bc_egresses normalized)) (\<lambda>registry.
     Inr \<lparr>en_cfg = normalized, en_registry = registry, en_health = NewHealthTracker, en_metrics = [],
          en_label_map = fold (\<lambda>l. gm_put (labelKey (lm_type l) (lm_value l)) (lm_egress_id l))
            (bc_labels normalized) [],
          en_flow_idle = bc_flow_idle_timeout normalized, en_rr_cursor = 0, en_flow_entries = []\<rparr>))"

definition expireFlows :: "engine \<Rightarrow> gotime \<Rightarrow> engine" where
  "expireFlows e now =
     e\<lparr>en_flow_entries := filter (\<lambda>(k, entry). now < fe_expires_at entry) (en_flow_entries e)\<rparr>"

definition mappedEgress :: "engine \<Rightarrow> decision_request \<Rightarrow> string option" where
  "mappedEgress e req =
     (case (if dr_dscp req > 0 then gm_get (en_label_map e) (labelKey LabelDSCP (dr_dscp req)) else None) of
        Some eid \<Rightarrow> Some eid
      | None \<Rightarrow>
          if dr_fwmark req > 0 then gm_get (en_label_map e) (labelKey LabelFWMark (dr_fwmark req)) else None)"

text \<open>The loop of \<open>nextHealthyDumb\<close>, with the number of candidates still to try.\<close>

fun next_healthy_loop ::
  "nat \<Rightarrow> health_tracker \<Rightarrow> egress_target list \<Rightarrow> int \<Rightarrow> int \<times> (balancer_error + egress_target)" where
  "next_healthy_loop 0 health weighted cursor = (cursor, Inl NoHealthyTargets)"
| "next_healthy_loop (Suc n) health weighted cursor =
     (let index = go_rem cursor (int (length weighted)); cursor' = wrap64 (cursor + 1) in
      if index < 0 then (cursor', Inl (IndexOutOfRange index))
      else if Health_IsHealthy (Some health) (weighted ! nat index) then (cursor', Inr (weighted ! nat index))
      else next_healthy_loop n health weighted cursor')"

definition nextHealthyDumb :: "engine \<Rightarrow> egress_snapshot \<Rightarrow> engine \<times> (balancer_error + egress_target)" where
  "nextHealthyDumb e snapshot =
     (let weighted = Snapshot_Weighted (Some snapshot) in
      if weighted = [] then (e, Inl NoWeightedCandidates)
      else (case next_healthy_loop (length weighted) (en_health e) weighted (en_rr_cursor e) of
          (cursor, r) \<Rightarrow> (e\<lparr>en_rr_cursor := cursor\<rparr>, r)))"

definition recordDecisionLocked ::
  "engine \<Rightarrow> decision_request \<Rightarrow> egress_target \<Rightarrow> string \<Rightarrow> bool \<Rightarrow> gotime \<Rightarrow> string \<Rightarrow> engine \<times> decision" where
  "recordDecisionLocked e req egress fallbackReason sticky now flowID =
     (let expiresAt = now + en_flow_idle e;
          entries = (if flowID \<noteq> []
            then gm_put flowID \<lparr>fe_egress_id = eg_id egress, fe_expires_at = expiresAt\<rparr> (en_flow_entries e)
            else en_flow_entries e);
          m = Metrics_SetActiveFlows
                (Metrics_RecordDecision (Some (en_metrics e)) (bc_mode (en_cfg e)) egress
                  (fallbackReason \<noteq> []) fallbackReason) (length entries)
      in (e\<lparr>en_flow_entries := entries, en_metrics := the m\<rparr>,
          \<lparr>de_egress = egress, de_mode = bc_mode (en_cfg e), de_flow_key = dr_flow_key req,
           de_sticky = sticky, de_fallback_reason = fallbackReason, de_expires_at = expiresAt\<rparr>))"

text \<open>
  The part of \<open>Select\<close> after the sticky lookup failed: the labelled target, or the next healthy one.
\<close>

definition select_fresh ::
  "engine \<Rightarrow> egress_snapshot \<Rightarrow> decision_request \<Rightarrow> gotime \<Rightarrow> string \<Rightarrow> engine \<times> (balancer_error + decision)" where
  "select_fresh e snapshot req now flowID =
     (let labelled = (if bc_mode (en_cfg e) = ModeLabeled then mappedEgress e req else None);
          found = Option.bind labelled (Snapshot_Lookup (Some snapshot)) in
      case found of
        Some egress \<Rightarrow>
          if Health_IsHealthy (Some (en_health e)) egress then
            (case recordDecisionLocked e req egress [] False now flowID of (e', d) \<Rightarrow> (e', Inr d))
          else (case nextHealthyDumb e snapshot of
              (e', Inl err) \<Rightarrow> (e', Inl err)
            | (e', Inr eg) \<Rightarrow>
                (case recordDecisionLocked e' req eg ''labeled-target-unhealthy'' False now flowID of
                   (e'', d) \<Rightarrow> (e'', Inr d)))
      | None \<Rightarrow>
          (case nextHealthyDumb e snapshot of
              (e', Inl err) \<Rightarrow> (e', Inl err)
            | (e', Inr eg) \<Rightarrow>
                (case recordDecisionLocked e' req eg
                        (if labelled = None then [] else ''labeled-target-missing'') False now flowID of
                   (e'', d) \<Rightarrow> (e'', Inr d))))"

text \<open>
  \<open>Select\<close>: a zero time stands for the clock. A flow entry that cannot be used is removed.
\<close>

definition Select ::
  "gotime \<Rightarrow> engine \<Rightarrow> decision_request \<Rightarrow> gotime \<Rightarrow> engine \<times> (balancer_error + decision)" where
  "Select clock e req now0 =
     (let now = (if is_zero_time now0 then clock else now0) in
      case Registry_Snapshot (Some (en_registry e)) of
        None \<Rightarrow> (e, Inl NoSnapshot)
      | Some snapshot \<Rightarrow>
          (let e1 = expireFlows e now;
               flowID = (if FlowKey_empty (dr_flow_key req) then [] else FlowKey_String (dr_flow_key req)) in
           if FlowKey_empty (dr_flow_key req) then select_fresh e1 snapshot req now flowID
           else (case gm_get (en_flow_entries e1) flowID of
               None \<Rightarrow> select_fresh e1 snapshot req now flowID
             | Some entry \<Rightarrow>
                 if \<not> now < fe_expires_at entry then select_fresh e1 snapshot req now flowID
                 else (case Snapshot_Lookup (Some snapshot) (fe_egress_id entry) of
                     Some egress \<Rightarrow>
                       if Health_IsHealthy (Some (en_health e1)) egress then
                         (case recordDecisionLocked e1 req egress [] True now flowID of (e', d) \<Rightarrow> (e', Inr d))
                       else select_fresh (e1\<lparr>en_flow_entries := gm_del flowID (en_flow_entries e1)\<rparr>)
                              snapshot req now flowID
                   | None \<Rightarrow>
                       select_fresh (e1\<lparr>en_flow_entries := gm_del flowID (en_flow_entries e1)\<rparr>)
                         snapshot req now flowID))))"

section \<open>The runtime\<close>

record balancer_runtime =
  brt_cfg :: balancer_config
  brt_plan :: balancer_plan
  brt_engine :: engine
  brt_started :: bool

definition NewRuntime :: "balancer_config \<Rightarrow> balancer_error + balancer_runtime" where
  "NewRuntime cfg =
     rbind (NormalizeConfig cfg) (\<lambda>normalized.
     rbind (PlanConfig normalized) (\<lambda>plan.
     rbind (NewEngine normalized) (\<lambda>eng.
     Inr \<lparr>brt_cfg = normalized, brt_plan = plan, brt_engine = eng, brt_started = False\<rparr>)))"

section \<open>Round robin\<close>

lemma next_healthy_loop_find:
  assumes "w \<noteq> []" and "0 \<le> c" and "c + int n \<le> max_int64"
  shows "next_healthy_loop n h w c =
    (case find (\<lambda>i. Health_IsHealthy (Some h) (w ! ((nat c + i) mod length w))) [0..<n] of
       None \<Rightarrow> (c + int n, Inl NoHealthyTargets)
     | Some i \<Rightarrow> (c + int i + 1, Inr (w ! ((nat c + i) mod length w))))"
  using assms(2,3)
proof (induction n arbitrary: c)
  case 0
  then show ?case by simp
next
  case (Suc n)
  let ?P = "\<lambda>c i. Health_IsHealthy (Some h) (w ! ((nat c + i) mod length w))"
  have L: "0 < int (length w)" using assms(1) by simp
  have idx: "go_rem c (int (length w)) = int (nat c mod length w)"
    using Suc.prems L by (simp add: go_rem_nonneg zmod_int)
  have c': "wrap64 (c + 1) = c + 1"
    using Suc.prems by (intro wrap64_id) (simp add: int64_range_def min_int64_def max_int64_def)
  have up: "[0..<Suc n] = 0 # map Suc [0..<n]"
    by (simp only: upt_conv_Cons zero_less_Suc map_Suc_upt)
  have shift: "find (?P c) (map Suc xs) = map_option Suc (find (?P (c + 1)) xs)" for xs
    using Suc.prems by (induction xs) (auto simp: nat_add_distrib)
  have IH: "next_healthy_loop n h w (c + 1) =
    (case find (?P (c + 1)) [0..<n] of
       None \<Rightarrow> (c + 1 + int n, Inl NoHealthyTargets)
     | Some i \<Rightarrow> (c + 1 + int i + 1, Inr (w ! ((nat (c + 1) + i) mod length w))))"
    using Suc.prems by (intro Suc.IH) auto
  show ?case
  proof (cases "?P c 0")
    case True
    then have "find (?P c) [0..<Suc n] = Some 0" by (simp only: up find.simps if_True)
    with True show ?thesis by (simp add: idx c' Let_def del: upt_Suc)
  next
    case False
    then have "find (?P c) [0..<Suc n] = map_option Suc (find (?P (c + 1)) [0..<n])"
      by (simp only: up find.simps shift if_False)
    moreover from False have "next_healthy_loop (Suc n) h w c = next_healthy_loop n h w (c + 1)"
      by (simp add: idx c' Let_def)
    ultimately show ?thesis
      using IH Suc.prems by (auto simp: nat_add_distrib split: option.splits)
  qed
qed

lemma rotation_covers:
  assumes "0 < L" and "j < L"
  shows "\<exists>i < L. (c + i) mod L = (j :: nat)"
proof -
  let ?i = "(j + (L - c mod L)) mod L"
  have "(c + ?i) mod L = (c mod L + (j + (L - c mod L))) mod L"
    by (metis mod_add_left_eq mod_add_right_eq)
  also have "c mod L + (j + (L - c mod L)) = j + L"
    using mod_less_divisor [OF assms(1), of c] by linarith
  finally have "(c + ?i) mod L = j" using assms(2) by simp
  moreover have "?i < L" using assms(1) by simp
  ultimately show ?thesis by blast
qed

lemma find_rotation_None:
  assumes "w \<noteq> []"
  shows "find (\<lambda>i. P (w ! ((c + i) mod length w))) [0..<length w] = None \<longleftrightarrow> (\<forall>x \<in> set w. \<not> P x)"
proof
  assume n: "find (\<lambda>i. P (w ! ((c + i) mod length w))) [0..<length w] = None"
  show "\<forall>x \<in> set w. \<not> P x"
  proof
    fix x assume "x \<in> set w"
    then obtain j where j: "j < length w" "x = w ! j" by (auto simp: in_set_conv_nth)
    from assms j rotation_covers [of "length w" j c] obtain i where
      "i < length w" "(c + i) mod length w = j" by auto
    with n j show "\<not> P x" by (auto simp: find_None_iff)
  qed
next
  assume "\<forall>x \<in> set w. \<not> P x"
  with assms show "find (\<lambda>i. P (w ! ((c + i) mod length w))) [0..<length w] = None"
    by (auto simp: find_None_iff)
qed

text \<open>A usable engine: a published snapshot, a cursor that cannot overflow in this call.\<close>

definition engine_snapshot :: "engine \<Rightarrow> egress_snapshot" where
  "engine_snapshot e = the (er_current (en_registry e))"

definition engine_ok :: "engine \<Rightarrow> bool" where
  "engine_ok e \<longleftrightarrow> er_current (en_registry e) \<noteq> None \<and> snapshot_ok (engine_snapshot e)
     \<and> 0 \<le> en_rr_cursor e \<and> 0 < en_flow_idle e \<and> gm_wf (en_flow_entries e)"

definition cursor_room :: "engine \<Rightarrow> bool" where
  "cursor_room e \<longleftrightarrow> en_rr_cursor e + int (length (sn_weighted (engine_snapshot e))) \<le> max_int64"

definition engine_healthy :: "engine \<Rightarrow> egress_target \<Rightarrow> bool" where
  "engine_healthy e eg = Health_IsHealthy (Some (en_health e)) eg"

text \<open>The parts of the engine that a selection never changes.\<close>

definition same_setup :: "engine \<Rightarrow> engine \<Rightarrow> bool" where
  "same_setup e f \<longleftrightarrow> en_cfg f = en_cfg e \<and> en_registry f = en_registry e \<and> en_health f = en_health e
     \<and> en_label_map f = en_label_map e \<and> en_flow_idle f = en_flow_idle e"

lemma nextHealthyDumb_ok:
  assumes "engine_ok e" and "cursor_room e" and "nextHealthyDumb e (engine_snapshot e) = (e', r)"
  shows "is_ok r \<longleftrightarrow> (\<exists>eg \<in> set (sn_egresses (engine_snapshot e)). engine_healthy e eg)"
    and "r = Inr eg \<Longrightarrow> eg \<in> set (sn_egresses (engine_snapshot e)) \<and> engine_healthy e eg"
    and "same_setup e e' \<and> en_flow_entries e' = en_flow_entries e \<and> en_metrics e' = en_metrics e"
    and "en_rr_cursor e \<le> en_rr_cursor e'"
      "en_rr_cursor e' \<le> en_rr_cursor e + int (length (sn_weighted (engine_snapshot e)))"
proof -
  let ?s = "engine_snapshot e" and ?w = "sn_weighted (engine_snapshot e)" and ?c = "en_rr_cursor e"
  let ?P = "Health_IsHealthy (Some (en_health e))"
  have s: "snapshot_ok ?s" and c: "0 \<le> ?c" using assms(1) by (auto simp: engine_ok_def)
  have w: "?w \<noteq> []" by (rule weighted_not_Nil [OF s])
  have loop: "next_healthy_loop (length ?w) (en_health e) ?w ?c =
    (case find (\<lambda>i. ?P (?w ! ((nat ?c + i) mod length ?w))) [0..<length ?w] of
       None \<Rightarrow> (?c + int (length ?w), Inl NoHealthyTargets)
     | Some i \<Rightarrow> (?c + int i + 1, Inr (?w ! ((nat ?c + i) mod length ?w))))" (is "_ = ?rhs")
    using next_healthy_loop_find [OF w c, of "length ?w"] assms(2) by (simp add: cursor_room_def)
  have e': "e' = e\<lparr>en_rr_cursor := fst ?rhs\<rparr>" and r: "r = snd ?rhs"
    using assms(3) w loop
    by (auto simp: nextHealthyDumb_def Snapshot_Weighted_def Let_def split: prod.splits)
  have none: "find (\<lambda>i. ?P (?w ! ((nat ?c + i) mod length ?w))) [0..<length ?w] = None
      \<longleftrightarrow> (\<forall>x \<in> set (sn_egresses ?s). \<not> ?P x)"
    using find_rotation_None [OF w] set_weighted [OF s] by simp
  show "is_ok r \<longleftrightarrow> (\<exists>eg \<in> set (sn_egresses ?s). engine_healthy e eg)"
    using r none by (auto simp: engine_healthy_def split: option.splits)
  show "r = Inr eg \<Longrightarrow> eg \<in> set (sn_egresses ?s) \<and> engine_healthy e eg"
  proof -
    assume "r = Inr eg"
    with r obtain i where "find (\<lambda>i. ?P (?w ! ((nat ?c + i) mod length ?w))) [0..<length ?w] = Some i"
      and eg: "eg = ?w ! ((nat ?c + i) mod length ?w)" by (auto split: option.splits)
    then have "?P eg" by (auto simp: find_Some_iff)
    moreover have "eg \<in> set ?w" using eg w by simp
    ultimately show ?thesis using set_weighted [OF s] by (simp add: engine_healthy_def)
  qed
  show "same_setup e e' \<and> en_flow_entries e' = en_flow_entries e \<and> en_metrics e' = en_metrics e"
    by (simp add: e' same_setup_def)
  show "?c \<le> en_rr_cursor e'" "en_rr_cursor e' \<le> ?c + int (length ?w)"
    by (auto simp: e' find_Some_iff split: option.splits)
qed

section \<open>Selection\<close>

definition flow_id :: "decision_request \<Rightarrow> string" where
  "flow_id req = (if FlowKey_empty (dr_flow_key req) then [] else FlowKey_String (dr_flow_key req))"

lemma FlowKey_String_not_Nil [simp]: "FlowKey_String k \<noteq> []"
  by (simp add: FlowKey_String_def)

lemma flow_id_Nil [simp]: "flow_id req = [] \<longleftrightarrow> FlowKey_empty (dr_flow_key req)"
  by (simp add: flow_id_def)

definition eff_time :: "gotime \<Rightarrow> gotime \<Rightarrow> gotime" where
  "eff_time clock now = (if is_zero_time now then clock else now)"

text \<open>The flow table after a decision for the flow, starting from the table \<open>m\<close>.\<close>

definition recorded ::
  "string \<Rightarrow> decision \<Rightarrow> (string, flow_entry) gomap \<Rightarrow> (string, flow_entry) gomap" where
  "recorded flowID d m =
     (if flowID \<noteq> [] then gm_put flowID \<lparr>fe_egress_id = eg_id (de_egress d), fe_expires_at = de_expires_at d\<rparr> m
      else m)"

lemma recordDecisionLocked_frame:
  assumes "recordDecisionLocked e req eg reason sticky now flowID = (e', d)"
  shows "same_setup e e'" and "en_flow_entries e' = recorded flowID d (en_flow_entries e)"
    and "de_egress d = eg" and "de_expires_at d = now + en_flow_idle e" and "de_sticky d = sticky"
    and "en_rr_cursor e' = en_rr_cursor e" and "de_fallback_reason d = reason"
    and "de_flow_key d = dr_flow_key req"
  using assms by (auto simp: recordDecisionLocked_def Let_def same_setup_def recorded_def)

lemma same_setup_trans: "same_setup e f \<Longrightarrow> same_setup f g \<Longrightarrow> same_setup e g"
  by (simp add: same_setup_def)

lemma select_fresh_spec:
  assumes "engine_ok e" and "cursor_room e"
    and "select_fresh e (engine_snapshot e) req now flowID = (e', r)"
  shows "same_setup e e' \<and> en_rr_cursor e \<le> en_rr_cursor e'
      \<and> en_rr_cursor e' \<le> en_rr_cursor e + int (length (sn_weighted (engine_snapshot e)))"
    and "is_ok r \<longleftrightarrow> (\<exists>eg \<in> set (sn_egresses (engine_snapshot e)). engine_healthy e eg)"
    and "r = Inl err \<Longrightarrow> en_flow_entries e' = en_flow_entries e"
    and "r = Inr d \<Longrightarrow> de_egress d \<in> set (sn_egresses (engine_snapshot e)) \<and> engine_healthy e (de_egress d)
      \<and> \<not> de_sticky d \<and> de_expires_at d = now + en_flow_idle e
      \<and> en_flow_entries e' = recorded flowID d (en_flow_entries e)"
proof -
  let ?s = "engine_snapshot e"
  have s: "snapshot_ok ?s" using assms(1) by (simp add: engine_ok_def)
  let ?lab = "if bc_mode (en_cfg e) = ModeLabeled then mappedEgress e req else None"
  let ?found = "Option.bind ?lab (Snapshot_Lookup (Some ?s))"
  have goal: "(same_setup e e' \<and> en_rr_cursor e \<le> en_rr_cursor e'
      \<and> en_rr_cursor e' \<le> en_rr_cursor e + int (length (sn_weighted ?s)))
    \<and> (is_ok r \<longleftrightarrow> (\<exists>eg \<in> set (sn_egresses ?s). engine_healthy e eg))
    \<and> (\<forall>err. r = Inl err \<longrightarrow> en_flow_entries e' = en_flow_entries e)
    \<and> (\<forall>d. r = Inr d \<longrightarrow> de_egress d \<in> set (sn_egresses ?s) \<and> engine_healthy e (de_egress d)
      \<and> \<not> de_sticky d \<and> de_expires_at d = now + en_flow_idle e
      \<and> en_flow_entries e' = recorded flowID d (en_flow_entries e))"
  proof (cases "\<exists>eg. ?found = Some eg \<and> Health_IsHealthy (Some (en_health e)) eg")
    case True
    then obtain eg where f: "?found = Some eg" and h: "Health_IsHealthy (Some (en_health e)) eg" by blast
    then have mem: "eg \<in> set (sn_egresses ?s)"
      using Snapshot_Lookup_iff [OF s] by (auto simp: bind_eq_Some_conv)
    obtain f' d where rec: "recordDecisionLocked e req eg [] False now flowID = (f', d)" by fastforce
    with f h assms(3) have "e' = f'" "r = Inr d" by (simp_all add: select_fresh_def Let_def)
    with recordDecisionLocked_frame [OF rec] mem h show ?thesis
      by (auto simp: engine_healthy_def)
  next
    case False
    obtain e1 q where n: "nextHealthyDumb e ?s = (e1, q)" by fastforce
    note ok = nextHealthyDumb_ok [OF assms(1,2) n]
    define reason where "reason = (if ?found = None then (if ?lab = None then [] else ''labeled-target-missing'')
      else ''labeled-target-unhealthy'')"
    have sf: "select_fresh e ?s req now flowID = (case q of Inl err \<Rightarrow> (e1, Inl err)
        | Inr eg \<Rightarrow> (case recordDecisionLocked e1 req eg reason False now flowID of (e2, d) \<Rightarrow> (e2, Inr d)))"
      using False n
      by (auto simp: select_fresh_def Let_def reason_def split: option.splits sum.splits prod.splits)
    show ?thesis
    proof (cases q)
      case (Inl err)
      with sf assms(3) have "e' = e1" "r = Inl err" by simp_all
      with ok Inl show ?thesis by auto
    next
      case (Inr eg)
      obtain e2 d where rec: "recordDecisionLocked e1 req eg reason False now flowID = (e2, d)" by fastforce
      with sf Inr assms(3) have "e' = e2" "r = Inr d" by simp_all
      with recordDecisionLocked_frame [OF rec] ok Inr show ?thesis
        by (auto simp: same_setup_def)
    qed
  qed
  show "same_setup e e' \<and> en_rr_cursor e \<le> en_rr_cursor e'
      \<and> en_rr_cursor e' \<le> en_rr_cursor e + int (length (sn_weighted ?s))"
    "is_ok r \<longleftrightarrow> (\<exists>eg \<in> set (sn_egresses ?s). engine_healthy e eg)"
    "r = Inl err \<Longrightarrow> en_flow_entries e' = en_flow_entries e"
    "r = Inr d \<Longrightarrow> de_egress d \<in> set (sn_egresses ?s) \<and> engine_healthy e (de_egress d)
      \<and> \<not> de_sticky d \<and> de_expires_at d = now + en_flow_idle e
      \<and> en_flow_entries e' = recorded flowID d (en_flow_entries e)"
    using goal by blast+
qed

text \<open>The egress an unexpired flow entry points at, if it is still published and healthy.\<close>

definition live_entries :: "engine \<Rightarrow> gotime \<Rightarrow> (string, flow_entry) gomap" where
  "live_entries e now = filter (\<lambda>(k, entry). now < fe_expires_at entry) (en_flow_entries e)"

definition sticky_target :: "engine \<Rightarrow> decision_request \<Rightarrow> gotime \<Rightarrow> egress_target option" where
  "sticky_target e req now =
     (if flow_id req = [] then None
      else case gm_get (live_entries e now) (flow_id req) of
        None \<Rightarrow> None
      | Some entry \<Rightarrow>
          (case Snapshot_Lookup (Some (engine_snapshot e)) (fe_egress_id entry) of
             None \<Rightarrow> None
           | Some eg \<Rightarrow> if engine_healthy e eg then Some eg else None))"

lemma live_entries_get:
  "gm_wf (en_flow_entries e) \<Longrightarrow> gm_get (live_entries e now) k =
     (case gm_get (en_flow_entries e) k of None \<Rightarrow> None
      | Some entry \<Rightarrow> if now < fe_expires_at entry then Some entry else None)"
  unfolding live_entries_def by (subst gm_get_filter) (auto split: option.splits)

lemma expireFlows_sel:
  "en_flow_entries (expireFlows e now) = live_entries e now" "same_setup e (expireFlows e now)"
  "en_rr_cursor (expireFlows e now) = en_rr_cursor e" "engine_snapshot (expireFlows e now) = engine_snapshot e"
  "en_registry (expireFlows e now) = en_registry e" "en_health (expireFlows e now) = en_health e"
  "en_flow_idle (expireFlows e now) = en_flow_idle e" "en_cfg (expireFlows e now) = en_cfg e"
  "en_label_map (expireFlows e now) = en_label_map e"
  by (simp_all add: expireFlows_def live_entries_def same_setup_def engine_snapshot_def)

text \<open>The state in which \<open>select_fresh\<close> runs: expired entries and the unusable entry are gone.\<close>

definition fresh_state :: "engine \<Rightarrow> decision_request \<Rightarrow> gotime \<Rightarrow> engine" where
  "fresh_state e req now =
     (let e1 = expireFlows e now in
      if flow_id req \<noteq> [] \<and> gm_get (live_entries e now) (flow_id req) \<noteq> None
      then e1\<lparr>en_flow_entries := gm_del (flow_id req) (live_entries e now)\<rparr> else e1)"

lemma fresh_state_sel:
  "same_setup e (fresh_state e req now)" "en_rr_cursor (fresh_state e req now) = en_rr_cursor e"
  "engine_snapshot (fresh_state e req now) = engine_snapshot e"
  "engine_healthy (fresh_state e req now) = engine_healthy e"
  "en_flow_idle (fresh_state e req now) = en_flow_idle e"
  "en_cfg (fresh_state e req now) = en_cfg e" "en_label_map (fresh_state e req now) = en_label_map e"
  by (auto simp: fresh_state_def Let_def same_setup_def expireFlows_sel engine_snapshot_def
      engine_healthy_def fun_eq_iff)

lemma fresh_state_entries:
  "k \<noteq> flow_id req \<Longrightarrow>
     gm_get (en_flow_entries (fresh_state e req now)) k = gm_get (live_entries e now) k"
  by (simp add: fresh_state_def Let_def expireFlows_sel gm_simps)

lemma fresh_state_ok: "engine_ok e \<Longrightarrow> engine_ok (fresh_state e req now)"
  unfolding engine_ok_def fresh_state_sel
  by (auto simp: fresh_state_def Let_def expireFlows_sel live_entries_def intro: gm_wf_filter gm_wf_del)

lemma Select_cases:
  assumes "engine_ok e"
  shows "Select clock e req now0 =
    (let now = eff_time clock now0 in
     case sticky_target e req now of
       Some eg \<Rightarrow> (case recordDecisionLocked (expireFlows e now) req eg [] True now (flow_id req) of
           (e', d) \<Rightarrow> (e', Inr d))
     | None \<Rightarrow> select_fresh (fresh_state e req now) (engine_snapshot e) req now (flow_id req))"
proof -
  define now where "now = eff_time clock now0"
  obtain s where s: "er_current (en_registry e) = Some s" "engine_snapshot e = s"
    using assms by (auto simp: engine_ok_def engine_snapshot_def)
  have wf: "gm_wf (en_flow_entries e)" using assms by (simp add: engine_ok_def)
  have exp: "now < fe_expires_at entry" if "gm_get (live_entries e now) k = Some entry" for k entry
    using that live_entries_get [OF wf] by (auto split: option.splits if_splits)
  show ?thesis
    unfolding Select_def eff_time_def [symmetric] now_def [symmetric] Let_def sticky_target_def
      fresh_state_def flow_id_def Registry_Snapshot_def
    using s by (auto simp: expireFlows_sel engine_healthy_def dest: exp split: option.splits)
qed

lemma engine_ok_same:
  assumes "engine_ok e" and "same_setup e e'" and "en_rr_cursor e \<le> en_rr_cursor e'"
    and "gm_wf (en_flow_entries e')"
  shows "engine_ok e'"
  using assms by (auto simp: engine_ok_def same_setup_def engine_snapshot_def)

lemma gm_wf_recorded: "gm_wf m \<Longrightarrow> gm_wf (recorded f d m)"
  by (auto simp: recorded_def)

lemma live_entries_wf: "engine_ok e \<Longrightarrow> gm_wf (live_entries e now)"
  by (simp add: engine_ok_def live_entries_def gm_wf_filter)

lemma Select_when_sticky:
  assumes ok: "engine_ok e" and sel: "Select clock e req now0 = (e', r)"
    and st: "sticky_target e req (eff_time clock now0) = Some eg"
  shows "\<exists>d. r = Inr d \<and> de_egress d = eg \<and> de_sticky d
      \<and> de_expires_at d = eff_time clock now0 + en_flow_idle e
      \<and> en_flow_entries e' = recorded (flow_id req) d (live_entries e (eff_time clock now0))"
    and "same_setup e e'" and "en_rr_cursor e' = en_rr_cursor e"
    and "eg \<in> set (sn_egresses (engine_snapshot e))" and "engine_healthy e eg" and "flow_id req \<noteq> []"
proof -
  let ?now = "eff_time clock now0"
  have s: "snapshot_ok (engine_snapshot e)" using ok by (simp add: engine_ok_def)
  obtain f d where rec: "recordDecisionLocked (expireFlows e ?now) req eg [] True ?now (flow_id req) = (f, d)"
    by fastforce
  with sel st have e': "e' = f" and r: "r = Inr d"
    by (simp_all add: Select_cases [OF ok] Let_def)
  note fr = recordDecisionLocked_frame [OF rec, unfolded expireFlows_sel]
  show "\<exists>d. r = Inr d \<and> de_egress d = eg \<and> de_sticky d
      \<and> de_expires_at d = ?now + en_flow_idle e
      \<and> en_flow_entries e' = recorded (flow_id req) d (live_entries e ?now)"
    using r fr(2,3,4,5) e' by simp
  show "same_setup e e'" using same_setup_trans [OF expireFlows_sel(2) fr(1)] e' by simp
  show "en_rr_cursor e' = en_rr_cursor e" using fr(6) e' by simp
  show "eg \<in> set (sn_egresses (engine_snapshot e))" "engine_healthy e eg" "flow_id req \<noteq> []"
    using st Snapshot_Lookup_iff [OF s]
    by (auto simp: sticky_target_def split: option.splits if_splits)
qed

lemma Select_when_fresh:
  assumes ok: "engine_ok e" and room: "cursor_room e" and sel: "Select clock e req now0 = (e', r)"
    and st: "sticky_target e req (eff_time clock now0) = None"
  shows "same_setup e e'" and "en_rr_cursor e \<le> en_rr_cursor e'"
    and "en_rr_cursor e' \<le> en_rr_cursor e + int (length (sn_weighted (engine_snapshot e)))"
    and "is_ok r \<longleftrightarrow> (\<exists>eg \<in> set (sn_egresses (engine_snapshot e)). engine_healthy e eg)"
    and "en_flow_entries e' = (let m = en_flow_entries (fresh_state e req (eff_time clock now0)) in
      case r of Inl _ \<Rightarrow> m | Inr d \<Rightarrow> recorded (flow_id req) d m)"
    and "r = Inr d \<Longrightarrow> de_egress d \<in> set (sn_egresses (engine_snapshot e)) \<and> engine_healthy e (de_egress d)
      \<and> \<not> de_sticky d \<and> de_expires_at d = eff_time clock now0 + en_flow_idle e"
proof -
  let ?now = "eff_time clock now0" and ?f = "fresh_state e req (eff_time clock now0)"
  have sf: "select_fresh ?f (engine_snapshot ?f) req ?now (flow_id req) = (e', r)"
    using sel st by (simp add: Select_cases [OF ok] Let_def fresh_state_sel)
  have roomf: "cursor_room ?f" using room by (simp add: cursor_room_def fresh_state_sel)
  note sp = select_fresh_spec [OF fresh_state_ok [OF ok] roomf sf, unfolded fresh_state_sel]
  show "same_setup e e'" using same_setup_trans [OF fresh_state_sel(1)] sp(1) by blast
  show "en_rr_cursor e \<le> en_rr_cursor e'"
    "en_rr_cursor e' \<le> en_rr_cursor e + int (length (sn_weighted (engine_snapshot e)))"
    using sp(1) by simp_all
  show "is_ok r \<longleftrightarrow> (\<exists>eg \<in> set (sn_egresses (engine_snapshot e)). engine_healthy e eg)" by (rule sp(2))
  show "en_flow_entries e' = (let m = en_flow_entries ?f in
      case r of Inl _ \<Rightarrow> m | Inr d \<Rightarrow> recorded (flow_id req) d m)"
    using sp(3,4) by (cases r) simp_all
  show "r = Inr d \<Longrightarrow> de_egress d \<in> set (sn_egresses (engine_snapshot e)) \<and> engine_healthy e (de_egress d)
      \<and> \<not> de_sticky d \<and> de_expires_at d = ?now + en_flow_idle e"
    using sp(4) by blast
qed

lemma Select_setup:
  assumes "engine_ok e" and "cursor_room e" and "Select clock e req now0 = (e', r)"
  shows "same_setup e e'" and "engine_ok e'" and "en_rr_cursor e \<le> en_rr_cursor e'"
    and "en_rr_cursor e' \<le> en_rr_cursor e + int (length (sn_weighted (engine_snapshot e)))"
proof -
  have "same_setup e e' \<and> en_rr_cursor e \<le> en_rr_cursor e'
      \<and> en_rr_cursor e' \<le> en_rr_cursor e + int (length (sn_weighted (engine_snapshot e)))
      \<and> gm_wf (en_flow_entries e')"
  proof (cases "sticky_target e req (eff_time clock now0)")
    case None
    have "gm_wf (en_flow_entries (fresh_state e req (eff_time clock now0)))"
      using fresh_state_ok [OF assms(1)] by (simp add: engine_ok_def)
    with Select_when_fresh(1-3,5) [OF assms None] show ?thesis
      by (cases r) (simp_all add: gm_wf_recorded)
  next
    case (Some eg)
    from Select_when_sticky [OF assms(1,3) Some] live_entries_wf [OF assms(1)]
    show ?thesis by (auto simp: gm_wf_recorded)
  qed
  then show "same_setup e e'" "engine_ok e'" "en_rr_cursor e \<le> en_rr_cursor e'"
    "en_rr_cursor e' \<le> en_rr_cursor e + int (length (sn_weighted (engine_snapshot e)))"
    using engine_ok_same [OF assms(1)] by blast+
qed

lemma Select_ok_iff:
  assumes "engine_ok e" and "cursor_room e" and "Select clock e req now0 = (e', r)"
  shows "is_ok r \<longleftrightarrow> (\<exists>eg \<in> set (sn_egresses (engine_snapshot e)). engine_healthy e eg)"
proof (cases "sticky_target e req (eff_time clock now0)")
  case None
  from Select_when_fresh(4) [OF assms None] show ?thesis .
next
  case (Some eg)
  from Select_when_sticky(1,4,5) [OF assms(1,3) Some] show ?thesis by auto
qed

lemma Select_decision:
  assumes "engine_ok e" and "cursor_room e" and "Select clock e req now0 = (e', Inr d)"
  shows "de_egress d \<in> set (sn_egresses (engine_snapshot e))" and "engine_healthy e (de_egress d)"
    and "de_expires_at d = eff_time clock now0 + en_flow_idle e"
    and "flow_id req \<noteq> [] \<Longrightarrow> gm_get (en_flow_entries e') (flow_id req)
      = Some \<lparr>fe_egress_id = eg_id (de_egress d), fe_expires_at = de_expires_at d\<rparr>"
proof -
  have "de_egress d \<in> set (sn_egresses (engine_snapshot e)) \<and> engine_healthy e (de_egress d)
    \<and> de_expires_at d = eff_time clock now0 + en_flow_idle e
    \<and> (flow_id req \<noteq> [] \<longrightarrow> gm_get (en_flow_entries e') (flow_id req)
      = Some \<lparr>fe_egress_id = eg_id (de_egress d), fe_expires_at = de_expires_at d\<rparr>)"
  proof (cases "sticky_target e req (eff_time clock now0)")
    case None
    from Select_when_fresh(5,6) [OF assms None] show ?thesis
      by (simp add: recorded_def gm_simps)
  next
    case (Some eg)
    from Select_when_sticky [OF assms(1,3) Some] show ?thesis
      by (auto simp: recorded_def gm_simps)
  qed
  then show "de_egress d \<in> set (sn_egresses (engine_snapshot e))" "engine_healthy e (de_egress d)"
    "de_expires_at d = eff_time clock now0 + en_flow_idle e"
    "flow_id req \<noteq> [] \<Longrightarrow> gm_get (en_flow_entries e') (flow_id req)
      = Some \<lparr>fe_egress_id = eg_id (de_egress d), fe_expires_at = de_expires_at d\<rparr>" by blast+
qed

lemma Select_other_flow:
  assumes "engine_ok e" and "cursor_room e" and "Select clock e req now0 = (e', r)" and "k \<noteq> flow_id req"
  shows "gm_get (en_flow_entries e') k = gm_get (live_entries e (eff_time clock now0)) k"
proof (cases "sticky_target e req (eff_time clock now0)")
  case None
  from Select_when_fresh(5) [OF assms(1-3) None] assms(4) show ?thesis
    by (cases r) (simp_all add: recorded_def gm_simps fresh_state_entries Let_def)
next
  case (Some eg)
  from Select_when_sticky(1) [OF assms(1,3) Some] assms(4) show ?thesis
    by (auto simp: recorded_def gm_simps)
qed

section \<open>Reachable engines\<close>

text \<open>
  What can happen to an engine after its creation: a selection (while the cursor is at least one round
  away from the end of the 64-bit range), a replacement of the egresses, a health update, a probe
  round.
\<close>

inductive engine_step :: "engine \<Rightarrow> engine \<Rightarrow> bool" where
  step_select: "cursor_room e \<Longrightarrow> Select clock e req now = (e', r) \<Longrightarrow> engine_step e e'"
| step_replace: "Registry_Replace (Some (en_registry e)) egs = (Some reg, r) \<Longrightarrow>
    engine_step e (e\<lparr>en_registry := reg\<rparr>)"
| step_set: "Health_Set (Some (en_health e)) egressID b now err = Some h \<Longrightarrow>
    engine_step e (e\<lparr>en_health := h\<rparr>)"
| step_probe: "Health_ProbeOnce probe (Some (en_health e)) (Registry_Snapshot (Some (en_registry e)))
      (Some (en_metrics e)) now = (Some h, Some m) \<Longrightarrow>
    engine_step e (e\<lparr>en_health := h, en_metrics := m\<rparr>)"

lemma NewEngine_ok: "NewEngine cfg = Inr e \<Longrightarrow> engine_ok e"
proof -
  assume "NewEngine cfg = Inr e"
  then obtain n reg where n: "NormalizeConfig cfg = Inr n" and r: "NewRegistry (bc_egresses n) = Inr reg"
    and e: "en_registry e = reg" "en_rr_cursor e = 0" "en_flow_idle e = bc_flow_idle_timeout n"
      "en_flow_entries e = []"
    by (auto simp: NewEngine_def res_simps)
  from r obtain s where "NewSnapshot (bc_egresses n) = Inr s" "er_current reg = Some s"
    by (auto simp: NewRegistry_def res_simps)
  moreover from n have "0 < bc_flow_idle_timeout n"
    by (auto simp: NormalizeConfig_def Let_def res_simps DefaultFlowIdleTimeout_def second_def
        nsec_per_sec_def split: if_splits prod.splits)
  ultimately show ?thesis
    using e NewSnapshot_snapshot_ok by (auto simp: engine_ok_def engine_snapshot_def)
qed

lemma engine_step_ok: "engine_step e e' \<Longrightarrow> engine_ok e \<Longrightarrow> engine_ok e'"
proof (induction rule: engine_step.induct)
  case (step_select e clock req now e' r)
  then show ?case using Select_setup(2) by blast
next
  case (step_replace e egs reg r)
  then show ?case
    using NewSnapshot_snapshot_ok [of egs]
    by (cases "NewSnapshot egs") (auto simp: Registry_Replace_def engine_ok_def engine_snapshot_def)
qed (simp_all add: engine_ok_def engine_snapshot_def)

lemma engine_reachable_ok: "engine_step\<^sup>*\<^sup>* e0 e \<Longrightarrow> engine_ok e0 \<Longrightarrow> engine_ok e"
  by (induction rule: rtranclp_induct) (auto intro: engine_step_ok)

section \<open>Runs of selections\<close>

fun run_selects ::
  "gotime \<Rightarrow> engine \<Rightarrow> (decision_request \<times> gotime) list \<Rightarrow> engine \<times> (balancer_error + decision) list" where
  "run_selects clock e [] = (e, [])"
| "run_selects clock e ((req, now) # xs) =
     (let (e1, r) = Select clock e req now; (e2, rs) = run_selects clock e1 xs in (e2, r # rs))"

abbreviation round_length :: "engine \<Rightarrow> int" where
  "round_length e \<equiv> int (length (sn_weighted (engine_snapshot e)))"

lemma same_setup_snapshot:
  "same_setup e f \<Longrightarrow> engine_snapshot f = engine_snapshot e"
  "same_setup e f \<Longrightarrow> engine_healthy f = engine_healthy e"
  by (auto simp: same_setup_def engine_snapshot_def engine_healthy_def fun_eq_iff)

lemma run_room:
  assumes "engine_ok e" and "en_rr_cursor e + int (Suc n) * round_length e \<le> max_int64"
  shows "cursor_room e"
    and "Select clock e req now = (e1, r) \<Longrightarrow> en_rr_cursor e1 + int n * round_length e1 \<le> max_int64"
proof -
  have eq: "int (Suc n) * round_length e = round_length e + int n * round_length e"
    by (simp add: algebra_simps)
  moreover have "0 \<le> int n * round_length e" by simp
  ultimately show room: "cursor_room e" using assms(2) unfolding cursor_room_def by linarith
  assume sel: "Select clock e req now = (e1, r)"
  note st = Select_setup [OF assms(1) room sel]
  show "en_rr_cursor e1 + int n * round_length e1 \<le> max_int64"
    using st(4) assms(2) eq unfolding same_setup_snapshot(1) [OF st(1)] by linarith
qed

lemma run_selects_setup:
  assumes "engine_ok e" and "en_rr_cursor e + int (length xs) * round_length e \<le> max_int64"
    and "run_selects clock e xs = (e', rs)"
  shows "same_setup e e' \<and> engine_ok e'
    \<and> en_rr_cursor e' \<le> en_rr_cursor e + int (length xs) * round_length e"
  using assms
proof (induction xs arbitrary: e rs)
  case Nil
  then show ?case by (simp add: same_setup_def)
next
  case (Cons x xs)
  obtain req now where x: "x = (req, now)" by (cases x)
  obtain e1 r where sel: "Select clock e req now = (e1, r)" by fastforce
  obtain rs1 where run: "run_selects clock e1 xs = (e', rs1)"
    using Cons.prems(3) x sel by (auto split: prod.splits)
  have bound: "en_rr_cursor e + int (Suc (length xs)) * round_length e \<le> max_int64"
    using Cons.prems(2) by simp
  note room = run_room(1) [OF Cons.prems(1) bound]
  note st = Select_setup [OF Cons.prems(1) room sel]
  note ss = same_setup_snapshot [OF st(1)]
  from Cons.IH [OF st(2) run_room(2) [OF Cons.prems(1) bound sel] run] st ss show ?case
    by (auto simp: algebra_simps intro: same_setup_trans)
qed

lemma run_selects_keep_flow:
  assumes "engine_ok e" and "en_rr_cursor e + int (length xs) * round_length e \<le> max_int64"
    and "run_selects clock e xs = (e', rs)"
    and "gm_get (en_flow_entries e) k = Some entry"
    and "\<And>req now. (req, now) \<in> set xs \<Longrightarrow> flow_id req \<noteq> k \<and> eff_time clock now < fe_expires_at entry"
  shows "gm_get (en_flow_entries e') k = Some entry"
  using assms
proof (induction xs arbitrary: e rs)
  case Nil
  then show ?case by simp
next
  case (Cons x xs)
  obtain req now where x: "x = (req, now)" by (cases x)
  obtain e1 r where sel: "Select clock e req now = (e1, r)" by fastforce
  obtain rs1 where run: "run_selects clock e1 xs = (e', rs1)"
    using Cons.prems(3) x sel by (auto split: prod.splits)
  have bound: "en_rr_cursor e + int (Suc (length xs)) * round_length e \<le> max_int64"
    using Cons.prems(2) by simp
  note room = run_room(1) [OF Cons.prems(1) bound]
  note st = Select_setup [OF Cons.prems(1) room sel]
  note ss = same_setup_snapshot [OF st(1)]
  have wf: "gm_wf (en_flow_entries e)" using Cons.prems(1) by (simp add: engine_ok_def)
  have "k \<noteq> flow_id req" "eff_time clock now < fe_expires_at entry"
    using Cons.prems(5) [of req now] x by auto
  with Select_other_flow [OF Cons.prems(1) room sel] Cons.prems(4)
  have kept: "gm_get (en_flow_entries e1) k = Some entry"
    by (simp add: live_entries_get [OF wf])
  show ?case
    by (rule Cons.IH [OF st(2) run_room(2) [OF Cons.prems(1) bound sel] run kept])
      (rule Cons.prems(5), simp)
qed

section \<open>Fair rotation\<close>

lemma mset_rotate: "mset (rotate n xs) = mset xs"
  by (simp add: rotate_drop_take) (metis append_take_drop_id mset_append union_commute)

lemma rotation_mset: "mset (map (\<lambda>i. w ! ((c + i) mod length w)) [0..<length w]) = mset w"
proof -
  have "map (\<lambda>i. w ! ((c + i) mod length w)) [0..<length w] = rotate c w"
    by (rule nth_equalityI) (simp_all add: nth_rotate)
  then show ?thesis by (simp add: mset_rotate)
qed

lemma count_weighted:
  assumes "distinct (map eg_id es)" and "eg \<in> set es"
  shows "count (mset (concat (map (\<lambda>e. replicate (nat (eg_weight e)) e) es))) eg = nat (eg_weight eg)"
proof -
  have absent: "count (mset (concat (map (\<lambda>e. replicate (nat (eg_weight e)) e) es))) x = 0"
    if "x \<notin> set es" for x and es :: "egress_target list"
    using that by (induction es) auto
  from assms show ?thesis
  proof (induction es)
    case Nil
    then show ?case by simp
  next
    case (Cons e es)
    show ?case
    proof (cases "e = eg")
      case True
      with Cons.prems(1) have "eg \<notin> set es" by auto
      with absent True show ?thesis by simp
    next
      case False
      with Cons show ?thesis by simp
    qed
  qed
qed

lemma nextHealthyDumb_all_healthy:
  assumes "engine_ok e" and "cursor_room e"
    and "\<And>eg. eg \<in> set (sn_egresses (engine_snapshot e)) \<Longrightarrow> engine_healthy e eg"
  shows "nextHealthyDumb e (engine_snapshot e) = (e\<lparr>en_rr_cursor := en_rr_cursor e + 1\<rparr>,
    Inr (sn_weighted (engine_snapshot e) ! (nat (en_rr_cursor e) mod length (sn_weighted (engine_snapshot e)))))"
proof -
  let ?w = "sn_weighted (engine_snapshot e)" and ?c = "en_rr_cursor e"
  have s: "snapshot_ok (engine_snapshot e)" and c: "0 \<le> ?c" using assms(1) by (auto simp: engine_ok_def)
  have w: "?w \<noteq> []" by (rule weighted_not_Nil [OF s])
  then have len: "[0..<length ?w] = 0 # [1..<length ?w]" by (simp add: upt_conv_Cons)
  have "?w ! (nat ?c mod length ?w) \<in> set (sn_egresses (engine_snapshot e))"
    using w set_weighted [OF s] by (metis length_greater_0_conv mod_less_divisor nth_mem)
  with assms(3) have "Health_IsHealthy (Some (en_health e)) (?w ! (nat ?c mod length ?w))"
    by (simp add: engine_healthy_def)
  then have "find (\<lambda>i. Health_IsHealthy (Some (en_health e)) (?w ! ((nat ?c + i) mod length ?w))) [0..<length ?w] = Some 0"
    by (simp add: len)
  with next_healthy_loop_find [OF w c, of "length ?w" "en_health e"] assms(2) w show ?thesis
    by (simp add: nextHealthyDumb_def Snapshot_Weighted_def Let_def cursor_room_def)
qed

lemma Select_dumb:
  assumes "engine_ok e" and "cursor_room e" and "bc_mode (en_cfg e) \<noteq> ModeLabeled"
    and "\<And>eg. eg \<in> set (sn_egresses (engine_snapshot e)) \<Longrightarrow> engine_healthy e eg"
    and "FlowKey_empty (dr_flow_key req)"
  shows "\<exists>e' d. Select clock e req now = (e', Inr d) \<and> en_rr_cursor e' = en_rr_cursor e + 1
    \<and> de_egress d = sn_weighted (engine_snapshot e) ! (nat (en_rr_cursor e) mod length (sn_weighted (engine_snapshot e)))"
proof -
  let ?now = "eff_time clock now" and ?f = "fresh_state e req (eff_time clock now)"
  have st: "sticky_target e req ?now = None" using assms(5) by (simp add: sticky_target_def)
  have okf: "engine_ok ?f" by (rule fresh_state_ok [OF assms(1)])
  have roomf: "cursor_room ?f" using assms(2) by (simp add: cursor_room_def fresh_state_sel)
  have all: "engine_healthy ?f eg" if "eg \<in> set (sn_egresses (engine_snapshot ?f))" for eg
    using that assms(4) by (simp add: fresh_state_sel)
  obtain e' d where rec: "recordDecisionLocked (?f\<lparr>en_rr_cursor := en_rr_cursor e + 1\<rparr>) req
      (sn_weighted (engine_snapshot e) ! (nat (en_rr_cursor e) mod length (sn_weighted (engine_snapshot e))))
      [] False ?now (flow_id req) = (e', d)" by fastforce
  have "Select clock e req now = (e', Inr d)"
    using st assms(3) nextHealthyDumb_all_healthy [OF okf roomf all] rec
    by (simp add: Select_cases [OF assms(1)] Let_def select_fresh_def fresh_state_sel)
  with recordDecisionLocked_frame(3,6) [OF rec] show ?thesis by simp
qed

lemma run_selects_dumb:
  assumes "engine_ok e" and "en_rr_cursor e + int (length xs) * round_length e \<le> max_int64"
    and "bc_mode (en_cfg e) \<noteq> ModeLabeled"
    and "\<And>eg. eg \<in> set (sn_egresses (engine_snapshot e)) \<Longrightarrow> engine_healthy e eg"
    and "\<And>p. p \<in> set xs \<Longrightarrow> FlowKey_empty (dr_flow_key (fst p))"
  shows "\<exists>e' ds. run_selects clock e xs = (e', map Inr ds) \<and> map de_egress ds =
    map (\<lambda>i. sn_weighted (engine_snapshot e) ! ((nat (en_rr_cursor e) + i) mod length (sn_weighted (engine_snapshot e))))
      [0..<length xs]"
  using assms
proof (induction xs arbitrary: e)
  case Nil
  then show ?case by simp
next
  case (Cons x xs)
  obtain req now where x: "x = (req, now)" by (cases x)
  let ?w = "sn_weighted (engine_snapshot e)" and ?c = "en_rr_cursor e"
  have bound: "en_rr_cursor e + int (Suc (length xs)) * round_length e \<le> max_int64"
    using Cons.prems(2) by simp
  note room = run_room(1) [OF Cons.prems(1) bound]
  have fk: "FlowKey_empty (dr_flow_key req)" using Cons.prems(5) [of x] x by simp
  from Select_dumb [OF Cons.prems(1) room Cons.prems(3,4) fk, of clock now] obtain e1 d where
    sel: "Select clock e req now = (e1, Inr d)" and c1: "en_rr_cursor e1 = ?c + 1"
    and d: "de_egress d = ?w ! (nat ?c mod length ?w)" by blast
  note st = Select_setup [OF Cons.prems(1) room sel]
  note ss = same_setup_snapshot [OF st(1)]
  have mode: "bc_mode (en_cfg e1) \<noteq> ModeLabeled" using st(1) Cons.prems(3) by (simp add: same_setup_def)
  have all: "engine_healthy e1 eg" if "eg \<in> set (sn_egresses (engine_snapshot e1))" for eg
    using that Cons.prems(4) ss by simp
  have "\<exists>e' ds. run_selects clock e1 xs = (e', map Inr ds) \<and> map de_egress ds =
    map (\<lambda>i. sn_weighted (engine_snapshot e1) ! ((nat (en_rr_cursor e1) + i) mod length (sn_weighted (engine_snapshot e1))))
      [0..<length xs]"
    by (rule Cons.IH [OF st(2) run_room(2) [OF Cons.prems(1) bound sel] mode all])
      (assumption, rule Cons.prems(5), simp)
  then obtain e' ds where run: "run_selects clock e1 xs = (e', map Inr ds)"
    and ds: "map de_egress ds = map (\<lambda>i. ?w ! ((nat (?c + 1) + i) mod length ?w)) [0..<length xs]"
    using ss c1 by auto
  have "0 \<le> ?c" using Cons.prems(1) by (simp add: engine_ok_def)
  then have c: "nat (?c + 1) = Suc (nat ?c)" by simp
  have "map de_egress (d # ds) = map (\<lambda>i. ?w ! ((nat ?c + i) mod length ?w)) (0 # map Suc [0..<length xs])"
    using d ds c by simp
  moreover have "0 # map Suc [0..<length xs] = [0..<length (x # xs)]"
    by (simp add: map_Suc_upt upt_conv_Cons del: upt_Suc)
  moreover have "run_selects clock e (x # xs) = (e', map Inr (d # ds))"
    using x sel run by simp
  ultimately show ?case by metis
qed

section \<open>Properties\<close>

text \<open>
  C2. On every engine reached from \<open>NewEngine\<close> by selections, egress replacements, health updates and
  probe rounds, with the cursor more than one round from the end of the 64-bit range, \<open>Select\<close> succeeds
  exactly when some egress of the published snapshot is healthy. The egress it returns is then a healthy
  one of that snapshot.
\<close>

theorem Select_correct:
  assumes "NewEngine cfg = Inr e0" and "engine_step\<^sup>*\<^sup>* e0 e" and "cursor_room e"
    and "Select clock e req now = (e', r)"
  shows "(is_ok r \<longleftrightarrow> (\<exists>eg \<in> set (sn_egresses (engine_snapshot e)). engine_healthy e eg))
    \<and> (\<forall>d. r = Inr d \<longrightarrow> de_egress d \<in> set (sn_egresses (engine_snapshot e)) \<and> engine_healthy e (de_egress d))"
proof -
  have ok: "engine_ok e" by (rule engine_reachable_ok [OF assms(2) NewEngine_ok [OF assms(1)]])
  from Select_ok_iff [OF ok assms(3,4)] Select_decision(1,2) [OF ok assms(3)] assms(4)
  show ?thesis by blast
qed

text \<open>
  C34. Flows are sticky. After a decision for a flow, any number of selections for other flows may
  follow; a selection for the same flow before the entry expires returns the same egress and marks the
  decision as sticky. (No health update or egress replacement comes in between.)
\<close>

theorem Select_sticky:
  assumes "NewEngine cfg = Inr e0" and "engine_step\<^sup>*\<^sup>* e0 e"
    and "en_rr_cursor e + int (length others + 2) * round_length e \<le> max_int64"
    and "\<not> FlowKey_empty (dr_flow_key req)"
    and "Select clock e req now = (e1, Inr d)"
    and "run_selects clock e1 others = (e2, rs)"
    and "\<And>q t. (q, t) \<in> set others \<Longrightarrow> flow_id q \<noteq> flow_id req \<and> eff_time clock t < de_expires_at d"
    and "flow_id req' = flow_id req" and "eff_time clock now' < de_expires_at d"
  shows "\<exists>e3 d'. Select clock e2 req' now' = (e3, Inr d') \<and> de_egress d' = de_egress d \<and> de_sticky d'"
proof -
  have ok: "engine_ok e" by (rule engine_reachable_ok [OF assms(2) NewEngine_ok [OF assms(1)]])
  have b: "en_rr_cursor e + int (Suc (Suc (length others))) * round_length e \<le> max_int64"
    using assms(3) by simp
  note room = run_room(1) [OF ok b]
  note st = Select_setup [OF ok room assms(5)]
  note dec = Select_decision [OF ok room assms(5)]
  have b1: "en_rr_cursor e1 + int (Suc (length others)) * round_length e1 \<le> max_int64"
    by (rule run_room(2) [OF ok b assms(5)])
  have bo: "en_rr_cursor e1 + int (length others) * round_length e1 \<le> max_int64"
    using b1 by (simp add: algebra_simps)
  note run = run_selects_setup [OF st(2) bo assms(6)]
  have entry: "gm_get (en_flow_entries e1) (flow_id req)
      = Some \<lparr>fe_egress_id = eg_id (de_egress d), fe_expires_at = de_expires_at d\<rparr>"
    using dec(4) assms(4) by simp
  have kept: "gm_get (en_flow_entries e2) (flow_id req)
      = Some \<lparr>fe_egress_id = eg_id (de_egress d), fe_expires_at = de_expires_at d\<rparr>"
    by (rule run_selects_keep_flow [OF st(2) bo assms(6) entry]) (use assms(7) in auto)
  have ok2: "engine_ok e2" and ss: "same_setup e e2" using run same_setup_trans [OF st(1)] by blast+
  have s: "snapshot_ok (engine_snapshot e)" using ok by (simp add: engine_ok_def)
  have lk: "Snapshot_Lookup (Some (engine_snapshot e2)) (eg_id (de_egress d)) = Some (de_egress d)"
    using Snapshot_Lookup_iff [OF s] dec(1) by (simp add: same_setup_snapshot [OF ss])
  have wf2: "gm_wf (en_flow_entries e2)" using ok2 by (simp add: engine_ok_def)
  have live: "gm_get (live_entries e2 (eff_time clock now')) (flow_id req)
      = Some \<lparr>fe_egress_id = eg_id (de_egress d), fe_expires_at = de_expires_at d\<rparr>"
    using kept assms(9) by (simp add: live_entries_get [OF wf2])
  have h: "engine_healthy e2 (de_egress d)" using dec(2) by (simp add: same_setup_snapshot [OF ss])
  have st2: "sticky_target e2 req' (eff_time clock now') = Some (de_egress d)"
    using assms(4) live lk h unfolding sticky_target_def assms(8) by simp
  obtain e3 r3 where sel: "Select clock e2 req' now' = (e3, r3)" by fastforce
  from Select_when_sticky(1) [OF ok2 sel st2] sel show ?thesis by blast
qed


text \<open>
  C36. \<open>NormalizeConfig\<close> is idempotent, so that \<open>NewRuntime\<close>, which normalises the configuration again in
  \<open>PlanConfig\<close> and \<open>NewEngine\<close>, fails exactly when the first normalisation fails, with that error, and
  otherwise its configuration, plan and engine agree.
\<close>

theorem NewRuntime_consistent:
  "(NewRuntime cfg = Inl err \<longleftrightarrow> NormalizeConfig cfg = Inl err)
   \<and> (NewRuntime cfg = Inr rt \<longleftrightarrow> NormalizeConfig cfg = Inr (brt_cfg rt)
        \<and> PlanConfig cfg = Inr (brt_plan rt) \<and> NewEngine cfg = Inr (brt_engine rt) \<and> \<not> brt_started rt)"
proof (cases "NormalizeConfig cfg")
  case (Inl e)
  then show ?thesis by (simp add: NewRuntime_def)
next
  case (Inr n)
  from nc.norm_stable [OF this] have n: "NormalizeConfig n = Inr n" .
  then have "\<exists>x. normalizeEgresses (bc_egresses n) = Inr x"
    by (auto simp: NormalizeConfig_def Let_def res_simps split: if_splits prod.splits)
  then obtain reg where "NewRegistry (bc_egresses n) = Inr reg"
    by (auto simp: NewRegistry_def NewSnapshot_def)
  with Inr n obtain plan eng where p: "PlanConfig n = Inr plan" "PlanConfig cfg = Inr plan"
    and e: "NewEngine n = Inr eng" "NewEngine cfg = Inr eng"
    by (simp add: PlanConfig_def NewEngine_def)
  have "NewRuntime cfg = Inr \<lparr>brt_cfg = n, brt_plan = plan, brt_engine = eng, brt_started = False\<rparr>"
    using Inr p(1) e(1) by (simp add: NewRuntime_def)
  with Inr p(2) e(2) show ?thesis by (cases rt) auto
qed

section \<open>A concrete engine\<close>

definition sample_config :: balancer_config where
  "sample_config = \<lparr>bc_name = ''b1'', bc_overlay_ip = ''10.0.0.1'', bc_mode = [],
     bc_egresses = [\<lparr>eg_id = ''a'', eg_target = ''10.0.0.2:443'', eg_weight = 2\<rparr>,
                    \<lparr>eg_id = ''b'', eg_target = ''10.0.0.3:443'', eg_weight = 1\<rparr>],
     bc_labels = [], bc_health_probe_interval = 0, bc_flow_idle_timeout = 0, bc_metrics_address = []\<rparr>"

definition sample_engine :: engine where
  "sample_engine = projr (NewEngine sample_config)"

definition sample_req :: "string \<Rightarrow> decision_request" where
  "sample_req src = \<lparr>dr_flow_key = \<lparr>fk_source = src, fk_destination = [], fk_protocol = [],
     fk_source_port = 0, fk_destination_port = 0\<rparr>, dr_dscp = 0, dr_fwmark = 0\<rparr>"

lemma sample_engine_new: "NewEngine sample_config = Inr sample_engine"
proof -
  have "\<not> isl (NewEngine sample_config)" by code_simp
  then show ?thesis by (cases "NewEngine sample_config") (simp_all add: sample_engine_def)
qed

lemma sample_engine_facts:
  "sn_egresses (engine_snapshot sample_engine) =
     [\<lparr>eg_id = ''a'', eg_target = ''10.0.0.2:443'', eg_weight = 2\<rparr>,
      \<lparr>eg_id = ''b'', eg_target = ''10.0.0.3:443'', eg_weight = 1\<rparr>]"
  "length (sn_weighted (engine_snapshot sample_engine)) = 3"
  "en_rr_cursor sample_engine = 0" "en_health sample_engine = []"
  "bc_mode (en_cfg sample_engine) \<noteq> ModeLabeled"
  by code_simp+

theorem Select_correct_witness:
  "\<exists>e' d. Select 5 sample_engine (sample_req ''10.1.1.1'') 7 = (e', Inr d)
     \<and> de_egress d \<in> set (sn_egresses (engine_snapshot sample_engine))"
proof -
  obtain e' r where sel: "Select 5 sample_engine (sample_req ''10.1.1.1'') 7 = (e', r)" by fastforce
  have room: "cursor_room sample_engine"
    by (simp add: cursor_room_def sample_engine_facts max_int64_def)
  have "is_ok r" and "\<forall>d. r = Inr d \<longrightarrow> de_egress d \<in> set (sn_egresses (engine_snapshot sample_engine))"
    using Select_correct [OF sample_engine_new rtranclp.rtrancl_refl room sel]
    by (auto simp: sample_engine_facts engine_healthy_def Health_IsHealthy_def)
  with sel show ?thesis by (cases r) auto
qed

theorem Select_sticky_witness:
  "\<exists>e1 d e2 rs e3 d'. Select 5 sample_engine (sample_req ''10.1.1.1'') 7 = (e1, Inr d)
     \<and> run_selects 5 e1 [(sample_req ''10.1.1.2'', 8)] = (e2, rs)
     \<and> Select 5 e2 (sample_req ''10.1.1.1'') 9 = (e3, Inr d') \<and> de_egress d' = de_egress d \<and> de_sticky d'"
proof -
  have ok: "\<not> isl (snd (Select 5 sample_engine (sample_req ''10.1.1.1'') 7))"
    and exp: "de_expires_at (projr (snd (Select 5 sample_engine (sample_req ''10.1.1.1'') 7))) = 30000000007"
    by code_simp+
  obtain e1 d where sel: "Select 5 sample_engine (sample_req ''10.1.1.1'') 7 = (e1, Inr d)"
    and d: "de_expires_at d = 30000000007"
    using ok exp by (cases "Select 5 sample_engine (sample_req ''10.1.1.1'') 7"; cases "snd (Select 5 sample_engine (sample_req ''10.1.1.1'') 7)") auto
  obtain e2 rs where run: "run_selects 5 e1 [(sample_req ''10.1.1.2'', 8)] = (e2, rs)" by fastforce
  have f: "\<not> FlowKey_empty (dr_flow_key (sample_req ''10.1.1.1''))"
    and g: "flow_id (sample_req ''10.1.1.2'') \<noteq> flow_id (sample_req ''10.1.1.1'')" by code_simp+
  have "\<exists>e3 d'. Select 5 e2 (sample_req ''10.1.1.1'') 9 = (e3, Inr d') \<and> de_egress d' = de_egress d \<and> de_sticky d'"
    by (rule Select_sticky [OF sample_engine_new rtranclp.rtrancl_refl _ f sel run _ refl])
      (auto simp: sample_engine_facts max_int64_def g eff_time_def is_zero_time_def d)
  with sel run show ?thesis by blast
qed


end
