(* ===== verification/Ingress.thy ===== *)
theory Ingress
  imports Go_Net Contracts
begin

text \<open>
  \<open>pkg/ingress/types.go\<close>, \<open>registry.go\<close>, \<open>health.go\<close> and \<open>metrics.go\<close>: the routes of the ingress
  role, their normalisation, the registry of the published routes and the health of their targets.
\<close>

section \<open>Routes and configuration\<close>

definition DefaultTenant :: string where "DefaultTenant = ''default''"
definition DefaultHealthProbeInterval :: duration where "DefaultHealthProbeInterval = 5 * second"
definition DefaultUDPIdleTimeout :: duration where "DefaultUDPIdleTimeout = 30 * second"

type_synonym tls_mode = string
definition TLSModeSNIPassthrough :: tls_mode where "TLSModeSNIPassthrough = ''sni_passthrough''"
definition TLSModeTLSTerminate :: tls_mode where "TLSModeTLSTerminate = ''tls_terminate''"
definition TLSModeTCPForward :: tls_mode where "TLSModeTCPForward = ''tcp_forward''"
definition TLSModeUDPForward :: tls_mode where "TLSModeUDPForward = ''udp_forward''"

type_synonym protocol = string
definition ProtocolHTTP :: protocol where "ProtocolHTTP = ''http''"
definition ProtocolWebSocket :: protocol where "ProtocolWebSocket = ''websocket''"
definition ProtocolTCP :: protocol where "ProtocolTCP = ''tcp''"
definition ProtocolUDP :: protocol where "ProtocolUDP = ''udp''"

record route =
  rt_tenant :: string
  rt_hostname :: string
  rt_target :: string
  rt_mode :: tls_mode
  rt_protocol :: protocol
  rt_http3 :: bool

record ingress_config =
  ic_name :: string
  ic_overlay_ip :: string
  ic_public_address :: string
  ic_routes :: "route list"
  ic_health_probe_interval :: duration
  ic_udp_idle_timeout :: duration
  ic_metrics_address :: string
  ic_acme_cache_dir :: string
  ic_acme_email :: string
  ic_enable_http3 :: bool

record ingress_plan =
  ip_name :: string
  ip_overlay_ip :: string
  ip_public_address :: string
  ip_route_count :: nat
  ip_routes :: "route list"
  ip_health_probe_interval :: duration
  ip_udp_idle_timeout :: duration
  ip_metrics_address :: string
  ip_acme_enabled :: bool
  ip_http3_enabled :: bool

datatype ingress_error =
    NameRequired
  | OverlayIPRequired
  | OverlayIPInvalid string
  | BindAddressRequired
  | BindNotHostPort string
  | BindHostInvalid string
  | BindPortInvalid string
  | RoutesRequired
  | RouteAt nat ingress_error
  | HostnameRequired
  | HostnameTooLong string
  | HostnameDot string
  | HostnameLabelLength string
  | HostnameLabelHyphen string string
  | HostnameBadChar string
  | TargetRequired
  | TargetNotHostPort string
  | TargetHostNotIP string
  | TargetPortInvalid string
  | UnsupportedTLSMode string
  | UnsupportedProtocol string
  | SnapshotRouteAt nat ingress_error
  | HostnameOwned string string string
  | SnapshotEmpty
  | RegistryNil
  | HostnameNotAllowed string
  | ErrClientHelloTooShort
  | ErrClientHelloNoSNI
  | NotHandshake nat
  | NotClientHello
  | IndexPanic

definition host_char :: "char \<Rightarrow> bool" where
  "host_char c \<longleftrightarrow> is_lower c \<or> is_digit c \<or> c = CHR ''-''"

fun check_labels :: "string \<Rightarrow> string list \<Rightarrow> ingress_error + unit" where
  "check_labels hostname [] = Inr ()"
| "check_labels hostname (l # ls) =
     (if l = [] \<or> length l > 63 then Inl (HostnameLabelLength hostname)
      else if prefix ''-'' l \<or> suffix ''-'' l then Inl (HostnameLabelHyphen hostname l)
      else if \<not> list_all host_char l then Inl (HostnameBadChar hostname)
      else check_labels hostname ls)"

definition normalizeHostname :: "string \<Rightarrow> ingress_error + string" where
  "normalizeHostname hostname =
     (let host = to_lower (trim_space hostname) in
      if host = [] then Inl HostnameRequired
      else if length host > 253 then Inl (HostnameTooLong hostname)
      else if prefix ''.'' host \<or> suffix ''.'' host then Inl (HostnameDot hostname)
      else rbind (check_labels hostname (split_on CHR ''.'' host)) (\<lambda>_. Inr host))"

definition validateTarget :: "string \<Rightarrow> ingress_error + unit" where
  "validateTarget target =
     (if target = [] then Inl TargetRequired
      else case split_host_port target of
        None \<Rightarrow> Inl (TargetNotHostPort target)
      | Some (host, portText) \<Rightarrow>
          if parse_addr host = None then Inl (TargetHostNotIP host)
          else (case atoi portText of
              None \<Rightarrow> Inl (TargetPortInvalid portText)
            | Some port \<Rightarrow>
                if port < 1 \<or> port > 65535 then Inl (TargetPortInvalid portText) else Inr ()))"

definition validateListenAddress :: "string \<Rightarrow> ingress_error + unit" where
  "validateListenAddress a =
     (if trim_space a = [] then Inl BindAddressRequired
      else case split_host_port a of
        None \<Rightarrow> Inl (BindNotHostPort a)
      | Some (host, portText) \<Rightarrow>
          if host \<noteq> [] \<and> parse_ip host = None \<and> (CHR ''/'' \<in> set host \<or> CHR 0x5C \<in> set host)
          then Inl (BindHostInvalid host)
          else (case atoi portText of
              None \<Rightarrow> Inl (BindPortInvalid portText)
            | Some port \<Rightarrow>
                if port < 1 \<or> port > 65535 then Inl (BindPortInvalid portText) else Inr ()))"

definition validateTLSMode :: "tls_mode \<Rightarrow> ingress_error + unit" where
  "validateTLSMode mode =
     (if mode = TLSModeSNIPassthrough \<or> mode = TLSModeTLSTerminate \<or> mode = TLSModeTCPForward
         \<or> mode = TLSModeUDPForward
      then Inr () else Inl (UnsupportedTLSMode mode))"

definition validateProtocol :: "protocol \<Rightarrow> ingress_error + unit" where
  "validateProtocol p =
     (if p = ProtocolHTTP \<or> p = ProtocolWebSocket \<or> p = ProtocolTCP \<or> p = ProtocolUDP
      then Inr () else Inl (UnsupportedProtocol p))"

definition protocolForMode :: "tls_mode \<Rightarrow> protocol" where
  "protocolForMode mode =
     (if mode = TLSModeUDPForward then ProtocolUDP
      else if mode = TLSModeSNIPassthrough \<or> mode = TLSModeTCPForward then ProtocolTCP
      else ProtocolHTTP)"

definition NormalizeRoute :: "route \<Rightarrow> ingress_error + route" where
  "NormalizeRoute r =
     rbind (normalizeHostname (rt_hostname r)) (\<lambda>hostname.
     rbind (validateTarget (trim_space (rt_target r))) (\<lambda>_.
     let mode = (if rt_mode r = [] then TLSModeTLSTerminate else rt_mode r) in
     rbind (validateTLSMode mode) (\<lambda>_.
     let proto = (if rt_protocol r = [] then protocolForMode mode else rt_protocol r);
         tenant = trim_space (rt_tenant r) in
     rbind (validateProtocol proto) (\<lambda>_.
     Inr \<lparr>rt_tenant = (if tenant = [] then DefaultTenant else tenant), rt_hostname = hostname,
          rt_target = trim_space (rt_target r), rt_mode = mode, rt_protocol = proto,
          rt_http3 = rt_http3 r\<rparr>))))"

section \<open>Snapshots\<close>

record route_snapshot =
  rs_routes :: "route list"
  rs_by_host :: "(string, route) gomap"

fun snapshot_loop ::
  "nat \<Rightarrow> (string, route) gomap \<Rightarrow> route list \<Rightarrow> ingress_error + route list \<times> (string, route) gomap" where
  "snapshot_loop i byHost [] = Inr ([], byHost)"
| "snapshot_loop i byHost (r # rs) =
     rbind (map_err (SnapshotRouteAt i) (NormalizeRoute r)) (\<lambda>n.
       case gm_get byHost (rt_hostname n) of
         Some previous \<Rightarrow> Inl (HostnameOwned (rt_hostname n) (rt_tenant previous) (rt_tenant n))
       | None \<Rightarrow> rbind (snapshot_loop (Suc i) (gm_put (rt_hostname n) n byHost) rs) (\<lambda>(ns, m).
           Inr (n # ns, m)))"

definition NewSnapshot :: "route list \<Rightarrow> ingress_error + route_snapshot" where
  "NewSnapshot routes =
     rbind (snapshot_loop 0 [] routes) (\<lambda>(copied, byHost).
       if copied = [] then Inl SnapshotEmpty else Inr \<lparr>rs_routes = copied, rs_by_host = byHost\<rparr>)"

definition Snapshot_Routes :: "route_snapshot option \<Rightarrow> route list" where
  "Snapshot_Routes s = (case s of None \<Rightarrow> [] | Some sn \<Rightarrow> rs_routes sn)"

text \<open>\<open>stripPort\<close>: with exactly one colon, the part before it.\<close>

definition stripPort :: "string \<Rightarrow> string" where
  "stripPort host =
     (let v = trim_space host in
      if v = [] then v
      else if count_list v CHR '':'' = 1
      then (case cut CHR '':'' v of Some (before, _) \<Rightarrow> before | None \<Rightarrow> v)
      else v)"

definition Snapshot_Lookup :: "route_snapshot option \<Rightarrow> string \<Rightarrow> route option" where
  "Snapshot_Lookup s hostname =
     (case s of
        None \<Rightarrow> None
      | Some sn \<Rightarrow>
          (case normalizeHostname (stripPort hostname) of
             Inl _ \<Rightarrow> None
           | Inr normalized \<Rightarrow> gm_get (rs_by_host sn) normalized))"

fun normalize_routes :: "nat \<Rightarrow> route list \<Rightarrow> ingress_error + route list" where
  "normalize_routes i [] = Inr []"
| "normalize_routes i (r # rs) =
     rbind (map_err (RouteAt i) (NormalizeRoute r)) (\<lambda>n.
       rbind (normalize_routes (Suc i) rs) (\<lambda>ns. Inr (n # ns)))"

definition NormalizeConfig :: "ingress_config \<Rightarrow> ingress_error + ingress_config" where
  "NormalizeConfig cfg =
     (let name = trim_space (ic_name cfg); overlay = trim_space (ic_overlay_ip cfg);
          publicAddress = trim_space (ic_public_address cfg) in
      if name = [] then Inl NameRequired
      else if overlay = [] then Inl OverlayIPRequired
      else if parse_addr overlay = None then Inl (OverlayIPInvalid overlay)
      else rbind (validateListenAddress publicAddress) (\<lambda>_.
      if ic_routes cfg = [] then Inl RoutesRequired
      else rbind (normalize_routes 0 (ic_routes cfg)) (\<lambda>routes.
      rbind (NewSnapshot routes) (\<lambda>_.
      Inr \<lparr>ic_name = name, ic_overlay_ip = overlay, ic_public_address = publicAddress,
           ic_routes = routes,
           ic_health_probe_interval = (if ic_health_probe_interval cfg \<le> 0
             then DefaultHealthProbeInterval else ic_health_probe_interval cfg),
           ic_udp_idle_timeout = (if ic_udp_idle_timeout cfg \<le> 0
             then DefaultUDPIdleTimeout else ic_udp_idle_timeout cfg),
           ic_metrics_address = trim_space (ic_metrics_address cfg),
           ic_acme_cache_dir = trim_space (ic_acme_cache_dir cfg),
           ic_acme_email = trim_space (ic_acme_email cfg),
           ic_enable_http3 = ic_enable_http3 cfg\<rparr>))))"

definition anyRouteHTTP3 :: "route list \<Rightarrow> bool" where
  "anyRouteHTTP3 routes = list_ex rt_http3 routes"

definition PlanConfig :: "ingress_config \<Rightarrow> ingress_error + ingress_plan" where
  "PlanConfig cfg =
     rbind (NormalizeConfig cfg) (\<lambda>n.
       Inr \<lparr>ip_name = ic_name n, ip_overlay_ip = ic_overlay_ip n,
            ip_public_address = ic_public_address n, ip_route_count = length (ic_routes n),
            ip_routes = ic_routes n, ip_health_probe_interval = ic_health_probe_interval n,
            ip_udp_idle_timeout = ic_udp_idle_timeout n, ip_metrics_address = ic_metrics_address n,
            ip_acme_enabled = (ic_acme_cache_dir n \<noteq> []),
            ip_http3_enabled = (ic_acme_cache_dir n \<noteq> []
              \<and> (ic_enable_http3 n \<or> anyRouteHTTP3 (ic_routes n)))\<rparr>)"

section \<open>Registry\<close>

record route_registry =
  rr_current :: "route_snapshot option"

definition NewRegistry :: "route list \<Rightarrow> ingress_error + route_registry" where
  "NewRegistry routes = rbind (NewSnapshot routes) (\<lambda>s. Inr \<lparr>rr_current = Some s\<rparr>)"

definition Registry_Replace ::
  "route_registry option \<Rightarrow> route list \<Rightarrow> route_registry option \<times> (ingress_error + route_snapshot)" where
  "Registry_Replace r routes =
     (case r of
        None \<Rightarrow> (None, Inl RegistryNil)
      | Some reg \<Rightarrow>
          (case NewSnapshot routes of
             Inl e \<Rightarrow> (Some reg, Inl e)
           | Inr s \<Rightarrow> (Some (reg\<lparr>rr_current := Some s\<rparr>), Inr s)))"

definition Registry_Snapshot :: "route_registry option \<Rightarrow> route_snapshot option" where
  "Registry_Snapshot r = (case r of None \<Rightarrow> None | Some reg \<Rightarrow> rr_current reg)"

definition Registry_Lookup :: "route_registry option \<Rightarrow> string \<Rightarrow> route option" where
  "Registry_Lookup r hostname = Snapshot_Lookup (Registry_Snapshot r) hostname"

section \<open>Health and metrics\<close>

record target_health =
  th_healthy :: bool
  th_last_error :: string
  th_checked_at :: gotime

type_synonym health_tracker = "(string, target_health) gomap"

definition NewHealthTracker :: health_tracker where "NewHealthTracker = []"

definition Health_IsHealthy :: "health_tracker option \<Rightarrow> route \<Rightarrow> bool" where
  "Health_IsHealthy h r =
     (case h of
        None \<Rightarrow> True
      | Some status \<Rightarrow> (case gm_get status (rt_hostname r) of None \<Rightarrow> True | Some st \<Rightarrow> th_healthy st))"

definition healthy_default :: target_health where
  "healthy_default = \<lparr>th_healthy = True, th_last_error = [], th_checked_at = time_zero\<rparr>"

definition Health_Status :: "health_tracker option \<Rightarrow> route \<Rightarrow> target_health" where
  "Health_Status h r =
     (case h of
        None \<Rightarrow> healthy_default
      | Some status \<Rightarrow> (case gm_get status (rt_hostname r) of None \<Rightarrow> healthy_default | Some st \<Rightarrow> st))"

text \<open>\<open>Set\<close>: the error is \<open>None\<close> for nil.\<close>

definition Health_Set ::
  "health_tracker option \<Rightarrow> route \<Rightarrow> bool \<Rightarrow> gotime \<Rightarrow> string option \<Rightarrow> health_tracker option" where
  "Health_Set h r healthy checkedAt err =
     map_option (gm_put (rt_hostname r)
       \<lparr>th_healthy = healthy, th_last_error = (case err of None \<Rightarrow> [] | Some e \<Rightarrow> e),
        th_checked_at = checkedAt\<rparr>) h"

type_synonym probe_func = "route \<Rightarrow> string option"

definition Health_ProbeOnce ::
  "probe_func \<Rightarrow> health_tracker option \<Rightarrow> route_snapshot option \<Rightarrow> gotime \<Rightarrow> health_tracker option" where
  "Health_ProbeOnce probe h snapshot now =
     (if h = None \<or> snapshot = None then h
      else fold (\<lambda>r h. Health_Set h r (probe r = None) now (probe r)) (Snapshot_Routes snapshot) h)"

definition Health_Run ::
  "probe_func \<Rightarrow> health_tracker option \<Rightarrow> (gotime \<times> route_registry) list \<Rightarrow> health_tracker option" where
  "Health_Run probe h rounds =
     (if h = None then h
      else fold (\<lambda>(now, reg) h. Health_ProbeOnce probe h (Registry_Snapshot (Some reg)) now) rounds h)"

definition Metrics_RecordRequest :: "metrics option \<Rightarrow> route \<Rightarrow> metrics option" where
  "Metrics_RecordRequest m r =
     map_option (\<lambda>log. log @ [CounterInc ''awg_mesh_ingress_requests_total''
       [rt_protocol r, rt_tenant r, rt_hostname r]]) m"

definition Metrics_RecordRejection :: "metrics option \<Rightarrow> protocol \<Rightarrow> string \<Rightarrow> string \<Rightarrow> metrics option" where
  "Metrics_RecordRejection m p hostname reason =
     map_option (\<lambda>log. log @ [CounterInc ''awg_mesh_ingress_rejections_total'' [p, hostname, reason]]) m"

definition Metrics_RecordProxyError :: "metrics option \<Rightarrow> route \<Rightarrow> string \<Rightarrow> metrics option" where
  "Metrics_RecordProxyError m r reason =
     map_option (\<lambda>log. log @ [CounterInc ''awg_mesh_ingress_proxy_errors_total''
       [rt_protocol r, rt_tenant r, rt_hostname r, reason]]) m"

definition Metrics_SetTargetHealth :: "metrics option \<Rightarrow> route \<Rightarrow> bool \<Rightarrow> metrics option" where
  "Metrics_SetTargetHealth m r healthy =
     map_option (\<lambda>log. log @ [GaugeSet ''awg_mesh_ingress_target_healthy''
       [rt_tenant r, rt_hostname r, rt_target r] (if healthy then 1 else 0)]) m"

definition Metrics_SetActiveUDPFlows :: "metrics option \<Rightarrow> route \<Rightarrow> nat \<Rightarrow> metrics option" where
  "Metrics_SetActiveUDPFlows m r n =
     map_option (\<lambda>log. log @ [GaugeSet ''awg_mesh_ingress_udp_active_flows''
       [rt_tenant r, rt_hostname r] (int n)]) m"

section \<open>Hostnames\<close>

lemma plain_ascii: "CHR 0x21 \<le> c \<Longrightarrow> c < CHR 0x80 \<Longrightarrow> plain_byte c"
  by (auto simp: plain_byte_def go_spaces_def)

definition host_text :: "string \<Rightarrow> bool" where
  "host_text h \<longleftrightarrow> h \<noteq> [] \<and> (\<forall>c \<in> set h. host_char c \<or> c = CHR ''.'')"

lemma host_char_ascii: "host_char c \<or> c = CHR ''.'' \<Longrightarrow>
    CHR 0x21 \<le> c \<and> c < CHR 0x80 \<and> \<not> is_upper c \<and> c \<noteq> CHR '':''"
  by (auto simp: host_char_def is_lower_def is_digit_def is_upper_def less_eq_char_def less_char_def)

lemma host_text_stable:
  assumes "host_text h"
  shows "trim_space h = h" and "to_lower h = h" and "CHR '':'' \<notin> set h" and "stripPort h = h"
proof -
  have ne: "h \<noteq> []" and ch: "\<And>c. c \<in> set h \<Longrightarrow> host_char c \<or> c = CHR ''.''"
    using assms by (auto simp: host_text_def)
  have "plain_byte (hd h)" "plain_byte (last h)"
    using ne host_char_ascii [OF ch] plain_ascii by simp_all
  with ne show t: "trim_space h = h" by (intro trim_space_id trimmed_plain)
  show "to_lower h = h" using host_char_ascii [OF ch] by (intro to_lower_ascii_id) blast
  show col: "CHR '':'' \<notin> set h" using host_char_ascii [OF ch] by blast
  then have "count_list h CHR '':'' = 0" by (simp add: count_list_0_iff)
  with t show "stripPort h = h" by (simp add: stripPort_def)
qed

lemma check_labels_ok:
  "check_labels x ls = Inr u \<longleftrightarrow> (\<forall>l \<in> set ls. l \<noteq> [] \<and> length l \<le> 63 \<and> \<not> prefix ''-'' l
     \<and> \<not> suffix ''-'' l \<and> list_all host_char l)"
  by (induction x ls rule: check_labels.induct) (auto simp: not_less)

lemma set_join_sub: "c \<in> set (join sep xs) \<Longrightarrow> c \<in> set sep \<or> (\<exists>x \<in> set xs. c \<in> set x)"
  by (induction sep xs rule: join.induct) auto

lemma normalizeHostname_text: "normalizeHostname h = Inr n \<Longrightarrow> host_text n"
proof -
  assume "normalizeHostname h = Inr n"
  then have n: "n \<noteq> []" and ok: "check_labels h (split_on CHR ''.'' n) = Inr ()"
    by (auto simp: normalizeHostname_def Let_def res_simps split: if_splits)
  have "host_char c \<or> c = CHR ''.''" if "c \<in> set n" for c
    using that ok set_join_sub [of c "''.''" "split_on CHR ''.'' n"]
    by (auto simp: join_split_on check_labels_ok list_all_iff)
  with n show ?thesis by (simp add: host_text_def)
qed

lemma normalizeHostname_stable:
  assumes "normalizeHostname h = Inr n"
  shows "normalizeHostname n = Inr n"
proof -
  note t = host_text_stable [OF normalizeHostname_text [OF assms]]
  from assms show ?thesis
    by (auto simp: normalizeHostname_def Let_def res_simps t check_labels_ok split: if_splits)
qed

section \<open>Normalisation is stable\<close>

lemma DefaultTenant_trimmed: "trim_space DefaultTenant = DefaultTenant" "DefaultTenant \<noteq> []"
  by code_simp+

lemma protocolForMode_not_Nil: "protocolForMode mode \<noteq> []"
  by (simp add: protocolForMode_def ProtocolHTTP_def ProtocolTCP_def ProtocolUDP_def)

lemma NormalizeRoute_fields:
  assumes "NormalizeRoute x = Inr y"
  shows "normalizeHostname (rt_hostname y) = Inr (rt_hostname y)"
    and "validateTarget (rt_target y) = Inr ()" and "trim_space (rt_target y) = rt_target y"
    and "validateTLSMode (rt_mode y) = Inr ()" and "rt_mode y \<noteq> []"
    and "validateProtocol (rt_protocol y) = Inr ()" and "rt_protocol y \<noteq> []"
    and "trim_space (rt_tenant y) = rt_tenant y" and "rt_tenant y \<noteq> []"
  using assms DefaultTenant_trimmed protocolForMode_not_Nil
  by (auto simp: NormalizeRoute_def Let_def res_simps TLSModeTLSTerminate_def
      dest: normalizeHostname_stable split: if_splits)

interpretation nr: normaliser NormalizeRoute
proof unfold_locales
  fix x y assume "NormalizeRoute x = Inr y"
  from NormalizeRoute_fields [OF this] show "NormalizeRoute y = Inr y"
    by (simp add: NormalizeRoute_def Let_def)
qed

lemma normalize_routes_traverse:
  "normalize_routes i rs = traverse_from i (\<lambda>j r. map_err (RouteAt j) (NormalizeRoute r)) rs"
  by (induction rs arbitrary: i) simp_all

lemma snapshot_loop_ok:
  "snapshot_loop i byHost rs = Inr (ns, m) \<longleftrightarrow>
     list_all2 (\<lambda>r n. NormalizeRoute r = Inr n) rs ns \<and> distinct (map rt_hostname ns)
     \<and> (\<forall>n \<in> set ns. gm_get byHost (rt_hostname n) = None)
     \<and> m = fold (\<lambda>n. gm_put (rt_hostname n) n) ns byHost"
proof (induction rs arbitrary: i byHost ns)
  case Nil
  then show ?case by auto
next
  case (Cons r rs)
  show ?case
  proof (cases ns)
    case Nil
    then show ?thesis by (auto simp: res_simps split: option.splits)
  next
    case (Cons n ns')
    have new: "(\<forall>k \<in> set ns'. gm_get (gm_put (rt_hostname n) n byHost) (rt_hostname k) = None) \<longleftrightarrow>
        rt_hostname n \<notin> rt_hostname ` set ns' \<and> (\<forall>k \<in> set ns'. gm_get byHost (rt_hostname k) = None)"
      by (fastforce simp: gm_simps image_iff split: if_splits)
    have "snapshot_loop i byHost (r # rs) = Inr (n # ns', m) \<longleftrightarrow>
        NormalizeRoute r = Inr n \<and> gm_get byHost (rt_hostname n) = None
        \<and> snapshot_loop (Suc i) (gm_put (rt_hostname n) n byHost) rs = Inr (ns', m)"
      by (auto simp: res_simps split: option.splits)
    then show ?thesis using local.Cons by (auto simp: Cons.IH new)
  qed
qed

section \<open>Snapshots and the registry\<close>

definition routes_ok :: "route_snapshot \<Rightarrow> bool" where
  "routes_ok s \<longleftrightarrow> rs_routes s \<noteq> [] \<and> distinct (map rt_hostname (rs_routes s))
     \<and> (\<forall>r \<in> set (rs_routes s). NormalizeRoute r = Inr r)
     \<and> rs_by_host s = fold (\<lambda>n. gm_put (rt_hostname n) n) (rs_routes s) []"

lemma NewSnapshot_ok_iff:
  "NewSnapshot rs = Inr s \<longleftrightarrow> list_all2 (\<lambda>r n. NormalizeRoute r = Inr n) rs (rs_routes s) \<and> routes_ok s"
proof -
  have norm: "list_all2 (\<lambda>r n. NormalizeRoute r = Inr n) rs ns \<Longrightarrow> \<forall>n \<in> set ns. NormalizeRoute n = Inr n" for ns
    by (auto simp: list_all2_conv_all_nth set_conv_nth dest: nr.norm_stable)
  have "NewSnapshot rs = Inr s \<longleftrightarrow>
      rs_routes s \<noteq> [] \<and> snapshot_loop 0 [] rs = Inr (rs_routes s, rs_by_host s)"
    by (cases s) (auto simp: NewSnapshot_def res_simps split: if_splits)
  then show ?thesis using norm by (auto simp: snapshot_loop_ok routes_ok_def)
qed

lemma NewSnapshot_stable: "NewSnapshot rs = Inr s \<Longrightarrow> NewSnapshot (rs_routes s) = Inr s"
  by (auto simp: NewSnapshot_ok_iff routes_ok_def list_all2_same)

lemma route_Lookup_iff:
  "routes_ok s \<Longrightarrow> Snapshot_Lookup (Some s) h = Some r \<longleftrightarrow>
     r \<in> set (rs_routes s) \<and> normalizeHostname (stripPort h) = Inr (rt_hostname r)"
  by (auto simp: Snapshot_Lookup_def routes_ok_def gm_get_table split: sum.splits)

interpretation nic: normaliser NormalizeConfig
proof unfold_locales
  fix x y assume ok: "NormalizeConfig x = Inr y"
  then obtain s where rs: "normalize_routes 0 (ic_routes x) = Inr (ic_routes y)" "NewSnapshot (ic_routes y) = Inr s"
    and fields: "trim_space (ic_name y) = ic_name y" "ic_name y \<noteq> []"
      "trim_space (ic_overlay_ip y) = ic_overlay_ip y" "ic_overlay_ip y \<noteq> []"
      "\<exists>a. parse_addr (ic_overlay_ip y) = Some a" "trim_space (ic_public_address y) = ic_public_address y"
      "validateListenAddress (ic_public_address y) = Inr ()"
      "ic_health_probe_interval y > 0" "ic_udp_idle_timeout y > 0"
      "trim_space (ic_metrics_address y) = ic_metrics_address y"
      "trim_space (ic_acme_cache_dir y) = ic_acme_cache_dir y" "trim_space (ic_acme_email y) = ic_acme_email y"
    by (auto simp: NormalizeConfig_def Let_def res_simps DefaultHealthProbeInterval_def
        DefaultUDPIdleTimeout_def second_def nsec_per_sec_def split: if_splits)
  have "normalize_routes 0 (ic_routes y) = Inr (ic_routes y)"
    using nr.traverse_stable [of 0 RouteAt] rs(1) by (simp add: normalize_routes_traverse)
  moreover have "ic_routes y \<noteq> []" using rs(2) by (auto simp: NewSnapshot_def)
  ultimately show "NormalizeConfig y = Inr y"
    using fields rs(2) by (auto simp: NormalizeConfig_def Let_def)
qed

interpretation ir: snapshot_registry NewSnapshot Registry_Replace Registry_Snapshot
  by unfold_locales (auto simp: Registry_Replace_def Registry_Snapshot_def)

section \<open>Health of the routes\<close>

definition put_health :: "health_tracker \<Rightarrow> route \<Rightarrow> bool \<Rightarrow> gotime \<Rightarrow> string \<Rightarrow> health_tracker" where
  "put_health h r b now err =
     gm_put (rt_hostname r) \<lparr>th_healthy = b, th_last_error = err, th_checked_at = now\<rparr> h"

lemma route_Health_Set_Some:
  "Health_Set (Some h) r b now err = Some (put_health h r b now (case err of None \<Rightarrow> [] | Some e \<Rightarrow> e))"
  by (simp add: Health_Set_def put_health_def)

interpretation ih: health_contract "\<lambda>h. Health_IsHealthy (Some h)" put_health rt_hostname NewHealthTracker
  by unfold_locales
    (auto simp: Health_IsHealthy_def put_health_def NewHealthTracker_def gm_simps)

lemma route_ProbeOnce_round:
  "Health_ProbeOnce probe (Some h) (Some s) now = Some (probe_round put_health probe now (rs_routes s) h)"
proof -
  have "fold (\<lambda>r h. Health_Set h r (probe r = None) now (probe r)) rs (Some h) =
      Some (probe_round put_health probe now rs h)" for rs
    by (induction rs arbitrary: h) (simp_all add: probe_round_def route_Health_Set_Some)
  then show ?thesis by (simp add: Health_ProbeOnce_def Snapshot_Routes_def)
qed

lemma NewSnapshot_accepts:
  "is_ok (NewSnapshot cs) \<longleftrightarrow>
     (\<exists>ns. ns \<noteq> [] \<and> list_all2 (\<lambda>c n. NormalizeRoute c = Inr n) cs ns \<and> distinct (map rt_hostname ns))"
  (is "?l = ?r")
proof
  assume ?l
  then obtain s where "NewSnapshot cs = Inr s" by (cases "NewSnapshot cs") auto
  then show ?r by (auto simp: NewSnapshot_ok_iff routes_ok_def)
next
  assume ?r
  then obtain ns where ns: "ns \<noteq> []" "list_all2 (\<lambda>c n. NormalizeRoute c = Inr n) cs ns"
    "distinct (map rt_hostname ns)" by blast
  then have "snapshot_loop 0 [] cs = Inr (ns, fold (\<lambda>n. gm_put (rt_hostname n) n) ns [])"
    by (simp add: snapshot_loop_ok)
  with ns(1) show ?l by (simp add: NewSnapshot_def)
qed

lemma published_routes:
  "NewSnapshot cs = Inr s \<Longrightarrow> r \<in> set (rs_routes s) \<longleftrightarrow> (\<exists>c \<in> set cs. NormalizeRoute c = Inr r)"
  by (fastforce simp: NewSnapshot_ok_iff list_all2_conv_all_nth in_set_conv_nth)

lemma published_Lookup:
  "NewSnapshot cs = Inr s \<Longrightarrow> Snapshot_Lookup (Some s) h = Some r \<longleftrightarrow>
     (\<exists>c \<in> set cs. NormalizeRoute c = Inr r) \<and> normalizeHostname (stripPort h) = Inr (rt_hostname r)"
  using route_Lookup_iff published_routes by (auto simp: NewSnapshot_ok_iff)

lemma last_map_filter_ok:
  "filter (\<lambda>c. is_ok (f c)) cs \<noteq> [] \<Longrightarrow>
     last (filter is_ok (map f cs)) = f (last (filter (\<lambda>c. is_ok (f c)) cs))"
  by (simp add: filter_map comp_def last_map)

lemma registry_publishes_last:
  assumes "NewRegistry cs = Inr reg"
  shows "Registry_Lookup (fold (\<lambda>c r. fst (Registry_Replace r c)) css (Some reg)) h = Some r \<longleftrightarrow>
      (\<exists>c \<in> set (last (filter (\<lambda>c. is_ok (NewSnapshot c)) (cs # css))). NormalizeRoute c = Inr r)
      \<and> normalizeHostname (stripPort h) = Inr (rt_hostname r)"
proof -
  let ?oks = "filter (\<lambda>c. is_ok (NewSnapshot c))"
  from assms obtain s where s: "NewSnapshot cs = Inr s" and reg: "Registry_Snapshot (Some reg) = Some s"
    by (auto simp: NewRegistry_def res_simps Registry_Snapshot_def)
  define l where "l = last (?oks (cs # css))"
  have "l \<in> set (?oks (cs # css))" unfolding l_def using s by (intro last_in_set) auto
  then have "is_ok (NewSnapshot l)" unfolding set_filter by blast
  then obtain t where t: "NewSnapshot l = Inr t" by (auto simp: is_ok_iff)
  have "Registry_Snapshot (fold (\<lambda>c r. fst (Registry_Replace r c)) css (Some reg)) = Some t"
  proof (cases "?oks css = []")
    case True
    then have "filter is_ok (map NewSnapshot css) = []" by (simp add: filter_map comp_def)
    moreover have "l = cs" using True s by (simp add: l_def)
    ultimately show ?thesis using s t reg by (simp add: ir.current_after_replacements)
  next
    case False
    then have "last (filter is_ok (map NewSnapshot css)) = Inr t" "filter is_ok (map NewSnapshot css) \<noteq> []"
      using last_map_filter_ok [OF False] s t by (auto simp: l_def filter_map comp_def)
    then show ?thesis by (auto simp: ir.current_after_replacements split: list.splits)
  qed
  then show ?thesis
    using published_Lookup [OF t] by (simp add: Registry_Lookup_def l_def)
qed

text \<open>
  C4. What the registry resolves. A registry is created from a route set and then gets any number of
  replacements, some accepted and some refused. A Host header resolves to route \<open>r\<close> exactly when \<open>r\<close> is the
  normal form of a route of the last accepted set and the header, with one port cut off, trimmed and
  lower-cased, is the hostname of \<open>r\<close>. A set is accepted exactly when it is not empty, every route
  normalises and no two normal forms share a hostname, so that route is unique.
\<close>

theorem Registry_Lookup_exact:
  assumes "NewRegistry cs = Inr reg"
  shows "(Registry_Lookup (fold (\<lambda>c r. fst (Registry_Replace r c)) css (Some reg)) h = Some r \<longleftrightarrow>
      (\<exists>c \<in> set (last (filter (\<lambda>c. is_ok (NewSnapshot c)) (cs # css))). NormalizeRoute c = Inr r)
      \<and> normalizeHostname (stripPort h) = Inr (rt_hostname r))
    \<and> (is_ok (NewSnapshot c) \<longleftrightarrow>
      (\<exists>ns. ns \<noteq> [] \<and> list_all2 (\<lambda>c n. NormalizeRoute c = Inr n) c ns \<and> distinct (map rt_hostname ns)))"
  using registry_publishes_last [OF assms] NewSnapshot_accepts by blast

definition demo_route :: "string \<Rightarrow> route" where
  "demo_route h = \<lparr>rt_tenant = [], rt_hostname = h, rt_target = ''10.0.0.2:80'', rt_mode = [],
     rt_protocol = [], rt_http3 = False\<rparr>"

definition demo_normal :: route where
  "demo_normal = \<lparr>rt_tenant = ''default'', rt_hostname = ''b.ex'', rt_target = ''10.0.0.2:80'',
     rt_mode = ''tls_terminate'', rt_protocol = ''http'', rt_http3 = False\<rparr>"

lemma demo_accepts:
  "is_ok (NewSnapshot [demo_route ''a.ex''])" "is_ok (NewSnapshot [demo_route ''B.ex''])" "\<not> is_ok (NewSnapshot [])"
  "NormalizeRoute (demo_route ''B.ex'') = Inr demo_normal"
  "normalizeHostname (stripPort '' b.EX:443'') = Inr (rt_hostname demo_normal)"
  by code_simp+

theorem Registry_Lookup_exact_witness:
  "\<exists>reg. NewRegistry [demo_route ''a.ex''] = Inr reg \<and>
     Registry_Lookup (fold (\<lambda>c r. fst (Registry_Replace r c)) [[demo_route ''B.ex''], []] (Some reg)) '' b.EX:443''
       = Some demo_normal"
proof -
  obtain reg where reg: "NewRegistry [demo_route ''a.ex''] = Inr reg"
    using demo_accepts(1) by (auto simp: NewRegistry_def res_simps)
  have "last (filter (\<lambda>c. is_ok (NewSnapshot c)) [[demo_route ''a.ex''], [demo_route ''B.ex''], []])
      = [demo_route ''B.ex'']"
    using demo_accepts by simp
  with Registry_Lookup_exact [OF reg, of "[[demo_route ''B.ex''], []]" "'' b.EX:443''" demo_normal] reg
  show ?thesis using demo_accepts by auto
qed

end
