(* ===== verification/Ingress_SNI.thy ===== *)
theory Ingress_SNI
  imports Ingress
begin

text \<open>
  \<open>pkg/ingress/sni.go\<close>: the extraction of the server name from a TLS ClientHello record and its
  classification. A byte slice is a list of characters; reading outside it is the value
  \<open>IndexPanic\<close>, where Go panics. The parser returns it for no input, and it reads back the name that a
  well-formed ClientHello carries.
\<close>

section \<open>Byte slices\<close>

definition byte_at :: "string \<Rightarrow> nat \<Rightarrow> ingress_error + nat" where
  "byte_at bs i = (if i < length bs then Inr (of_char (bs ! i)) else Inl IndexPanic)"

text \<open>\<open>bs[a:b]\<close> for a slice whose capacity is its length.\<close>

definition slice :: "string \<Rightarrow> nat \<Rightarrow> nat \<Rightarrow> ingress_error + string" where
  "slice bs a b = (if a \<le> b \<and> b \<le> length bs then Inr (take (b - a) (drop a bs)) else Inl IndexPanic)"

text \<open>\<open>binary.BigEndian.Uint16(bs[a:a+2])\<close>.\<close>

definition be_uint16 :: "string \<Rightarrow> nat \<Rightarrow> ingress_error + nat" where
  "be_uint16 bs a =
     rbind (slice bs a (a + 2)) (\<lambda>s.
     rbind (byte_at s 0) (\<lambda>hi. rbind (byte_at s 1) (\<lambda>lo. Inr (hi * 256 + lo))))"

section \<open>The parser\<close>

function sni_name_loop :: "string \<Rightarrow> nat \<Rightarrow> nat \<Rightarrow> ingress_error + string" where
  "sni_name_loop data e cursor =
     (if cursor + 3 \<le> e then
        rbind (byte_at data cursor) (\<lambda>nameType.
        rbind (be_uint16 data (cursor + 1)) (\<lambda>nameLen.
          if cursor + 3 + nameLen > e then Inl ErrClientHelloTooShort
          else if nameType = 0 then
            rbind (slice data (cursor + 3) (cursor + 3 + nameLen)) normalizeHostname
          else sni_name_loop data e (cursor + 3 + nameLen)))
      else Inl ErrClientHelloNoSNI)"
  by pat_completeness auto
termination by (relation "measure (\<lambda>(data, e, cursor). e - cursor)") auto

definition parseSNIServerName :: "string \<Rightarrow> ingress_error + string" where
  "parseSNIServerName data =
     (if length data < 2 then Inl ErrClientHelloTooShort
      else rbind (be_uint16 data 0) (\<lambda>listLen.
        if listLen = 0 \<or> length data - 2 < listLen then Inl ErrClientHelloTooShort
        else sni_name_loop data (2 + listLen) 2))"

function sni_ext_loop :: "string \<Rightarrow> nat \<Rightarrow> nat \<Rightarrow> ingress_error + string" where
  "sni_ext_loop body extensionsEnd cursor =
     (if cursor + 4 \<le> extensionsEnd then
        rbind (be_uint16 body cursor) (\<lambda>extType.
        rbind (be_uint16 body (cursor + 2)) (\<lambda>extLen.
          if cursor + 4 + extLen > extensionsEnd then Inl ErrClientHelloTooShort
          else if extType = 0 then
            rbind (slice body (cursor + 4) (cursor + 4 + extLen)) parseSNIServerName
          else sni_ext_loop body extensionsEnd (cursor + 4 + extLen)))
      else Inl ErrClientHelloNoSNI)"
  by pat_completeness auto
termination by (relation "measure (\<lambda>(body, e, cursor). e - cursor)") auto

declare sni_name_loop.simps [simp del] sni_ext_loop.simps [simp del]

text \<open>
  The parser follows the source: each length is read at the cursor after the test that the source makes
  for it. The second and third tests of a 24-bit length and of the session id cannot fail after the test
  for 42 bytes, as in the source.
\<close>

definition ClientHelloServerName :: "string \<Rightarrow> ingress_error + string" where
  "ClientHelloServerName r =
     (if length r < 5 then Inl ErrClientHelloTooShort
      else rbind (byte_at r 0) (\<lambda>contentType.
      if contentType \<noteq> 22 then Inl (NotHandshake contentType)
      else rbind (be_uint16 r 3) (\<lambda>recordLen.
      if length r - 5 < recordLen then Inl ErrClientHelloTooShort
      else rbind (slice r 5 (5 + recordLen)) (\<lambda>body.
      if length body < 42 then Inl ErrClientHelloTooShort
      else rbind (byte_at body 0) (\<lambda>hsType.
      if hsType \<noteq> 1 then Inl NotClientHello
      else rbind (byte_at body 1) (\<lambda>l1. rbind (byte_at body 2) (\<lambda>l2. rbind (byte_at body 3) (\<lambda>l3.
      let helloLen = l1 * 65536 + l2 * 256 + l3 in
      if length body - 4 < helloLen then Inl ErrClientHelloTooShort
      else let cursor = 4 + 2 + 32 in
      if cursor \<ge> length body then Inl ErrClientHelloTooShort
      else rbind (byte_at body cursor) (\<lambda>sessionIDLen.
      let cursor = cursor + 1 + sessionIDLen in
      if cursor + 2 > length body then Inl ErrClientHelloTooShort
      else rbind (be_uint16 body cursor) (\<lambda>cipherSuitesLen.
      let cursor = cursor + 2 + cipherSuitesLen in
      if cursor \<ge> length body then Inl ErrClientHelloTooShort
      else rbind (byte_at body cursor) (\<lambda>compressionMethodsLen.
      let cursor = cursor + 1 + compressionMethodsLen in
      if cursor + 2 > length body then Inl ErrClientHelloNoSNI
      else rbind (be_uint16 body cursor) (\<lambda>extensionsLen.
      let cursor = cursor + 2 in
      if cursor + extensionsLen > length body then Inl ErrClientHelloTooShort
      else sni_ext_loop body (cursor + extensionsLen) cursor))))))))))))"

record classifier =
  cl_registry :: "route_registry option"

definition NewClassifier :: "route_registry option \<Rightarrow> classifier" where
  "NewClassifier registry = \<lparr>cl_registry = registry\<rparr>"

definition ClassifyHostname :: "classifier option \<Rightarrow> string \<Rightarrow> route option" where
  "ClassifyHostname c hostname =
     (case c of
        None \<Rightarrow> None
      | Some cl \<Rightarrow> if cl_registry cl = None then None else Registry_Lookup (cl_registry cl) hostname)"

definition ClassifyClientHello :: "classifier option \<Rightarrow> string \<Rightarrow> ingress_error + route" where
  "ClassifyClientHello c r =
     rbind (ClientHelloServerName r) (\<lambda>hostname.
       case ClassifyHostname c hostname of
         None \<Rightarrow> Inl (HostnameNotAllowed hostname)
       | Some rt \<Rightarrow> Inr rt)"

section \<open>No index panic\<close>

lemma byte_at_ok [simp]: "i < length bs \<Longrightarrow> byte_at bs i = Inr (of_char (bs ! i))"
  by (simp add: byte_at_def)

lemma slice_ok [simp]: "a \<le> b \<Longrightarrow> b \<le> length bs \<Longrightarrow> slice bs a b = Inr (take (b - a) (drop a bs))"
  by (simp add: slice_def)

lemma be_uint16_ok [simp]:
  "a + 2 \<le> length bs \<Longrightarrow> be_uint16 bs a = Inr (of_char (bs ! a) * 256 + of_char (bs ! (a + 1)))"
  by (simp add: be_uint16_def)

lemma check_labels_no_panic: "check_labels h ls \<noteq> Inl IndexPanic"
  by (induction h ls rule: check_labels.induct) auto

lemma normalizeHostname_no_panic: "normalizeHostname h \<noteq> Inl IndexPanic"
  using check_labels_no_panic
  by (auto simp: normalizeHostname_def Let_def res_simps)

lemma sni_name_loop_no_panic: "e \<le> length data \<Longrightarrow> sni_name_loop data e cursor \<noteq> Inl IndexPanic"
proof (induction data e cursor rule: sni_name_loop.induct)
  case (1 data e cursor)
  show ?case
    using 1 normalizeHostname_no_panic
    by (subst sni_name_loop.simps) (simp add: )
qed

lemma parseSNIServerName_no_panic: "parseSNIServerName data \<noteq> Inl IndexPanic"
  using sni_name_loop_no_panic by (auto simp: parseSNIServerName_def)

lemma sni_ext_loop_no_panic: "e \<le> length body \<Longrightarrow> sni_ext_loop body e cursor \<noteq> Inl IndexPanic"
proof (induction body e cursor rule: sni_ext_loop.induct)
  case (1 body e cursor)
  show ?case
    using 1 parseSNIServerName_no_panic
    by (subst sni_ext_loop.simps) (simp add: )
qed

lemma rbind_no_panic:
  "r \<noteq> Inl IndexPanic \<Longrightarrow> (\<And>x. r = Inr x \<Longrightarrow> f x \<noteq> Inl IndexPanic) \<Longrightarrow> rbind r f \<noteq> Inl IndexPanic"
  by (cases r) auto

lemma if_no_panic:
  "(c \<Longrightarrow> x \<noteq> Inl IndexPanic) \<Longrightarrow> (\<not> c \<Longrightarrow> y \<noteq> Inl IndexPanic) \<Longrightarrow> (if c then x else y) \<noteq> Inl IndexPanic"
  by simp

lemma ClientHelloServerName_no_panic: "ClientHelloServerName r \<noteq> Inl IndexPanic"
  unfolding ClientHelloServerName_def Let_def
  by (intro rbind_no_panic if_no_panic sni_ext_loop_no_panic) (auto simp: not_less not_le byte_at_def)

section \<open>Well-formed ClientHellos\<close>

text \<open>The wire format that the parser reads, from RFC 8446 4.1.2 and RFC 6066 3.\<close>

definition enc8 :: "nat \<Rightarrow> string" where
  "enc8 n = [char_of n]"

definition enc16 :: "nat \<Rightarrow> string" where
  "enc16 n = [char_of (n div 256), char_of (n mod 256)]"

definition enc_name :: "nat \<times> string \<Rightarrow> string" where
  "enc_name n = enc8 (fst n) @ enc16 (length (snd n)) @ snd n"

definition enc_names :: "(nat \<times> string) list \<Rightarrow> string" where
  "enc_names ns = concat (map enc_name ns)"

definition enc_sni :: "(nat \<times> string) list \<Rightarrow> string" where
  "enc_sni ns = enc16 (length (enc_names ns)) @ enc_names ns"

definition enc_ext :: "nat \<times> string \<Rightarrow> string" where
  "enc_ext x = enc16 (fst x) @ enc16 (length (snd x)) @ snd x"

definition enc_exts :: "(nat \<times> string) list \<Rightarrow> string" where
  "enc_exts xs = concat (map enc_ext xs)"

record client_hello =
  ch_version :: string
  ch_random :: string
  ch_session :: string
  ch_ciphers :: string
  ch_compression :: string
  ch_exts :: "(nat \<times> string) list"

definition enc_hello_fields :: "client_hello \<Rightarrow> string" where
  "enc_hello_fields h =
     ch_version h @ ch_random h @ enc8 (length (ch_session h)) @ ch_session h
     @ enc16 (length (ch_ciphers h)) @ ch_ciphers h
     @ enc8 (length (ch_compression h)) @ ch_compression h
     @ enc16 (length (enc_exts (ch_exts h))) @ enc_exts (ch_exts h)"

definition enc_hello :: "client_hello \<Rightarrow> string" where
  "enc_hello h =
     (let f = enc_hello_fields h in
      enc8 1 @ enc8 (length f div 65536) @ enc16 (length f mod 65536) @ f)"

definition enc_record :: "client_hello \<Rightarrow> string" where
  "enc_record h = enc8 22 @ [CHR 0x03, CHR 0x01] @ enc16 (length (enc_hello h)) @ enc_hello h"

definition hello_wf :: "client_hello \<Rightarrow> bool" where
  "hello_wf h \<longleftrightarrow> length (ch_version h) = 2 \<and> length (ch_random h) = 32 \<and> length (ch_session h) < 256
     \<and> length (ch_compression h) < 256 \<and> length (enc_hello h) < 65536
     \<and> (\<forall>x \<in> set (ch_exts h). fst x < 65536)"

lemma enc_lengths [simp]: "length (enc8 n) = 1" "length (enc16 n) = 2"
  by (simp_all add: enc8_def enc16_def)

lemma byte_at_enc8: "n < 256 \<Longrightarrow> length pre = i \<Longrightarrow> byte_at (pre @ enc8 n @ post) i = Inr n"
  by (auto simp: byte_at_def enc8_def nth_append)

lemma be_uint16_enc16:
  assumes "n < 65536" and "length pre = i"
  shows "be_uint16 (pre @ enc16 n @ post) i = Inr n"
proof -
  have "n div 256 < 256" using assms(1) by (simp add: less_mult_imp_div_less)
  then show ?thesis using assms(2) by (auto simp: enc16_def nth_append)
qed

lemma slice_enc: "length pre = a \<Longrightarrow> b = a + length x \<Longrightarrow> slice (pre @ x @ post) a b = Inr x"
  by simp

section \<open>Reading a ClientHello back\<close>

text \<open>The name list: entries of other types are skipped, the first host name (type 0) is the result.\<close>

lemma sni_name_loop_enc:
  assumes "\<And>n. n \<in> set skipped \<Longrightarrow> 0 < fst n \<and> fst n < 256"
    and "length (enc_names (skipped @ (0, name) # later)) < 65536"
    and "length pre = c" and "e = c + length (enc_names (skipped @ (0, name) # later))"
  shows "sni_name_loop (pre @ enc_names (skipped @ (0, name) # later)) e c = normalizeHostname name"
  using assms
proof (induction skipped arbitrary: pre c)
  case Nil
  let ?d = "pre @ enc_names ((0, name) # later)"
  have d: "?d = pre @ enc8 0 @ (enc16 (length name) @ name @ enc_names later)"
    "?d = (pre @ enc8 0) @ enc16 (length name) @ (name @ enc_names later)"
    "?d = (pre @ enc8 0 @ enc16 (length name)) @ name @ enc_names later"
    by (simp_all add: enc_names_def enc_name_def)
  have len: "length name < 65536" "c + 3 + length name \<le> e"
    using Nil.prems by (auto simp: enc_names_def enc_name_def)
  have "byte_at ?d c = Inr 0" using Nil.prems(3) by (subst d(1)) (simp only: byte_at_enc8)
  moreover have "be_uint16 ?d (c + 1) = Inr (length name)"
    using Nil.prems(3) len(1) by (subst d(2)) (rule be_uint16_enc16, simp_all)
  moreover have "slice ?d (c + 3) (c + 3 + length name) = Inr name"
    using Nil.prems(3) by (subst d(3)) (rule slice_enc, simp_all)
  ultimately show ?case using len by (subst sni_name_loop.simps) simp
next
  case (Cons n ns)
  let ?rest = "enc_names (ns @ (0, name) # later)"
  let ?d = "pre @ enc_names ((n # ns) @ (0, name) # later)"
  have d: "?d = pre @ enc8 (fst n) @ (enc16 (length (snd n)) @ snd n @ ?rest)"
    "?d = (pre @ enc8 (fst n)) @ enc16 (length (snd n)) @ (snd n @ ?rest)"
    "?d = (pre @ enc_name n) @ ?rest"
    by (simp_all add: enc_names_def enc_name_def)
  have len: "length (snd n) < 65536" "c + 3 + length (snd n) + length ?rest = e" "length ?rest < 65536"
    using Cons.prems by (auto simp: enc_names_def enc_name_def)
  have n: "0 < fst n" "fst n < 256" using Cons.prems(1) by auto
  have "byte_at ?d c = Inr (fst n)" using Cons.prems(3) n(2) by (subst d(1)) (simp only: byte_at_enc8)
  moreover have "be_uint16 ?d (c + 1) = Inr (length (snd n))"
    using Cons.prems(3) len(1) by (subst d(2)) (rule be_uint16_enc16, simp_all)
  moreover have "sni_name_loop ?d e (c + 3 + length (snd n)) = normalizeHostname name"
    unfolding d(3) using Cons.prems len by (intro Cons.IH) (simp_all add: enc_name_def)
  ultimately show ?case using len n by (subst sni_name_loop.simps) simp
qed

lemma parseSNIServerName_enc:
  assumes "\<And>n. n \<in> set skipped \<Longrightarrow> 0 < fst n \<and> fst n < 256"
    and "length (enc_sni (skipped @ (0, name) # later)) < 65536"
  shows "parseSNIServerName (enc_sni (skipped @ (0, name) # later)) = normalizeHostname name"
proof -
  let ?ns = "enc_names (skipped @ (0, name) # later)"
  let ?d = "enc_sni (skipped @ (0, name) # later)"
  have len: "length ?ns < 65536" "length ?ns \<noteq> 0" "length ?d = length ?ns + 2"
    using assms(2) by (auto simp: enc_sni_def enc_names_def enc_name_def enc8_def)
  have "be_uint16 ?d 0 = Inr (length ?ns)"
    using be_uint16_enc16 [of "length ?ns" "[]" 0 ?ns] len by (simp add: enc_sni_def)
  moreover have "sni_name_loop ?d (2 + length ?ns) 2 = normalizeHostname name"
    unfolding enc_sni_def using assms(1) len by (intro sni_name_loop_enc) simp_all
  ultimately show ?thesis using len by (simp add: parseSNIServerName_def)
qed

text \<open>The extension list: the first extension of type 0 (\<open>server_name\<close>) is parsed.\<close>

lemma sni_ext_loop_enc:
  assumes "\<And>x. x \<in> set skipped \<Longrightarrow> 0 < fst x \<and> fst x < 65536"
    and "length (enc_exts (skipped @ (0, d) # later)) < 65536"
    and "length pre = c" and "e = c + length (enc_exts (skipped @ (0, d) # later))"
  shows "sni_ext_loop (pre @ enc_exts (skipped @ (0, d) # later)) e c = parseSNIServerName d"
  using assms
proof (induction skipped arbitrary: pre c)
  case Nil
  let ?b = "pre @ enc_exts ((0, d) # later)"
  have b: "?b = pre @ enc16 0 @ (enc16 (length d) @ d @ enc_exts later)"
    "?b = (pre @ enc16 0) @ enc16 (length d) @ (d @ enc_exts later)"
    "?b = (pre @ enc16 0 @ enc16 (length d)) @ d @ enc_exts later"
    by (simp_all add: enc_exts_def enc_ext_def)
  have len: "length d < 65536" "c + 4 + length d \<le> e"
    using Nil.prems by (auto simp: enc_exts_def enc_ext_def)
  have "be_uint16 ?b c = Inr 0"
    using Nil.prems(3) by (subst b(1)) (rule be_uint16_enc16, simp_all)
  moreover have "be_uint16 ?b (c + 2) = Inr (length d)"
    using Nil.prems(3) len(1) by (subst b(2)) (rule be_uint16_enc16, simp_all)
  moreover have "slice ?b (c + 4) (c + 4 + length d) = Inr d"
    using Nil.prems(3) by (subst b(3)) (rule slice_enc, simp_all)
  ultimately show ?case using len by (subst sni_ext_loop.simps) simp
next
  case (Cons x xs)
  let ?rest = "enc_exts (xs @ (0, d) # later)"
  let ?b = "pre @ enc_exts ((x # xs) @ (0, d) # later)"
  have b: "?b = pre @ enc16 (fst x) @ (enc16 (length (snd x)) @ snd x @ ?rest)"
    "?b = (pre @ enc16 (fst x)) @ enc16 (length (snd x)) @ (snd x @ ?rest)"
    "?b = (pre @ enc_ext x) @ ?rest"
    by (simp_all add: enc_exts_def enc_ext_def)
  have len: "length (snd x) < 65536" "c + 4 + length (snd x) + length ?rest = e" "length ?rest < 65536"
    using Cons.prems by (auto simp: enc_exts_def enc_ext_def)
  have x: "0 < fst x" "fst x < 65536" using Cons.prems(1) by auto
  have "be_uint16 ?b c = Inr (fst x)"
    using Cons.prems(3) x(2) by (subst b(1)) (rule be_uint16_enc16, simp_all)
  moreover have "be_uint16 ?b (c + 2) = Inr (length (snd x))"
    using Cons.prems(3) len(1) by (subst b(2)) (rule be_uint16_enc16, simp_all)
  moreover have "sni_ext_loop ?b e (c + 4 + length (snd x)) = parseSNIServerName d"
    unfolding b(3) using Cons.prems len by (intro Cons.IH) (simp_all add: enc_ext_def)
  ultimately show ?case using len x by (subst sni_ext_loop.simps) simp
qed

text \<open>The fixed part of a ClientHello: the parser reaches the extension list.\<close>

definition enc_hello_head :: "client_hello \<Rightarrow> string" where
  "enc_hello_head h =
     (let n = length (enc_hello_fields h) in enc8 1 @ enc8 (n div 65536) @ enc16 (n mod 65536))"

definition enc_to_session :: "client_hello \<Rightarrow> string" where
  "enc_to_session h = enc_hello_head h @ ch_version h @ ch_random h"

definition enc_to_ciphers :: "client_hello \<Rightarrow> string" where
  "enc_to_ciphers h = enc_to_session h @ enc8 (length (ch_session h)) @ ch_session h"

definition enc_to_compression :: "client_hello \<Rightarrow> string" where
  "enc_to_compression h = enc_to_ciphers h @ enc16 (length (ch_ciphers h)) @ ch_ciphers h"

definition enc_to_exts :: "client_hello \<Rightarrow> string" where
  "enc_to_exts h = enc_to_compression h @ enc8 (length (ch_compression h)) @ ch_compression h"

lemmas enc_to_defs = enc_to_exts_def enc_to_compression_def enc_to_ciphers_def enc_to_session_def

lemma enc_hello_exts:
  "enc_hello h = enc_to_exts h @ enc16 (length (enc_exts (ch_exts h))) @ enc_exts (ch_exts h)"
  by (simp add: enc_hello_def enc_hello_fields_def enc_to_defs enc_hello_head_def Let_def)

lemma enc_to_lengths:
  assumes "hello_wf h"
  shows "length (enc_to_session h) = 38"
    and "length (enc_to_ciphers h) = 39 + length (ch_session h)"
    and "length (enc_to_compression h) = 41 + length (ch_session h) + length (ch_ciphers h)"
    and "length (enc_to_exts h) = 42 + length (ch_session h) + length (ch_ciphers h) + length (ch_compression h)"
  using assms by (simp_all add: enc_to_defs enc_hello_head_def hello_wf_def Let_def)

lemma enc_hello_length:
  "hello_wf h \<Longrightarrow> length (enc_hello h) =
     44 + length (ch_session h) + length (ch_ciphers h) + length (ch_compression h) + length (enc_exts (ch_exts h))"
  "length (enc_hello h) = 4 + length (enc_hello_fields h)"
  subgoal by (simp add: enc_hello_exts enc_to_lengths)
  subgoal by (simp add: enc_hello_def Let_def)
  done

lemma enc_hello_head_bytes:
  assumes "hello_wf h"
  shows "byte_at (enc_hello h) 0 = Inr 1"
    and "byte_at (enc_hello h) 1 = Inr (length (enc_hello_fields h) div 65536)"
    and "byte_at (enc_hello h) 2 = Inr (length (enc_hello_fields h) mod 65536 div 256)"
    and "byte_at (enc_hello h) 3 = Inr (length (enc_hello_fields h) mod 256)"
proof -
  let ?n = "length (enc_hello_fields h)"
  have n: "?n < 65536" using assms by (simp add: hello_wf_def enc_hello_length(2))
  then have "?n div 65536 = 0" "?n mod 65536 = ?n" "?n div 256 < 256" by (auto simp: less_mult_imp_div_less)
  then show "byte_at (enc_hello h) 0 = Inr 1" "byte_at (enc_hello h) 1 = Inr (?n div 65536)"
    "byte_at (enc_hello h) 2 = Inr (?n mod 65536 div 256)" "byte_at (enc_hello h) 3 = Inr (?n mod 256)"
    by (simp_all add: enc_hello_def Let_def enc8_def enc16_def numeral_3_eq_3 numeral_2_eq_2 byte_at_def)
qed

lemma enc_hello_fields_bytes:
  assumes "hello_wf h"
  shows "byte_at (enc_hello h) 38 = Inr (length (ch_session h))"
    and "be_uint16 (enc_hello h) (39 + length (ch_session h)) = Inr (length (ch_ciphers h))"
    and "byte_at (enc_hello h) (41 + length (ch_session h) + length (ch_ciphers h))
      = Inr (length (ch_compression h))"
    and "be_uint16 (enc_hello h) (42 + length (ch_session h) + length (ch_ciphers h) + length (ch_compression h))
      = Inr (length (enc_exts (ch_exts h)))"
proof -
  have bounds: "length (ch_session h) < 256" "length (ch_compression h) < 256"
    "length (ch_ciphers h) < 65536" "length (enc_exts (ch_exts h)) < 65536"
    using assms enc_hello_length(1) [OF assms] by (simp_all add: hello_wf_def)
  note len = enc_to_lengths [OF assms]
  show "byte_at (enc_hello h) 38 = Inr (length (ch_session h))"
    using byte_at_enc8 [OF bounds(1) len(1)] by (simp add: enc_hello_exts enc_to_defs)
  show "be_uint16 (enc_hello h) (39 + length (ch_session h)) = Inr (length (ch_ciphers h))"
    using be_uint16_enc16 [OF bounds(3) len(2)]
    by (simp only: enc_hello_exts enc_to_exts_def enc_to_compression_def append_assoc)
  show "byte_at (enc_hello h) (41 + length (ch_session h) + length (ch_ciphers h)) = Inr (length (ch_compression h))"
    using byte_at_enc8 [OF bounds(2) len(3)]
    by (simp only: enc_hello_exts enc_to_exts_def append_assoc)
  show "be_uint16 (enc_hello h) (42 + length (ch_session h) + length (ch_ciphers h) + length (ch_compression h))
      = Inr (length (enc_exts (ch_exts h)))"
    using be_uint16_enc16 [OF bounds(4) len(4)] by (simp only: enc_hello_exts)
qed

text \<open>The parser on a record whose lengths fit: it continues at the extension list.\<close>

lemma ClientHelloServerName_steps:
  assumes "byte_at r 0 = Inr 22" and "be_uint16 r 3 = Inr (length body)"
    and "slice r 5 (5 + length body) = Inr body" and "5 + length body \<le> length r" and "42 \<le> length body"
    and "byte_at body 0 = Inr 1" and "byte_at body 1 = Inr l1" and "byte_at body 2 = Inr l2"
    and "byte_at body 3 = Inr l3" and "4 + (l1 * 65536 + l2 * 256 + l3) \<le> length body"
    and "byte_at body 38 = Inr s" and "be_uint16 body (39 + s) = Inr c"
    and "byte_at body (41 + s + c) = Inr m" and "be_uint16 body (42 + s + c + m) = Inr x"
    and "44 + s + c + m + x \<le> length body"
  shows "ClientHelloServerName r = sni_ext_loop body (44 + s + c + m + x) (44 + s + c + m)"
proof -
  have "\<not> length body - 4 < l1 * 65536 + l2 * 256 + l3" "\<not> length r - 5 < length body"
    using assms(4,10) by linarith+
  with assms show ?thesis
    by (simp add: ClientHelloServerName_def Let_def add.assoc del: byte_at_ok be_uint16_ok slice_ok)
qed

text \<open>
  C11. The parser inverts the wire format. For a well-formed ClientHello whose first \<open>server_name\<close> extension
  carries a name list, the result is the normal form of the first host name of that list, whatever other
  extensions and names come before or after it and whatever bytes follow the record.
\<close>

theorem ClientHelloServerName_roundtrip:
  assumes "hello_wf h" and "ch_exts h = skipped @ (0, enc_sni (others @ (0, name) # names)) # later"
    and "\<And>x. x \<in> set skipped \<Longrightarrow> fst x \<noteq> 0" and "\<And>n. n \<in> set others \<Longrightarrow> 0 < fst n \<and> fst n < 256"
  shows "ClientHelloServerName (enc_record h @ trailing) = normalizeHostname name"
proof -
  let ?d = "enc_sni (others @ (0, name) # names)"
  let ?r = "enc_record h @ trailing"
  let ?pre = "enc8 22 @ [CHR 0x03, CHR 0x01]"
  have H: "length (enc_hello h) < 65536" using assms(1) by (simp add: hello_wf_def)
  have r: "?r = [] @ enc8 22 @ ([CHR 0x03, CHR 0x01] @ enc16 (length (enc_hello h)) @ enc_hello h @ trailing)"
    "?r = ?pre @ enc16 (length (enc_hello h)) @ (enc_hello h @ trailing)"
    "?r = (?pre @ enc16 (length (enc_hello h))) @ enc_hello h @ trailing"
    by (simp_all add: enc_record_def)
  have lr: "length ?r = 5 + length (enc_hello h) + length trailing" by (simp add: enc_record_def)
  have 1: "byte_at ?r 0 = Inr 22" by (subst r(1)) (rule byte_at_enc8, simp_all)
  have 2: "be_uint16 ?r 3 = Inr (length (enc_hello h))"
    using H by (subst r(2)) (rule be_uint16_enc16, simp_all)
  have 3: "slice ?r 5 (5 + length (enc_hello h)) = Inr (enc_hello h)"
    by (subst r(3)) (rule slice_enc, simp_all)
  have exts: "length (enc_exts (ch_exts h)) < 65536" "length ?d < 65536"
    using H enc_hello_length(1) [OF assms(1)] assms(2) by (auto simp: enc_exts_def enc_ext_def)
  have "sni_ext_loop (enc_hello h) (44 + length (ch_session h) + length (ch_ciphers h)
      + length (ch_compression h) + length (enc_exts (ch_exts h)))
      (44 + length (ch_session h) + length (ch_ciphers h) + length (ch_compression h)) = normalizeHostname name"
    (is "sni_ext_loop _ ?e ?c = _")
  proof -
    have "sni_ext_loop ((enc_to_exts h @ enc16 (length (enc_exts (ch_exts h)))) @ enc_exts (ch_exts h)) ?e ?c
        = parseSNIServerName ?d"
      unfolding assms(2)
    proof (rule sni_ext_loop_enc)
      show "0 < fst x \<and> fst x < 65536" if "x \<in> set skipped" for x
        using that assms by (auto simp: hello_wf_def)
    qed (use exts assms(1,2) enc_to_lengths(4) in simp_all)
    then show ?thesis
      using parseSNIServerName_enc [OF assms(4) exts(2)] by (simp add: enc_hello_exts)
  qed
  moreover have "ClientHelloServerName ?r = sni_ext_loop (enc_hello h) ?e ?c"
    by (rule ClientHelloServerName_steps [OF 1 2 3 _ _ enc_hello_head_bytes [OF assms(1)] _
          enc_hello_fields_bytes [OF assms(1)]])
      (use lr enc_hello_length [of h] assms(1) H in simp_all)
  ultimately show ?thesis by simp
qed

definition sample_hello :: client_hello where
  "sample_hello = \<lparr>ch_version = [CHR 0x03, CHR 0x03], ch_random = replicate 32 CHR 0x2A, ch_session = [],
     ch_ciphers = [CHR 0x13, CHR 0x01], ch_compression = [CHR 0x00],
     ch_exts = [(43, [CHR 0x03, CHR 0x04]), (0, enc_sni [(0, ''Shop.Ex'')])]\<rparr>"

theorem ClientHelloServerName_roundtrip_witness:
  "ClientHelloServerName (enc_record sample_hello @ ''junk'') = Inr ''shop.ex''"
proof -
  have "hello_wf sample_hello" by code_simp
  moreover have "ch_exts sample_hello = [(43, [CHR 0x03, CHR 0x04])] @ (0, enc_sni ([] @ (0, ''Shop.Ex'') # [])) # []"
    by (simp add: sample_hello_def)
  ultimately have "ClientHelloServerName (enc_record sample_hello @ ''junk'') = normalizeHostname ''Shop.Ex''"
    by (rule ClientHelloServerName_roundtrip) simp_all
  also have "\<dots> = Inr ''shop.ex''" by code_simp
  finally show ?thesis .
qed

lemma sni_name_loop_normal: "sni_name_loop data e cursor = Inr n \<Longrightarrow> normalizeHostname n = Inr n"
proof (induction data e cursor rule: sni_name_loop.induct)
  case (1 data e cursor)
  have c: "cursor + 3 \<le> e"
    using 1(2) by (subst (asm) sni_name_loop.simps) (simp split: if_splits)
  from 1(2) show ?case
    by (subst (asm) sni_name_loop.simps) 
      (auto simp: res_simps simp del: One_nat_def neq0_conv dest: 1(1) [OF c] normalizeHostname_stable split: if_splits)
qed

lemma sni_ext_loop_normal: "sni_ext_loop body e cursor = Inr n \<Longrightarrow> normalizeHostname n = Inr n"
proof (induction body e cursor rule: sni_ext_loop.induct)
  case (1 body e cursor)
  have p: "parseSNIServerName d = Inr n \<Longrightarrow> normalizeHostname n = Inr n" for d
    by (auto simp: parseSNIServerName_def res_simps dest: sni_name_loop_normal split: if_splits)
  have c: "cursor + 4 \<le> e"
    using 1(2) by (subst (asm) sni_ext_loop.simps) (simp split: if_splits)
  from 1(2) show ?case
    by (subst (asm) sni_ext_loop.simps) 
      (auto simp: res_simps simp del: add_2_eq_Suc' neq0_conv dest: 1(1) [OF c] p split: if_splits)
qed

text \<open>
  C27. The parser is safe on every input: no byte string makes it read outside the record or one of its
  slices, so it never panics, and a name it returns is already in normal form.
\<close>

theorem ClientHelloServerName_safe:
  "ClientHelloServerName r \<noteq> Inl IndexPanic
   \<and> rbind (ClientHelloServerName r) normalizeHostname = ClientHelloServerName r"
proof
  show "ClientHelloServerName r \<noteq> Inl IndexPanic" by (rule ClientHelloServerName_no_panic)
  have "normalizeHostname n = Inr n" if "ClientHelloServerName r = Inr n" for n
    using that sni_ext_loop_normal
    by (auto simp: ClientHelloServerName_def Let_def res_simps split: if_splits)
  then show "rbind (ClientHelloServerName r) normalizeHostname = ClientHelloServerName r"
    by (cases "ClientHelloServerName r") auto
qed

end
