(* ===== verification/Ingress_Forward.thy ===== *)
theory Ingress_Forward
  imports Ingress
begin

text \<open>
  \<open>pkg/ingress/udp.go\<close>, \<open>proxy.go\<close>, \<open>websocket.go\<close>, \<open>log.go\<close> and \<open>runtime.go\<close>: what the ingress
  forwards, where to, and what it records about it. Sockets, the upstream transport and the websocket
  library are parameters: a send gives an error text or \<open>None\<close>. The effects of a handler are the
  datagrams or requests it sends out, its metric events and its log events.
\<close>

section \<open>Log events\<close>

datatype log_event = LogEvent string "(string \<times> string) list"

definition EventRequestAccepted :: string where "EventRequestAccepted = ''ingress.request.accepted''"
definition EventRequestRejected :: string where "EventRequestRejected = ''ingress.request.rejected''"
definition EventProxyError :: string where "EventProxyError = ''ingress.proxy.error''"

definition logRouteEvent :: "string \<Rightarrow> route \<Rightarrow> protocol \<Rightarrow> string \<Rightarrow> log_event" where
  "logRouteEvent event r p dec =
     LogEvent ''info'' [(''event'', event), (''tenant'', rt_tenant r), (''hostname'', rt_hostname r),
       (''target'', rt_target r), (''protocol'', p), (''decision'', dec), (''message'', event)]"

definition logRejectEvent :: "string \<Rightarrow> string \<Rightarrow> protocol \<Rightarrow> string \<Rightarrow> log_event" where
  "logRejectEvent event hostname p reason =
     LogEvent ''warn'' [(''event'', event), (''hostname'', hostname), (''protocol'', p),
       (''decision'', ''reject''), (''reason'', reason), (''message'', event)]"

section \<open>UDP flows\<close>

text \<open>A client address is its text, \<open>None\<close> for a nil \<open>net.Addr\<close>.\<close>

record udp_flow =
  uf_client :: string
  uf_hostname :: string
  uf_target :: string
  uf_last_seen :: gotime
  uf_created_at :: gotime

record udp_flow_table =
  ut_timeout :: duration
  ut_flows :: "(string, udp_flow) gomap"

datatype forward_error =
    ForwarderNotConfigured
  | UDPRouteNotFound string
  | RouteNotUDP string protocol
  | UDPTargetUnhealthy string
  | SendFailed string
  | NilClientPanic

definition NewUDPFlowTable :: "duration \<Rightarrow> udp_flow_table" where
  "NewUDPFlowTable timeout =
     \<lparr>ut_timeout = (if timeout \<le> 0 then DefaultUDPIdleTimeout else timeout), ut_flows = []\<rparr>"

definition udpFlowKey :: "string option \<Rightarrow> route \<Rightarrow> string" where
  "udpFlowKey client r =
     (case client of None \<Rightarrow> [] | Some a \<Rightarrow> a) @ ''|'' @ rt_hostname r @ ''|'' @ rt_target r"

text \<open>
  \<open>Resolve\<close>: a new flow takes the text of the client, which panics for a nil client.
\<close>

definition UDPFlowTable_Resolve ::
  "gotime \<Rightarrow> udp_flow_table \<Rightarrow> string option \<Rightarrow> route \<Rightarrow> gotime \<Rightarrow> udp_flow_table \<times> (forward_error + udp_flow)" where
  "UDPFlowTable_Resolve clock t client r now0 =
     (let now = (if is_zero_time now0 then clock else now0);
          k = udpFlowKey client r;
          known = (case gm_get (ut_flows t) k of
              Some f \<Rightarrow> Inr f
            | None \<Rightarrow> (case client of
                None \<Rightarrow> Inl NilClientPanic
              | Some a \<Rightarrow> Inr \<lparr>uf_client = a, uf_hostname = rt_hostname r, uf_target = rt_target r,
                               uf_last_seen = time_zero, uf_created_at = now\<rparr>)) in
      case known of
        Inl e \<Rightarrow> (t, Inl e)
      | Inr f \<Rightarrow>
          (let f' = f\<lparr>uf_last_seen := now\<rparr> in
           (t\<lparr>ut_flows := gm_put k f' (ut_flows t)\<rparr>, Inr f')))"

definition UDPFlowTable_Expire :: "gotime \<Rightarrow> udp_flow_table \<Rightarrow> gotime \<Rightarrow> udp_flow_table \<times> nat" where
  "UDPFlowTable_Expire clock t now0 =
     (let now = (if is_zero_time now0 then clock else now0);
          idle = (\<lambda>p. time_sub now (uf_last_seen (snd p)) > ut_timeout t) in
      (t\<lparr>ut_flows := filter (\<lambda>p. \<not> idle p) (ut_flows t)\<rparr>, length (filter idle (ut_flows t))))"

definition UDPFlowTable_Count :: "udp_flow_table \<Rightarrow> route \<Rightarrow> nat" where
  "UDPFlowTable_Count t r = length (filter (\<lambda>p. uf_hostname (snd p) = rt_hostname r) (ut_flows t))"

record udp_forwarder =
  fw_registry :: "route_registry option"
  fw_health :: "health_tracker option"
  fw_table :: udp_flow_table
  fw_metrics :: "metrics option"

definition NewUDPForwarder ::
  "route_registry option \<Rightarrow> health_tracker option \<Rightarrow> udp_flow_table option \<Rightarrow> metrics option \<Rightarrow> udp_forwarder" where
  "NewUDPForwarder registry health table m =
     \<lparr>fw_registry = registry, fw_health = health,
      fw_table = (case table of None \<Rightarrow> NewUDPFlowTable DefaultUDPIdleTimeout | Some t \<Rightarrow> t), fw_metrics = m\<rparr>"

type_synonym sender = "string \<Rightarrow> string \<Rightarrow> string option"

text \<open>
  \<open>Forward\<close> on a non-nil forwarder. The second component is the list of datagrams handed to the sender,
  each with its target.
\<close>

definition UDPForwarder_Forward ::
  "gotime \<Rightarrow> sender \<Rightarrow> udp_forwarder \<Rightarrow> string option \<Rightarrow> string \<Rightarrow> string \<Rightarrow> gotime \<Rightarrow>
     udp_forwarder \<times> (string \<times> string) list \<times> (forward_error + udp_flow)" where
  "UDPForwarder_Forward clock send f client hostname payload now =
     (if fw_registry f = None then (f, [], Inl ForwarderNotConfigured)
      else case Registry_Lookup (fw_registry f) hostname of
        None \<Rightarrow>
          (f\<lparr>fw_metrics := Metrics_RecordRejection (fw_metrics f) ProtocolUDP hostname ''unknown-host''\<rparr>, [],
           Inl (UDPRouteNotFound hostname))
      | Some r \<Rightarrow>
          if rt_protocol r \<noteq> ProtocolUDP then
            (f\<lparr>fw_metrics := Metrics_RecordRejection (fw_metrics f) ProtocolUDP (rt_hostname r) ''protocol-mismatch''\<rparr>,
             [], Inl (RouteNotUDP (rt_hostname r) (rt_protocol r)))
          else if fw_health f \<noteq> None \<and> \<not> Health_IsHealthy (fw_health f) r then
            (f\<lparr>fw_metrics := Metrics_RecordProxyError (fw_metrics f) r ''target-unhealthy''\<rparr>, [],
             Inl (UDPTargetUnhealthy (rt_target r)))
          else
            (case UDPFlowTable_Resolve clock (fw_table f) client r now of
               (t, Inl e) \<Rightarrow> (f\<lparr>fw_table := t\<rparr>, [], Inl e)
             | (t, Inr flow) \<Rightarrow>
                 (case send (rt_target r) payload of
                    Some err \<Rightarrow>
                      (f\<lparr>fw_table := t, fw_metrics := Metrics_RecordProxyError (fw_metrics f) r ''send-error''\<rparr>,
                       [(rt_target r, payload)], Inl (SendFailed err))
                  | None \<Rightarrow>
                      (f\<lparr>fw_table := t, fw_metrics := Metrics_SetActiveUDPFlows
                           (Metrics_RecordRequest (fw_metrics f) r) r (UDPFlowTable_Count t r)\<rparr>,
                       [(rt_target r, payload)], Inr flow))))"

section \<open>HTTP\<close>

type_synonym http_header = "(string, string list) gomap"

definition header_get :: "http_header \<Rightarrow> string \<Rightarrow> string" where
  "header_get h k = (case gm_get h k of Some (v # _) \<Rightarrow> v | _ \<Rightarrow> [])"

definition header_set :: "string \<Rightarrow> string \<Rightarrow> http_header \<Rightarrow> http_header" where
  "header_set k v h = gm_put k [v] h"

record http_request =
  rq_host :: string
  rq_tls :: bool
  rq_scheme :: string
  rq_url_host :: string
  rq_path :: string
  rq_uri :: string
  rq_header :: http_header

datatype http_reply =
    HTTPError nat string
  | Proxied http_request
  | ProxyFailed http_request nat string

definition StatusMisdirectedRequest :: nat where "StatusMisdirectedRequest = 421"
definition StatusBadGateway :: nat where "StatusBadGateway = 502"

record http_proxy =
  hp_registry :: "route_registry option"
  hp_health :: "health_tracker option"
  hp_metrics :: "metrics option"

definition NewHTTPProxy ::
  "route_registry option \<Rightarrow> health_tracker option \<Rightarrow> metrics option \<Rightarrow> http_proxy" where
  "NewHTTPProxy registry health m = \<lparr>hp_registry = registry, hp_health = health, hp_metrics = m\<rparr>"

definition setForwardedHeaders :: "http_request \<Rightarrow> http_request \<Rightarrow> http_request" where
  "setForwardedHeaders out inn =
     (let forwardedProto = trim_space (header_get (rq_header inn) ''X-Forwarded-Proto'');
          proto = (if forwardedProto \<noteq> [] then forwardedProto else if rq_tls inn then ''https'' else ''http'') in
      out\<lparr>rq_header := header_set ''X-Forwarded-Proto'' proto
                        (header_set ''X-Forwarded-Host'' (rq_host inn) (rq_header out))\<rparr>)"

text \<open>
  The director of \<open>NewSingleHostReverseProxy\<close> for a target without path and query: it sets scheme and
  host and makes the path absolute.
\<close>

definition single_host_director :: "string \<Rightarrow> http_request \<Rightarrow> http_request" where
  "single_host_director target out =
     out\<lparr>rq_scheme := ''http'', rq_url_host := target,
         rq_path := (if prefix ''/'' (rq_path out) then rq_path out else ''/'' @ rq_path out)\<rparr>"

definition proxy_director :: "route \<Rightarrow> http_request \<Rightarrow> http_request \<Rightarrow> http_request" where
  "proxy_director r inn out =
     setForwardedHeaders
       ((single_host_director (rt_target r) out)\<lparr>rq_host := rq_host inn, rq_url_host := rt_target r,
          rq_scheme := ''http''\<rparr>) inn"

text \<open>
  \<open>ServeHTTP\<close>. The transport gets the directed copy of the request and says whether the round trip
  succeeded; otherwise the error handler replies. What the reverse proxy does to the headers after the
  director (hop-by-hop headers, \<open>X-Forwarded-For\<close>) belongs to the transport.
\<close>

definition HTTPProxy_ServeHTTP ::
  "(http_request \<Rightarrow> bool) \<Rightarrow> http_proxy \<Rightarrow> http_request \<Rightarrow> http_proxy \<times> log_event list \<times> http_reply" where
  "HTTPProxy_ServeHTTP transport p r =
     (let hostname = stripPort (rq_host r) in
      case Registry_Lookup (hp_registry p) hostname of
        None \<Rightarrow>
          (p\<lparr>hp_metrics := Metrics_RecordRejection (hp_metrics p) ProtocolHTTP hostname ''unknown-host''\<rparr>,
           [logRejectEvent EventRequestRejected hostname ProtocolHTTP ''unknown-host''],
           HTTPError StatusMisdirectedRequest ''unknown ingress hostname'')
      | Some route \<Rightarrow>
          if rt_protocol route \<noteq> ProtocolHTTP \<and> rt_protocol route \<noteq> ProtocolWebSocket
             \<and> rt_protocol route \<noteq> ProtocolTCP then
            (p\<lparr>hp_metrics := Metrics_RecordRejection (hp_metrics p) (rt_protocol route) (rt_hostname route)
                 ''protocol-mismatch''\<rparr>,
             [logRejectEvent EventRequestRejected hostname (rt_protocol route) ''protocol-mismatch''],
             HTTPError StatusBadGateway ''ingress protocol mismatch'')
          else if hp_health p \<noteq> None \<and> \<not> Health_IsHealthy (hp_health p) route then
            (p\<lparr>hp_metrics := Metrics_RecordProxyError (hp_metrics p) route ''target-unhealthy''\<rparr>,
             [logRouteEvent EventProxyError route (rt_protocol route) ''target-unhealthy''],
             HTTPError StatusBadGateway ''target unhealthy'')
          else
            (let out = proxy_director route r r;
                 m = Metrics_RecordRequest (hp_metrics p) route;
                 accepted = logRouteEvent EventRequestAccepted route (rt_protocol route) ''accept'' in
             if transport out then (p\<lparr>hp_metrics := m\<rparr>, [accepted], Proxied out)
             else (p\<lparr>hp_metrics := Metrics_RecordProxyError m route ''proxy-error''\<rparr>,
                   [accepted, logRouteEvent EventProxyError route (rt_protocol route) ''proxy-error''],
                   ProxyFailed out StatusBadGateway ''proxy error'')))"

section \<open>WebSockets\<close>

datatype ws_reply =
    WSRejected nat string
  | WSNotUpgraded
  | WSTargetUnavailable string
  | WSBridged string "string option"

text \<open>
  \<open>copyWebSocket\<close> on the results of successive reads: it returns at the first failed read or write and
  otherwise waits for the next message. The first component is what was written.
\<close>

fun copyWebSocket ::
  "('m \<Rightarrow> string option) \<Rightarrow> (string + 'm) list \<Rightarrow> 'm list \<times> string option" where
  "copyWebSocket write [] = ([], None)"
| "copyWebSocket write (Inl err # reads) = ([], Some err)"
| "copyWebSocket write (Inr m # reads) =
     (case write m of
        Some err \<Rightarrow> ([], Some (''write websocket message: '' @ err))
      | None \<Rightarrow> (case copyWebSocket write reads of (ms, e) \<Rightarrow> (m # ms, e)))"

text \<open>
  \<open>ServeHTTP\<close>. \<open>accept\<close> is the outcome of the upgrade, \<open>dial\<close> that of the dial with the URL and the Host
  header, \<open>copied\<close> the error of the first copy direction to end.
\<close>

definition WebSocketProxy_ServeHTTP ::
  "bool \<Rightarrow> (string \<Rightarrow> string \<Rightarrow> bool) \<Rightarrow> string option \<Rightarrow> http_proxy \<Rightarrow> http_request \<Rightarrow>
     http_proxy \<times> log_event list \<times> ws_reply" where
  "WebSocketProxy_ServeHTTP accept dial copied p r =
     (let hostname = stripPort (rq_host r) in
      case Registry_Lookup (hp_registry p) hostname of
        None \<Rightarrow>
          (p\<lparr>hp_metrics := Metrics_RecordRejection (hp_metrics p) ProtocolWebSocket hostname ''unknown-host''\<rparr>,
           [logRejectEvent EventRequestRejected hostname ProtocolWebSocket ''unknown-host''],
           WSRejected StatusMisdirectedRequest ''unknown ingress hostname'')
      | Some route \<Rightarrow>
          if rt_protocol route \<noteq> ProtocolWebSocket then
            (p\<lparr>hp_metrics := Metrics_RecordRejection (hp_metrics p) ProtocolWebSocket (rt_hostname route)
                 ''protocol-mismatch''\<rparr>,
             [logRejectEvent EventRequestRejected hostname ProtocolWebSocket ''protocol-mismatch''],
             WSRejected StatusBadGateway ''ingress protocol mismatch'')
          else if hp_health p \<noteq> None \<and> \<not> Health_IsHealthy (hp_health p) route then
            (p\<lparr>hp_metrics := Metrics_RecordProxyError (hp_metrics p) route ''target-unhealthy''\<rparr>,
             [logRouteEvent EventProxyError route ProtocolWebSocket ''target-unhealthy''],
             WSRejected StatusBadGateway ''target unhealthy'')
          else if \<not> accept then (p, [], WSNotUpgraded)
          else
            (let targetURL = ''ws://'' @ rt_target route @ rq_uri r in
             if \<not> dial targetURL (rq_host r) then
               (p\<lparr>hp_metrics := Metrics_RecordProxyError (hp_metrics p) route ''target-dial''\<rparr>,
                [logRouteEvent EventProxyError route ProtocolWebSocket ''target-dial''],
                WSTargetUnavailable targetURL)
             else
               (let m = Metrics_RecordRequest (hp_metrics p) route;
                    m' = (if copied \<noteq> None then Metrics_RecordProxyError m route ''copy-error'' else m) in
                (p\<lparr>hp_metrics := m'\<rparr>,
                 [logRouteEvent EventRequestAccepted route ProtocolWebSocket ''accept''],
                 WSBridged targetURL copied))))"

section \<open>The runtime\<close>

record ingress_runtime =
  irt_cfg :: ingress_config
  irt_plan :: ingress_plan
  irt_registry :: route_registry
  irt_health :: health_tracker
  irt_metrics :: metrics
  irt_started :: bool

definition NewRuntime :: "ingress_config \<Rightarrow> ingress_error + ingress_runtime" where
  "NewRuntime cfg =
     rbind (NormalizeConfig cfg) (\<lambda>n.
     rbind (PlanConfig n) (\<lambda>plan.
     rbind (NewRegistry (ic_routes n)) (\<lambda>registry.
     Inr \<lparr>irt_cfg = n, irt_plan = plan, irt_registry = registry, irt_health = NewHealthTracker,
          irt_metrics = [], irt_started = False\<rparr>)))"

definition routeHostnames :: "route list \<Rightarrow> string list" where
  "routeHostnames routes = map rt_hostname routes"

record acme_config =
  ac_host_whitelist :: "string list"
  ac_cache_dir :: string
  ac_email :: string
  ac_next_protos :: "string list"

definition tlsConfig :: "ingress_runtime \<Rightarrow> acme_config option" where
  "tlsConfig rt =
     (if ic_acme_cache_dir (irt_cfg rt) = [] then None
      else Some \<lparr>ac_host_whitelist = routeHostnames (ic_routes (irt_cfg rt)),
                 ac_cache_dir = ic_acme_cache_dir (irt_cfg rt), ac_email = ic_acme_email (irt_cfg rt),
                 ac_next_protos = [''h2'', ''http/1.1'', ''h3'']\<rparr>)"

datatype listener =
    HTTPListener string bool
  | HTTP3Listener string
  | MetricsListener string

text \<open>The servers that \<open>Run\<close> starts.\<close>

definition run_listeners :: "ingress_runtime \<Rightarrow> listener list" where
  "run_listeners rt =
     (let tls = tlsConfig rt \<noteq> None; a = ic_public_address (irt_cfg rt); m = ic_metrics_address (irt_cfg rt) in
      [HTTPListener a tls]
      @ (if ip_http3_enabled (irt_plan rt) \<and> tls then [HTTP3Listener a] else [])
      @ (if m \<noteq> [] then [MetricsListener m] else []))"

section \<open>The flow table refines a map\<close>

text \<open>
  The table is a map from client, hostname and target to the time a flow was created and the time it was
  last seen. The keys are texts joined with a bar; they determine their parts because neither a client
  address nor a hostname contains one.
\<close>

type_synonym flow_triple = "string \<times> string \<times> string"

definition udp_key :: "flow_triple \<Rightarrow> string" where
  "udp_key k = (case k of (a, h, g) \<Rightarrow> a @ ''|'' @ h @ ''|'' @ g)"

definition plain_key :: "flow_triple \<Rightarrow> bool" where
  "plain_key k \<longleftrightarrow> (case k of (a, h, g) \<Rightarrow> CHR ''|'' \<notin> set a \<and> CHR ''|'' \<notin> set h)"

lemma bar_inject:
  "CHR ''|'' \<notin> set a \<Longrightarrow> CHR ''|'' \<notin> set b \<Longrightarrow> a @ CHR ''|'' # u = b @ CHR ''|'' # v \<longleftrightarrow> a = b \<and> u = v"
  by (metis cut_append option.inject prod.inject)

lemma udp_key_inject: "plain_key k \<Longrightarrow> plain_key l \<Longrightarrow> udp_key k = udp_key l \<longleftrightarrow> k = l"
  by (cases k; cases l) (simp add: plain_key_def udp_key_def bar_inject)

type_synonym flow_spec = "flow_triple \<rightharpoonup> gotime \<times> gotime"

datatype udp_op =
    OpResolve string route gotime
  | OpExpire gotime

definition op_plain :: "udp_op \<Rightarrow> bool" where
  "op_plain x \<longleftrightarrow> (case x of
     OpResolve a r now \<Rightarrow> plain_key (a, rt_hostname r, rt_target r) | OpExpire now \<Rightarrow> True)"

definition flow_step :: "gotime \<Rightarrow> udp_op \<Rightarrow> udp_flow_table \<Rightarrow> udp_flow_table" where
  "flow_step clock x t = (case x of
     OpResolve a r now \<Rightarrow> fst (UDPFlowTable_Resolve clock t (Some a) r now)
   | OpExpire now \<Rightarrow> fst (UDPFlowTable_Expire clock t now))"

definition spec_time :: "gotime \<Rightarrow> gotime \<Rightarrow> gotime" where
  "spec_time clock now = (if is_zero_time now then clock else now)"

definition spec_step :: "duration \<Rightarrow> gotime \<Rightarrow> udp_op \<Rightarrow> flow_spec \<Rightarrow> flow_spec" where
  "spec_step d clock x m = (case x of
     OpResolve a r now \<Rightarrow>
       (let k = (a, rt_hostname r, rt_target r); t = spec_time clock now in
        m(k \<mapsto> (case m k of None \<Rightarrow> (t, t) | Some (created, _) \<Rightarrow> (created, t))))
   | OpExpire now \<Rightarrow>
       (\<lambda>k. case m k of None \<Rightarrow> None
          | Some (created, seen) \<Rightarrow>
              if time_sub (spec_time clock now) seen > d then None else Some (created, seen)))"

definition abs_flows :: "udp_flow_table \<Rightarrow> flow_spec" where
  "abs_flows t k =
     (if plain_key k
      then map_option (\<lambda>f. (uf_created_at f, uf_last_seen f)) (gm_get (ut_flows t) (udp_key k))
      else None)"

definition table_ok :: "duration \<Rightarrow> udp_flow_table \<Rightarrow> bool" where
  "table_ok d t \<longleftrightarrow> gm_wf (ut_flows t) \<and> ut_timeout t = d"

lemma udpFlowKey_Some: "udpFlowKey (Some a) r = udp_key (a, rt_hostname r, rt_target r)"
  by (simp add: udpFlowKey_def udp_key_def)

lemma flow_step_table_ok: "table_ok d t \<Longrightarrow> table_ok d (flow_step clock x t)"
  by (auto simp: table_ok_def flow_step_def UDPFlowTable_Resolve_def UDPFlowTable_Expire_def Let_def
      gm_wf_put gm_wf_filter split: udp_op.splits option.splits)

lemma Resolve_refines:
  assumes "plain_key (a, rt_hostname r, rt_target r)"
  shows "abs_flows (fst (UDPFlowTable_Resolve clock t (Some a) r now))
    = spec_step d clock (OpResolve a r now) (abs_flows t)"
proof
  fix k
  show "abs_flows (fst (UDPFlowTable_Resolve clock t (Some a) r now)) k
    = spec_step d clock (OpResolve a r now) (abs_flows t) k"
    using assms udp_key_inject [of k "(a, rt_hostname r, rt_target r)"]
    by (auto simp: abs_flows_def spec_step_def spec_time_def UDPFlowTable_Resolve_def Let_def udpFlowKey_Some
        gm_simps split: option.splits if_splits)
qed

lemma Expire_refines:
  assumes "table_ok d t"
  shows "abs_flows (fst (UDPFlowTable_Expire clock t now)) = spec_step d clock (OpExpire now) (abs_flows t)"
proof
  fix k
  show "abs_flows (fst (UDPFlowTable_Expire clock t now)) k = spec_step d clock (OpExpire now) (abs_flows t) k"
    using assms
    by (auto simp: abs_flows_def spec_step_def spec_time_def UDPFlowTable_Expire_def Let_def table_ok_def
        gm_get_filter split: option.splits if_splits)
qed

lemma flow_step_refines:
  "table_ok d t \<Longrightarrow> op_plain x \<Longrightarrow> abs_flows (flow_step clock x t) = spec_step d clock x (abs_flows t)"
  by (cases x) (simp_all add: flow_step_def op_plain_def Resolve_refines Expire_refines)

text \<open>
  C30. The UDP flow table implements a map. Any sequence of resolutions and expirations acts on the table as
  on a map from client, hostname and target to creation and last-seen times: a resolution creates the flow
  or refreshes it without changing its creation time and without touching another flow, an expiration
  removes exactly the flows idle for longer than the timeout.
\<close>

theorem UDPFlowTable_refines:
  assumes "\<And>x. x \<in> set ops \<Longrightarrow> op_plain x"
  shows "abs_flows (fold (flow_step clock) ops (NewUDPFlowTable d))
    = fold (spec_step (if d \<le> 0 then DefaultUDPIdleTimeout else d) clock) ops Map.empty"
proof -
  let ?d = "if d \<le> 0 then DefaultUDPIdleTimeout else d"
  have run: "abs_flows (fold (flow_step clock) ops t) = fold (spec_step ?d clock) ops (abs_flows t)"
    if "table_ok ?d t" for t
    using that assms
  proof (induction ops arbitrary: t)
    case (Cons x ops)
    then show ?case using flow_step_table_ok [OF Cons.prems(1)] flow_step_refines [OF Cons.prems(1)] by simp
  qed simp
  have "table_ok ?d (NewUDPFlowTable d)" by (simp add: table_ok_def NewUDPFlowTable_def)
  moreover have "abs_flows (NewUDPFlowTable d) = Map.empty" by (auto simp: abs_flows_def NewUDPFlowTable_def)
  ultimately show ?thesis using run by metis
qed

theorem UDPFlowTable_refines_witness:
  "abs_flows (fold (flow_step 0) [OpResolve ''1.2.3.4:5'' demo_normal 10, OpResolve ''1.2.3.4:6'' demo_normal 15,
     OpResolve ''1.2.3.4:5'' demo_normal 20, OpExpire (30 * second + 16)] (NewUDPFlowTable 0))
   = [(''1.2.3.4:5'', ''b.ex'', ''10.0.0.2:80'') \<mapsto> (10, 20)]"
proof -
  have "abs_flows (fold (flow_step 0) [OpResolve ''1.2.3.4:5'' demo_normal 10, OpResolve ''1.2.3.4:6'' demo_normal 15,
      OpResolve ''1.2.3.4:5'' demo_normal 20, OpExpire (30 * second + 16)] (NewUDPFlowTable 0))
    = fold (spec_step DefaultUDPIdleTimeout 0) [OpResolve ''1.2.3.4:5'' demo_normal 10, OpResolve ''1.2.3.4:6'' demo_normal 15,
        OpResolve ''1.2.3.4:5'' demo_normal 20, OpExpire (30 * second + 16)] Map.empty"
    by (subst UDPFlowTable_refines) (auto simp: op_plain_def plain_key_def demo_normal_def)
  also have "\<dots> = [(''1.2.3.4:5'', ''b.ex'', ''10.0.0.2:80'') \<mapsto> (10, 20)]"
    by (rule ext) (simp add: spec_step_def spec_time_def demo_normal_def is_zero_time_def DefaultUDPIdleTimeout_def
        second_def nsec_per_sec_def time_sub_def min_int64_def max_int64_def)
  finally show ?thesis .
qed

section \<open>What reaches a target\<close>

lemma normalizeHostname_trim: "normalizeHostname (trim_space h) = Inr n \<longleftrightarrow> normalizeHostname h = Inr n"
  by (auto simp: normalizeHostname_def Let_def res_simps check_labels_ok)

lemma stripPort_twice: "stripPort (stripPort h) = trim_space (stripPort h)"
proof (cases "count_list (trim_space h) CHR '':'' = 1")
  case True
  then have "CHR '':'' \<in> set (trim_space h)" using count_list_0_iff [of "trim_space h" "CHR '':''"] by fastforce
  then obtain a b where c: "cut CHR '':'' (trim_space h) = Some (a, b)"
    using cut_None_iff [of "CHR '':''" "trim_space h"] by auto
  then have "stripPort h = a" using True by (auto simp: stripPort_def Let_def)
  moreover have "CHR '':'' \<notin> set (trim_space a)" using cut_Some [OF c] set_trim_space by auto
  then have "stripPort a = trim_space a" by (simp add: stripPort_def Let_def count_notin)
  ultimately show ?thesis by simp
next
  case False
  then have "stripPort h = trim_space h" by (simp add: stripPort_def Let_def)
  with False show ?thesis by (simp add: stripPort_def Let_def)
qed

lemma Snapshot_Lookup_stripPort: "Snapshot_Lookup s (stripPort h) = Snapshot_Lookup s h"
proof -
  have "\<forall>n. normalizeHostname (stripPort (stripPort h)) = Inr n \<longleftrightarrow> normalizeHostname (stripPort h) = Inr n"
    by (simp add: stripPort_twice normalizeHostname_trim)
  then show ?thesis by (auto simp: Snapshot_Lookup_def split: option.split sum.split)
qed

lemma runtime_routes:
  assumes "NewRuntime cfg = Inr rt"
  shows "Registry_Lookup (Some (irt_registry rt)) h = Some r \<longleftrightarrow>
      (\<exists>c \<in> set (ic_routes cfg). NormalizeRoute c = Inr r) \<and> normalizeHostname (stripPort h) = Inr (rt_hostname r)"
proof -
  from assms obtain n s where n: "NormalizeConfig cfg = Inr n" "NewSnapshot (ic_routes n) = Inr s"
    "irt_registry rt = \<lparr>rr_current = Some s\<rparr>"
    by (auto simp: NewRuntime_def NewRegistry_def res_simps)
  then have t: "traverse_from 0 (\<lambda>j r. map_err (RouteAt j) (NormalizeRoute r)) (ic_routes cfg) = Inr (ic_routes n)"
    by (auto simp: NormalizeConfig_def Let_def res_simps normalize_routes_traverse split: if_splits)
  have "(\<exists>c \<in> set (ic_routes n). NormalizeRoute c = Inr r) \<longleftrightarrow> (\<exists>c \<in> set (ic_routes cfg). NormalizeRoute c = Inr r)"
    (is "?l \<longleftrightarrow> ?r")
  proof
    assume ?l
    then obtain c where c: "c \<in> set (ic_routes n)" "NormalizeRoute c = Inr r" by blast
    from traverse_from_set [OF t c(1)] obtain d where d: "d \<in> set (ic_routes cfg)" "NormalizeRoute d = Inr c"
      by (auto simp: res_simps)
    then show ?r using nr.norm_stable [OF d(2)] c(2) by auto
  next
    assume ?r
    then obtain k where k: "k < length (ic_routes cfg)" "NormalizeRoute (ic_routes cfg ! k) = Inr r"
      by (auto simp: in_set_conv_nth)
    from traverse_from_nth [OF t k(1)] k have "r = ic_routes n ! k" by (simp add: res_simps)
    moreover have "k < length (ic_routes n)" using traverse_from_length [OF t] k(1) by simp
    ultimately show ?l using nr.norm_stable [OF k(2)] nth_mem by blast
  qed
  then show ?thesis
    using published_Lookup [OF n(2)] n(3) by (simp add: Registry_Lookup_def Registry_Snapshot_def)
qed

definition forwarded :: "http_proxy \<times> log_event list \<times> http_reply \<Rightarrow> http_request option" where
  "forwarded x = (case snd (snd x) of HTTPError _ _ \<Rightarrow> None | Proxied out \<Rightarrow> Some out | ProxyFailed out _ _ \<Rightarrow> Some out)"

lemma NormalizeRoute_protocol:
  "NormalizeRoute c = Inr r \<Longrightarrow>
     (rt_protocol r = ProtocolHTTP \<or> rt_protocol r = ProtocolWebSocket \<or> rt_protocol r = ProtocolTCP)
       \<longleftrightarrow> rt_protocol r \<noteq> ProtocolUDP"
  using NormalizeRoute_fields(6) [of c r]
  by (auto simp: validateProtocol_def ProtocolHTTP_def ProtocolWebSocket_def ProtocolTCP_def ProtocolUDP_def
      split: if_splits)

lemma ServeHTTP_forwarded:
  "forwarded (HTTPProxy_ServeHTTP transport p r) = Some out \<longleftrightarrow>
     (\<exists>route. Registry_Lookup (hp_registry p) (rq_host r) = Some route
        \<and> (rt_protocol route = ProtocolHTTP \<or> rt_protocol route = ProtocolWebSocket \<or> rt_protocol route = ProtocolTCP)
        \<and> Health_IsHealthy (hp_health p) route \<and> out = proxy_director route r r)"
  by (auto simp: forwarded_def HTTPProxy_ServeHTTP_def Let_def Registry_Lookup_def Snapshot_Lookup_stripPort
      Health_IsHealthy_def split: option.splits if_splits)

text \<open>
  C28. Only configured targets. With the registry of a runtime built from \<open>cfg\<close>, the HTTP proxy sends a request
  out exactly when a configured route has the hostname of the Host header, does not carry UDP and is
  healthy. The request then goes to that route's target, with the client's Host header kept and repeated in
  \<open>X-Forwarded-Host\<close>.
\<close>

theorem HTTPProxy_forwards_exactly:
  assumes "NewRuntime cfg = Inr rt"
  shows "(forwarded (HTTPProxy_ServeHTTP transport (NewHTTPProxy (Some (irt_registry rt)) health m) r) = Some out
      \<longleftrightarrow> (\<exists>c \<in> set (ic_routes cfg). \<exists>route. NormalizeRoute c = Inr route
            \<and> normalizeHostname (stripPort (rq_host r)) = Inr (rt_hostname route)
            \<and> rt_protocol route \<noteq> ProtocolUDP \<and> Health_IsHealthy health route \<and> out = proxy_director route r r))
    \<and> rq_url_host (proxy_director route r r) = rt_target route \<and> rq_host (proxy_director route r r) = rq_host r
    \<and> header_get (rq_header (proxy_director route r r)) ''X-Forwarded-Host'' = rq_host r"
proof -
  have "rq_url_host (proxy_director route r r) = rt_target route \<and> rq_host (proxy_director route r r) = rq_host r
    \<and> header_get (rq_header (proxy_director route r r)) ''X-Forwarded-Host'' = rq_host r"
    by (simp add: proxy_director_def setForwardedHeaders_def single_host_director_def Let_def header_get_def
        header_set_def gm_simps)
  then show ?thesis
    using NormalizeRoute_protocol by (auto simp: ServeHTTP_forwarded NewHTTPProxy_def runtime_routes [OF assms])
qed

definition demo_config :: ingress_config where
  "demo_config = \<lparr>ic_name = ''in1'', ic_overlay_ip = ''10.9.0.1'', ic_public_address = '':443'',
     ic_routes = [demo_route ''B.ex''], ic_health_probe_interval = 0, ic_udp_idle_timeout = 0,
     ic_metrics_address = [], ic_acme_cache_dir = [], ic_acme_email = [], ic_enable_http3 = False\<rparr>"

definition demo_request :: http_request where
  "demo_request = \<lparr>rq_host = ''b.ex:8443'', rq_tls = True, rq_scheme = [], rq_url_host = [], rq_path = ''/x'',
     rq_uri = ''/x'', rq_header = []\<rparr>"

lemma demo_runtime: "\<exists>rt. NewRuntime demo_config = Inr rt"
proof -
  have "is_ok (NewRuntime demo_config)" by code_simp
  then show ?thesis by (auto simp: is_ok_iff)
qed

lemma demo_request_host: "normalizeHostname (stripPort (rq_host demo_request)) = Inr (rt_hostname demo_normal)"
  "rt_protocol demo_normal \<noteq> ProtocolUDP"
  by code_simp+

theorem HTTPProxy_forwards_exactly_witness:
  "\<exists>rt out. NewRuntime demo_config = Inr rt
     \<and> forwarded (HTTPProxy_ServeHTTP (\<lambda>_. True) (NewHTTPProxy (Some (irt_registry rt)) None None) demo_request)
         = Some out
     \<and> rq_url_host out = ''10.0.0.2:80'' \<and> header_get (rq_header out) ''X-Forwarded-Host'' = ''b.ex:8443''"
proof -
  obtain rt where rt: "NewRuntime demo_config = Inr rt" using demo_runtime by blast
  note p = HTTPProxy_forwards_exactly [OF rt, of "\<lambda>_. True" None None demo_request
      "proxy_director demo_normal demo_request demo_request" demo_normal]
  have "forwarded (HTTPProxy_ServeHTTP (\<lambda>_. True) (NewHTTPProxy (Some (irt_registry rt)) None None) demo_request)
      = Some (proxy_director demo_normal demo_request demo_request)"
    using p demo_request_host demo_accepts(4) by (auto simp: demo_config_def Health_IsHealthy_def)
  then show ?thesis
    using p rt by (auto simp: demo_normal_def demo_request_def)
qed

lemma Forward_result:
  assumes "UDPForwarder_Forward clock send f (Some a) h payload now = (f', sent, res)"
  shows "(case Registry_Lookup (fw_registry f) h of
      Some r \<Rightarrow> if rt_protocol r = ProtocolUDP \<and> Health_IsHealthy (fw_health f) r
        then sent = [(rt_target r, payload)] \<and> (is_ok res \<longleftrightarrow> send (rt_target r) payload = None)
        else sent = [] \<and> \<not> is_ok res \<and> fw_table f' = fw_table f
    | None \<Rightarrow> sent = [] \<and> \<not> is_ok res \<and> fw_table f' = fw_table f)"
  using assms
  by (auto simp: UDPForwarder_Forward_def UDPFlowTable_Resolve_def Let_def Health_IsHealthy_def Registry_Lookup_def
      Registry_Snapshot_def Snapshot_Lookup_def split: option.splits if_splits sum.splits prod.splits)


definition demo_udp_config :: ingress_config where
  "demo_udp_config = demo_config\<lparr>ic_routes := [(demo_route ''dns.ex'')\<lparr>rt_mode := ''udp_forward''\<rparr>]\<rparr>"

definition demo_forwarder :: "ingress_runtime \<Rightarrow> udp_forwarder" where
  "demo_forwarder rt = NewUDPForwarder (Some (irt_registry rt)) None None None"

lemma demo_forward:
  "case NewRuntime demo_udp_config of Inl _ \<Rightarrow> False | Inr rt \<Rightarrow>
     fst (snd (UDPForwarder_Forward 5 (\<lambda>_ _. None) (demo_forwarder rt) (Some ''1.2.3.4:5'') ''dns.ex'' ''q'' 7))
       = [(''10.0.0.2:80'', ''q'')]"
  by code_simp


text \<open>
  C38. Certificates match routes. When the runtime manages certificates, its host whitelist holds exactly the
  hostnames that the registry resolves to a route of that very name, each once.
\<close>

theorem tlsConfig_hosts:
  assumes "NewRuntime cfg = Inr rt" and "tlsConfig rt = Some c"
  shows "distinct (ac_host_whitelist c)
    \<and> (h \<in> set (ac_host_whitelist c) \<longleftrightarrow>
         (\<exists>r. Registry_Lookup (Some (irt_registry rt)) h = Some r \<and> rt_hostname r = h))"
proof -
  from assms obtain n s where n: "NormalizeConfig cfg = Inr n" "NewSnapshot (ic_routes n) = Inr s"
    "irt_registry rt = \<lparr>rr_current = Some s\<rparr>" and c: "ac_host_whitelist c = map rt_hostname (ic_routes n)"
    by (auto simp: NewRuntime_def NewRegistry_def res_simps tlsConfig_def routeHostnames_def split: if_splits)
  from n(1) have t: "traverse_from 0 (\<lambda>j r. map_err (RouteAt j) (NormalizeRoute r)) (ic_routes cfg) = Inr (ic_routes n)"
    by (auto simp: NormalizeConfig_def Let_def res_simps normalize_routes_traverse split: if_splits)
  have stable: "NormalizeRoute r = Inr r" if "r \<in> set (ic_routes n)" for r
    using traverse_from_set [OF t that] by (auto simp: res_simps dest: nr.norm_stable)
  then have "list_all2 (\<lambda>r n. NormalizeRoute r = Inr n) (ic_routes n) (ic_routes n)" by (simp add: list_all2_same)
  moreover have "list_all2 (\<lambda>r n. NormalizeRoute r = Inr n) (ic_routes n) (rs_routes s)"
    using n(2) by (simp add: NewSnapshot_ok_iff)
  ultimately have rs: "rs_routes s = ic_routes n"
    by (auto simp: list_all2_conv_all_nth intro!: nth_equalityI)
  have ok: "routes_ok s" using n(2) by (simp add: NewSnapshot_ok_iff)
  have "Registry_Lookup (Some (irt_registry rt)) h = Some r \<longleftrightarrow> r \<in> set (ic_routes n)
      \<and> normalizeHostname (stripPort h) = Inr (rt_hostname r)" for r
    using route_Lookup_iff [OF ok] rs n(3) by (simp add: Registry_Lookup_def Registry_Snapshot_def)
  moreover have "normalizeHostname (stripPort (rt_hostname r)) = Inr (rt_hostname r)" if "r \<in> set (ic_routes n)" for r
    using NormalizeRoute_fields(1) [OF stable [OF that]] normalizeHostname_text host_text_stable(4) by metis
  ultimately show ?thesis using ok c rs by (auto simp: routes_ok_def)
qed

definition demo_acme_config :: ingress_config where
  "demo_acme_config = demo_config\<lparr>ic_acme_cache_dir := ''/var/acme''\<rparr>"

theorem tlsConfig_hosts_witness:
  "\<exists>rt c. NewRuntime demo_acme_config = Inr rt \<and> tlsConfig rt = Some c
     \<and> (''b.ex'' \<in> set (ac_host_whitelist c) \<longleftrightarrow>
          (\<exists>r. Registry_Lookup (Some (irt_registry rt)) ''b.ex'' = Some r \<and> rt_hostname r = ''b.ex''))
     \<and> ''b.ex'' \<in> set (ac_host_whitelist c)"
proof -
  have d: "case NewRuntime demo_acme_config of Inl _ \<Rightarrow> False | Inr rt \<Rightarrow>
      map_option ac_host_whitelist (tlsConfig rt) = Some [''b.ex'']" by code_simp
  then obtain rt c where rt: "NewRuntime demo_acme_config = Inr rt" "tlsConfig rt = Some c"
      "ac_host_whitelist c = [''b.ex'']"
    by (auto split: sum.splits)
  then show ?thesis using tlsConfig_hosts [OF rt(1,2), of "''b.ex''"] by auto
qed

end
