(* ===== verification/CP_Ledger.thy ===== *)
theory CP_Ledger
  imports Go_Net
begin

text \<open>
  \<open>pkg/control_plane/ledger.go\<close>: which master owns each overlay /32. A mutation returns, besides its
  result, the notifications it sends to the listener. \<open>Drain\<close> does not hold the lock over its loop; the
  other goroutines are a parameter that may change the ledger before each of its iterations.
\<close>

section \<open>Entries and operations\<close>

record ownership_entry =
  oe_overlay_ip :: string
  oe_owning_master :: string
  oe_last_reassigned_at :: gotime
  oe_previous_owner :: string
  oe_reason :: string
  oe_version :: int

datatype ledger_error =
    ErrLedgerOverlayInvalid string
  | ErrLedgerEmptyMaster
  | ErrLedgerNotFound
  | ErrLedgerOwnerChanged string string string

record ledger =
  le_entries :: "(string, ownership_entry) gomap"
  le_version :: int
  le_listener :: bool

type_synonym ledger_note = "ownership_entry list \<times> int"

definition NewLedger :: ledger where
  "NewLedger = \<lparr>le_entries = [], le_version = 0, le_listener = False\<rparr>"

definition SetListener :: "ledger \<Rightarrow> bool \<Rightarrow> ledger" where
  "SetListener l listener = l\<lparr>le_listener := listener\<rparr>"

definition snapshotLocked :: "ledger \<Rightarrow> ownership_entry list" where
  "snapshotLocked l = sort_slice oe_overlay_ip (map snd (le_entries l))"

definition Ledger_Snapshot :: "ledger \<Rightarrow> ownership_entry list \<times> int" where
  "Ledger_Snapshot l = (snapshotLocked l, le_version l)"

definition Ledger_Version :: "ledger \<Rightarrow> int" where
  "Ledger_Version l = le_version l"

definition notify :: "ledger \<Rightarrow> ledger_note list" where
  "notify l = (if le_listener l then [(snapshotLocked l, le_version l)] else [])"

definition new_entry :: "string \<Rightarrow> ownership_entry" where
  "new_entry ip = \<lparr>oe_overlay_ip = ip, oe_owning_master = [], oe_last_reassigned_at = time_zero,
     oe_previous_owner = [], oe_reason = [], oe_version = 0\<rparr>"

text \<open>The test for an IPv4 overlay address, with an equation that evaluates faster.\<close>

definition overlay_valid :: "string \<Rightarrow> bool" where
  "overlay_valid ip \<longleftrightarrow> (case parse_ip ip of None \<Rightarrow> False | Some a \<Rightarrow> to4 a \<noteq> None)"

lemma overlay_valid_code [code]:
  "overlay_valid ip \<longleftrightarrow> (case parse_addr ip of
     Some (V4 w) \<Rightarrow> True | Some (V6 w z) \<Rightarrow> z = [] \<and> is_v4_mapped w | Some AddrNone \<Rightarrow> to4 0 \<noteq> None | None \<Rightarrow> False)"
  by (auto simp: overlay_valid_def parse_ip_def to4_def split: option.split addr.split)

definition reassign ::
  "ledger \<Rightarrow> string \<Rightarrow> string \<Rightarrow> string \<Rightarrow> string \<Rightarrow> bool \<Rightarrow> gotime \<Rightarrow>
     ledger \<times> ledger_note list \<times> (ledger_error + int)" where
  "reassign l overlayIP expectedOwner newOwner reason checkOwner now =
     (if newOwner = [] then (l, [], Inl ErrLedgerEmptyMaster)
      else if \<not> overlay_valid overlayIP then (l, [], Inl (ErrLedgerOverlayInvalid overlayIP))
      else
        (let found = (case gm_get (le_entries l) overlayIP of
               Some e \<Rightarrow>
                 if checkOwner \<and> oe_owning_master e \<noteq> expectedOwner
                 then Inl (ErrLedgerOwnerChanged overlayIP (oe_owning_master e) expectedOwner)
                 else Inr (e\<lparr>oe_previous_owner := oe_owning_master e\<rparr>)
             | None \<Rightarrow> if checkOwner then Inl ErrLedgerNotFound else Inr (new_entry overlayIP)) in
         case found of
           Inl err \<Rightarrow> (l, [], Inl err)
         | Inr e \<Rightarrow>
             (let e' = e\<lparr>oe_owning_master := newOwner, oe_reason := reason, oe_last_reassigned_at := now,
                        oe_version := wrap64 (oe_version e + 1)\<rparr>;
                  l' = l\<lparr>le_entries := gm_put overlayIP e' (le_entries l), le_version := wrap64 (le_version l + 1)\<rparr> in
              (l', notify l', Inr (oe_version e')))))"

definition Reassign ::
  "ledger \<Rightarrow> string \<Rightarrow> string \<Rightarrow> string \<Rightarrow> gotime \<Rightarrow> ledger \<times> ledger_note list \<times> (ledger_error + int)" where
  "Reassign l overlayIP newOwner reason now = reassign l overlayIP [] newOwner reason False now"

definition Ledger_Lookup :: "ledger \<Rightarrow> string \<Rightarrow> ownership_entry option" where
  "Ledger_Lookup l overlayIP = gm_get (le_entries l) overlayIP"

definition Ledger_Remove :: "ledger \<Rightarrow> string \<Rightarrow> ledger \<times> ledger_note list \<times> (ledger_error + unit)" where
  "Ledger_Remove l overlayIP =
     (case gm_get (le_entries l) overlayIP of
        None \<Rightarrow> (l, [], Inl ErrLedgerNotFound)
      | Some _ \<Rightarrow>
          (let l' = l\<lparr>le_entries := gm_del overlayIP (le_entries l), le_version := wrap64 (le_version l + 1)\<rparr> in
           (l', notify l', Inr ())))"

definition OwnedBy :: "ledger \<Rightarrow> string \<Rightarrow> ownership_entry list" where
  "OwnedBy l master =
     sort_slice oe_overlay_ip (filter (\<lambda>e. oe_owning_master e = master) (map snd (le_entries l)))"

section \<open>Drain\<close>

datatype drain_error =
    DrainNoChooser string
  | DrainEmptyChoice string
  | DrainFailed string ledger_error

text \<open>
  \<open>chooseMaster\<close> is a closure with a state; \<open>None\<close> is a nil function. \<open>env\<close> is what other goroutines do to
  the ledger before the iteration for an overlay, \<open>clock\<close> the time read in that iteration.
\<close>

type_synonym 's chooser_fn = "('s \<Rightarrow> string \<Rightarrow> string \<times> 's) option"

fun drain_loop ::
  "(string \<Rightarrow> gotime) \<Rightarrow> (string \<Rightarrow> ledger \<Rightarrow> ledger) \<Rightarrow> 's chooser_fn \<Rightarrow> string \<Rightarrow> string \<Rightarrow> ownership_entry list \<Rightarrow>
     nat \<Rightarrow> ledger \<Rightarrow> 's \<Rightarrow> ledger \<times> ledger_note list \<times> 's \<times> nat \<times> drain_error option" where
  "drain_loop clock env chooser src reason [] reassigned l s = (l, [], s, reassigned, None)"
| "drain_loop clock env chooser src reason (e # es) reassigned l0 s =
     (let ip = oe_overlay_ip e; l = env ip l0 in
      case chooser of
        None \<Rightarrow> (l, [], s, reassigned, Some (DrainNoChooser ip))
      | Some ch \<Rightarrow>
          (case ch s ip of (newOwner, s') \<Rightarrow>
             if newOwner = [] then (l, [], s', reassigned, Some (DrainEmptyChoice ip))
             else if newOwner = src then drain_loop clock env chooser src reason es reassigned l s'
             else
               (case reassign l ip src newOwner reason True (clock ip) of
                  (l', notes, Inl err) \<Rightarrow>
                    (case err of
                       ErrLedgerOwnerChanged _ _ _ \<Rightarrow> drain_loop clock env chooser src reason es reassigned l' s'
                     | ErrLedgerNotFound \<Rightarrow> drain_loop clock env chooser src reason es reassigned l' s'
                     | _ \<Rightarrow> (l', notes, s', reassigned, Some (DrainFailed ip err)))
                | (l', notes, Inr _) \<Rightarrow>
                    (case drain_loop clock env chooser src reason es (Suc reassigned) l' s' of
                       (l'', notes', r) \<Rightarrow> (l'', notes @ notes', r)))))"

definition Drain ::
  "(string \<Rightarrow> gotime) \<Rightarrow> (string \<Rightarrow> ledger \<Rightarrow> ledger) \<Rightarrow> ledger \<Rightarrow> string \<Rightarrow> string \<Rightarrow> 's chooser_fn \<Rightarrow> 's \<Rightarrow>
     ledger \<times> ledger_note list \<times> 's \<times> nat \<times> drain_error option" where
  "Drain clock env l sourceMaster reason chooser s =
     drain_loop clock env chooser sourceMaster reason (OwnedBy l sourceMaster) 0 l s"

section \<open>The ledger invariant\<close>

definition entry_ok :: "string \<Rightarrow> ownership_entry \<Rightarrow> bool" where
  "entry_ok k e \<longleftrightarrow> oe_overlay_ip e = k \<and> overlay_valid k \<and> oe_owning_master e \<noteq> []"

definition ledger_ok :: "ledger \<Rightarrow> bool" where
  "ledger_ok l \<longleftrightarrow> gm_wf (le_entries l) \<and> int64_range (le_version l)
     \<and> (\<forall>k e. gm_get (le_entries l) k = Some e \<longrightarrow> entry_ok k e)"

text \<open>A successful assignment, in one step.\<close>

definition assigned :: "ledger \<Rightarrow> string \<Rightarrow> string \<Rightarrow> string \<Rightarrow> gotime \<Rightarrow> ownership_entry" where
  "assigned l ip owner reason now =
     (let e = (case gm_get (le_entries l) ip of
            Some e \<Rightarrow> e\<lparr>oe_previous_owner := oe_owning_master e\<rparr> | None \<Rightarrow> new_entry ip) in
      e\<lparr>oe_owning_master := owner, oe_reason := reason, oe_last_reassigned_at := now,
        oe_version := wrap64 (oe_version e + 1)\<rparr>)"

definition commit :: "ledger \<Rightarrow> (string, ownership_entry) gomap \<Rightarrow> ledger" where
  "commit l es = l\<lparr>le_entries := es, le_version := wrap64 (le_version l + 1)\<rparr>"

lemma reassign_ok_iff:
  "reassign l ip expected owner reason check now = (l', notes, Inr v) \<longleftrightarrow>
     owner \<noteq> [] \<and> overlay_valid ip
     \<and> (check \<longrightarrow> (\<exists>e. gm_get (le_entries l) ip = Some e \<and> oe_owning_master e = expected))
     \<and> l' = commit l (gm_put ip (assigned l ip owner reason now) (le_entries l)) \<and> notes = notify l'
     \<and> v = oe_version (assigned l ip owner reason now)"
  by (auto simp: reassign_def assigned_def commit_def Let_def split: option.splits if_splits)

lemma reassign_err:
  "reassign l ip expected owner reason check now = (l', notes, Inl err) \<Longrightarrow> l' = l \<and> notes = []"
  by (auto simp: reassign_def Let_def split: option.splits if_splits sum.splits)

lemma assigned_sel [simp]:
  "oe_owning_master (assigned l ip owner reason now) = owner" "oe_reason (assigned l ip owner reason now) = reason"
  by (simp_all add: assigned_def Let_def)

lemma assigned_entry_ok:
  "ledger_ok l \<Longrightarrow> owner \<noteq> [] \<Longrightarrow> overlay_valid ip \<Longrightarrow> entry_ok ip (assigned l ip owner reason now)"
  by (auto simp: assigned_def Let_def ledger_ok_def entry_ok_def new_entry_def split: option.split)

lemma commit_sel [simp]:
  "le_entries (commit l es) = es" "le_version (commit l es) = wrap64 (le_version l + 1)"
  "le_listener (commit l es) = le_listener l"
  by (simp_all add: commit_def)

lemma ledger_ok_entry: "ledger_ok l \<Longrightarrow> gm_get (le_entries l) k = Some e \<Longrightarrow> entry_ok k e"
  by (simp add: ledger_ok_def)

lemma ledger_ok_put:
  "ledger_ok l \<Longrightarrow> entry_ok k e \<Longrightarrow> ledger_ok (commit l (gm_put k e (le_entries l)))"
  by (auto simp: ledger_ok_def gm_simps wrap64_range gm_wf_put split: if_splits)

lemma ledger_ok_del: "ledger_ok l \<Longrightarrow> ledger_ok (commit l (gm_del k (le_entries l)))"
  by (auto simp: ledger_ok_def gm_simps wrap64_range gm_wf_del split: if_splits)

lemma reassign_result:
  assumes "reassign l ip expected owner reason check now = (l', ns, r)"
  obtains (failed) err where "r = Inl err" "l' = l" "ns = []"
  | (stored) "owner \<noteq> []" "overlay_valid ip" "r = Inr (oe_version (assigned l ip owner reason now))"
      "l' = commit l (gm_put ip (assigned l ip owner reason now) (le_entries l))" "ns = notify l'"
proof (cases r)
  case (Inl err)
  then show ?thesis using reassign_err assms failed by blast
next
  case (Inr v)
  from assms have "owner \<noteq> [] \<and> overlay_valid ip \<and> ns = notify l' \<and> v = oe_version (assigned l ip owner reason now)
      \<and> l' = commit l (gm_put ip (assigned l ip owner reason now) (le_entries l))"
    unfolding Inr reassign_ok_iff by blast
  then show ?thesis using Inr stored by blast
qed

lemma ledger_ok_reassign:
  "ledger_ok l \<Longrightarrow> reassign l ip expected owner reason check now = (l', ns, r) \<Longrightarrow> ledger_ok l'"
  by (erule reassign_result) (simp_all add: ledger_ok_put assigned_entry_ok)

text \<open>The calls that change the ledger, and the ledger with the notifications after one of them.\<close>

datatype ledger_call =
    CallReassign string string string gotime
  | CallUnassign string

fun ledger_step :: "ledger_call \<Rightarrow> ledger \<Rightarrow> ledger \<times> ledger_note list" where
  "ledger_step (CallReassign ip owner reason now) l =
     (case Reassign l ip owner reason now of (l', notes, _) \<Rightarrow> (l', notes))"
| "ledger_step (CallUnassign ip) l = (case Ledger_Remove l ip of (l', notes, _) \<Rightarrow> (l', notes))"

fun run_ledger :: "ledger_call list \<Rightarrow> ledger \<Rightarrow> ledger \<times> ledger_note list" where
  "run_ledger [] l = (l, [])"
| "run_ledger (c # cs) l =
     (case ledger_step c l of (l1, n1) \<Rightarrow> (case run_ledger cs l1 of (l2, n2) \<Rightarrow> (l2, n1 @ n2)))"

lemma ledger_step_cases:
  "ledger_step c l = (l, []) \<or> (\<exists>es. ledger_step c l = (commit l es, notify (commit l es))
     \<and> (ledger_ok l \<longrightarrow> ledger_ok (commit l es)))"
proof (cases c)
  case (CallReassign ip owner reason now)
  obtain l' ns r where re: "reassign l ip [] owner reason False now = (l', ns, r)" by (rule prod_cases3)
  then have step: "ledger_step c l = (l', ns)" using CallReassign by (simp add: Reassign_def)
  from re show ?thesis
  proof (cases rule: reassign_result)
    case failed
    with step show ?thesis by simp
  next
    case stored
    then show ?thesis using step assigned_entry_ok ledger_ok_put by metis
  qed
next
  case (CallUnassign ip)
  then show ?thesis
    using ledger_ok_del [of l ip]
    by (auto simp: Ledger_Remove_def Let_def commit_def split: option.split)
qed

lemma entry_overlay: "ledger_ok l \<Longrightarrow> (k, e) \<in> set (le_entries l) \<longleftrightarrow> Ledger_Lookup l k = Some e"
  "ledger_ok l \<Longrightarrow> (k, e) \<in> set (le_entries l) \<Longrightarrow> oe_overlay_ip e = k"
  by (auto simp: ledger_ok_def entry_ok_def gm_in_set_iff Ledger_Lookup_def)

lemma entries_distinct: "ledger_ok l \<Longrightarrow> distinct (map oe_overlay_ip (map snd (le_entries l)))"
proof -
  assume l: "ledger_ok l"
  have "map oe_overlay_ip (map snd (le_entries l)) = map fst (le_entries l)"
    unfolding map_map comp_def by (rule map_cong) (use entry_overlay(2) [OF l] in auto)
  with l show ?thesis unfolding ledger_ok_def gm_wf_def by metis
qed

lemma in_entry_values:
  "ledger_ok l \<Longrightarrow> e \<in> set (map snd (le_entries l)) \<longleftrightarrow> Ledger_Lookup l (oe_overlay_ip e) = Some e"
proof
  assume l: "ledger_ok l" and "e \<in> set (map snd (le_entries l))"
  then obtain k where k: "(k, e) \<in> set (le_entries l)" by auto
  then have "oe_overlay_ip e = k" by (rule entry_overlay(2) [OF l])
  with k show "Ledger_Lookup l (oe_overlay_ip e) = Some e" using entry_overlay(1) [OF l] by simp
next
  assume l: "ledger_ok l" and "Ledger_Lookup l (oe_overlay_ip e) = Some e"
  then have "(oe_overlay_ip e, e) \<in> set (le_entries l)" using entry_overlay(1) [OF l] by simp
  then show "e \<in> set (map snd (le_entries l))" by (auto intro: image_eqI [where x = "(oe_overlay_ip e, e)"])
qed

lemma snapshot_distinct: "ledger_ok l \<Longrightarrow> distinct (map oe_overlay_ip (snapshotLocked l))"
  unfolding snapshotLocked_def by (intro distinct_map_sort_key entries_distinct)

lemma snapshot_set: "ledger_ok l \<Longrightarrow> e \<in> set (snapshotLocked l) \<longleftrightarrow> Ledger_Lookup l (oe_overlay_ip e) = Some e"
  using in_entry_values unfolding snapshotLocked_def set_sort by blast

lemma OwnedBy_distinct: "ledger_ok l \<Longrightarrow> distinct (map oe_overlay_ip (OwnedBy l m))"
  unfolding OwnedBy_def by (intro distinct_map_sort_key distinct_map_filter entries_distinct)

lemma OwnedBy_set:
  "ledger_ok l \<Longrightarrow> e \<in> set (OwnedBy l m) \<longleftrightarrow> Ledger_Lookup l (oe_overlay_ip e) = Some e \<and> oe_owning_master e = m"
  using in_entry_values unfolding OwnedBy_def set_sort set_filter by blast

lemma ledger_ok_new: "ledger_ok (SetListener NewLedger b)"
  by (simp add: ledger_ok_def SetListener_def NewLedger_def int64_range_def min_int64_def max_int64_def)

lemma run_ledger_versions:
  assumes "run_ledger cs l = (l', ns)" and "ledger_ok l" and "le_listener l"
    and "0 \<le> le_version l" and "le_version l + int (length cs) \<le> max_int64"
  shows "ledger_ok l' \<and> le_listener l' \<and> le_version l \<le> le_version l'
    \<and> map snd ns = [le_version l + 1..le_version l'] \<and> (if ns = [] then l' = l else last ns = Ledger_Snapshot l')"
  using assms
proof (induction cs arbitrary: l ns)
  case Nil
  then show ?case by simp
next
  case (Cons c cs)
  obtain l1 n1 where st: "ledger_step c l = (l1, n1)" by (cases "ledger_step c l")
  obtain n2 where run: "run_ledger cs l1 = (l', n2)" "ns = n1 @ n2"
    using Cons.prems(1) st by (auto split: prod.splits)
  show ?case
  proof (cases "ledger_step c l = (l, [])")
    case True
    then show ?thesis using Cons.IH [of l n2] Cons.prems st run by simp
  next
    case False
    then obtain es where es: "ledger_step c l = (commit l es, notify (commit l es))" "ledger_ok (commit l es)"
      using ledger_step_cases [of c l] Cons.prems(2) by blast
    have v: "wrap64 (le_version l + 1) = le_version l + 1"
      using Cons.prems(4,5) by (intro wrap64_succ) (simp_all add: int64_range_def min_int64_def)
    have l1: "l1 = commit l es" "n1 = [(snapshotLocked (commit l es), le_version l + 1)]" "le_version l1 = le_version l + 1"
      using es(1) st Cons.prems(3) v by (simp_all add: notify_def)
    have ih: "ledger_ok l' \<and> le_listener l' \<and> le_version l1 \<le> le_version l'
        \<and> map snd n2 = [le_version l1 + 1..le_version l'] \<and> (if n2 = [] then l' = l1 else last n2 = Ledger_Snapshot l')"
      using Cons.prems(3-5) es(2) l1(1,3) by (intro Cons.IH [OF run(1)]) simp_all
    have "[le_version l1..le_version l'] = le_version l1 # [le_version l1 + 1..le_version l']"
      using ih by (intro upto_rec1) blast
    moreover have "map snd ns = le_version l1 # map snd n2" using l1(2,3) run(2) by simp
    ultimately have "map snd ns = [le_version l + 1..le_version l']" using ih l1(3) by metis
    moreover have "ns \<noteq> [] \<and> last ns = Ledger_Snapshot l'"
      using ih run(2) l1 v by (cases "n2 = []") (simp_all add: Ledger_Snapshot_def)
    ultimately show ?thesis using ih l1(3) by simp
  qed
qed

text \<open>
  C15. The ledger keeps one owner per overlay address and numbers its states. After any calls on a new ledger
  whose listener is set, a snapshot lists every entry once, under a valid IPv4 address and with a non-empty
  owner, and agrees with \<open>Lookup\<close>. The listener has been notified of exactly the states with versions
  1, 2, and so on up to the current version, and the last notification is the current snapshot.
\<close>

theorem ledger_versions:
  assumes "run_ledger cs (SetListener NewLedger True) = (l, ns)" and "int (length cs) \<le> max_int64"
  shows "distinct (map oe_overlay_ip (fst (Ledger_Snapshot l)))
    \<and> (e \<in> set (fst (Ledger_Snapshot l)) \<longleftrightarrow> Ledger_Lookup l (oe_overlay_ip e) = Some e)
    \<and> (\<forall>e \<in> set (fst (Ledger_Snapshot l)). overlay_valid (oe_overlay_ip e) \<and> oe_owning_master e \<noteq> [])
    \<and> map snd ns = [1..Ledger_Version l] \<and> (ns \<noteq> [] \<longrightarrow> last ns = Ledger_Snapshot l)"
proof -
  let ?l0 = "SetListener NewLedger True"
  have run: "ledger_ok l \<and> le_listener l \<and> le_version ?l0 \<le> le_version l
      \<and> map snd ns = [le_version ?l0 + 1..le_version l] \<and> (if ns = [] then l = ?l0 else last ns = Ledger_Snapshot l)"
    using assms(2) by (intro run_ledger_versions [OF assms(1) ledger_ok_new]) (simp_all add: SetListener_def NewLedger_def)
  then have ok: "ledger_ok l" by simp
  have valid: "\<forall>e \<in> set (snapshotLocked l). overlay_valid (oe_overlay_ip e) \<and> oe_owning_master e \<noteq> []"
  proof
    fix e assume "e \<in> set (snapshotLocked l)"
    then have "gm_get (le_entries l) (oe_overlay_ip e) = Some e"
      using snapshot_set [OF ok, of e] by (simp add: Ledger_Lookup_def)
    from ledger_ok_entry [OF ok this] show "overlay_valid (oe_overlay_ip e) \<and> oe_owning_master e \<noteq> []"
      by (simp add: entry_ok_def)
  qed
  have "le_version ?l0 + 1 = 1" by (simp add: SetListener_def NewLedger_def)
  with run have "map snd ns = [1..Ledger_Version l]" unfolding Ledger_Version_def by metis
  moreover have "ns \<noteq> [] \<longrightarrow> last ns = Ledger_Snapshot l" using run by metis
  ultimately show ?thesis
    using valid snapshot_distinct [OF ok] snapshot_set [OF ok, of e] unfolding Ledger_Snapshot_def fst_conv by blast
qed

theorem ledger_versions_witness:
  "\<exists>l ns. run_ledger [CallReassign ''10.0.0.1'' ''m1'' ''register'' 5, CallReassign ''bad'' ''m1'' ''register'' 6,
       CallReassign ''10.0.0.1'' ''m2'' ''failover'' 7] (SetListener NewLedger True) = (l, ns)
     \<and> map snd ns = [1..Ledger_Version l] \<and> Ledger_Version l = 2"
proof -
  let ?cs = "[CallReassign ''10.0.0.1'' ''m1'' ''register'' 5, CallReassign ''bad'' ''m1'' ''register'' 6,
     CallReassign ''10.0.0.1'' ''m2'' ''failover'' 7]"
  obtain l ns where run: "run_ledger ?cs (SetListener NewLedger True) = (l, ns)" by (rule prod.exhaust)
  have "Ledger_Version (fst (run_ledger ?cs (SetListener NewLedger True))) = 2" by code_simp
  with ledger_versions [OF run] run show ?thesis by (auto simp: max_int64_def)
qed

section \<open>Drain\<close>

text \<open>Without interference, the loop moves each of the given overlays, which the source owns.\<close>

lemma drain_loop_moves:
  assumes "ledger_ok l" and "distinct (map oe_overlay_ip es)"
    and "\<forall>e \<in> set es. \<exists>e'. Ledger_Lookup l (oe_overlay_ip e) = Some e' \<and> oe_owning_master e' = src"
    and "\<And>s ip. fst (ch s ip) \<noteq> [] \<and> fst (ch s ip) \<noteq> src"
    and "int64_range (le_version l + int (length es))"
    and "drain_loop clock (\<lambda>_ l. l) (Some ch) src reason es n l s = (l', ns, s', m, err)"
  shows "err = None" and "m = n + length es" and "ledger_ok l'" and "le_version l' = le_version l + int (length es)"
    and "ip \<notin> oe_overlay_ip ` set es \<Longrightarrow> Ledger_Lookup l' ip = Ledger_Lookup l ip"
    and "ip \<in> oe_overlay_ip ` set es \<Longrightarrow>
      \<exists>e t. Ledger_Lookup l' ip = Some e \<and> oe_owning_master e = fst (ch t ip) \<and> oe_previous_owner e = src"
proof -
  have "err = None \<and> m = n + length es \<and> ledger_ok l' \<and> le_version l' = le_version l + int (length es)
    \<and> (\<forall>ip. ip \<notin> oe_overlay_ip ` set es \<longrightarrow> Ledger_Lookup l' ip = Ledger_Lookup l ip)
    \<and> (\<forall>ip \<in> oe_overlay_ip ` set es.
        \<exists>e t. Ledger_Lookup l' ip = Some e \<and> oe_owning_master e = fst (ch t ip) \<and> oe_previous_owner e = src)"
    using assms
  proof (induction es arbitrary: l n s ns)
    case Nil
    then show ?case by simp
  next
    case (Cons e es)
    let ?ip = "oe_overlay_ip e"
    obtain o1 s1 where ch: "ch s ?ip = (o1, s1)" by (cases "ch s ?ip")
    then have o1: "o1 \<noteq> []" "o1 \<noteq> src" using Cons.prems(4) [of s ?ip] by simp_all
    obtain e0 where e0: "Ledger_Lookup l ?ip = Some e0" "oe_owning_master e0 = src"
      using Cons.prems(3) by auto
    let ?a = "assigned l ?ip o1 reason (clock ?ip)"
    let ?l1 = "commit l (gm_put ?ip ?a (le_entries l))"
    have valid: "overlay_valid ?ip" using ledger_ok_entry [OF Cons.prems(1)] e0 by (auto simp: Ledger_Lookup_def entry_ok_def)
    then have re: "reassign l ?ip src o1 reason True (clock ?ip) = (?l1, notify ?l1, Inr (oe_version ?a))"
      using o1 e0 by (simp add: reassign_ok_iff Ledger_Lookup_def)
    obtain n1 where run: "drain_loop clock (\<lambda>_ l. l) (Some ch) src reason es (Suc n) ?l1 s1 = (l', n1, s', m, err)"
      using Cons.prems(6) ch o1 re by (auto simp: Let_def split: prod.splits)
    have ok1: "ledger_ok ?l1" using Cons.prems(1) o1(1) valid by (intro ledger_ok_put assigned_entry_ok)
    have v: "le_version ?l1 = le_version l + 1"
      using Cons.prems(1,5) by (simp add: ledger_ok_def int64_range_def wrap64_id)
    have look: "Ledger_Lookup ?l1 ip = (if ip = ?ip then Some ?a else Ledger_Lookup l ip)" for ip
      by (simp add: Ledger_Lookup_def gm_simps)
    have new: "?ip \<notin> oe_overlay_ip ` set es" using Cons.prems(2) by auto
    have ih: "err = None \<and> m = Suc n + length es \<and> ledger_ok l' \<and> le_version l' = le_version ?l1 + int (length es)
      \<and> (\<forall>ip. ip \<notin> oe_overlay_ip ` set es \<longrightarrow> Ledger_Lookup l' ip = Ledger_Lookup ?l1 ip)
      \<and> (\<forall>ip \<in> oe_overlay_ip ` set es.
          \<exists>e t. Ledger_Lookup l' ip = Some e \<and> oe_owning_master e = fst (ch t ip) \<and> oe_previous_owner e = src)"
    proof (rule Cons.IH [OF ok1 _ _ Cons.prems(4) _ run])
      show "distinct (map oe_overlay_ip es)" using Cons.prems(2) by simp
      show "\<forall>x \<in> set es. \<exists>e'. Ledger_Lookup ?l1 (oe_overlay_ip x) = Some e' \<and> oe_owning_master e' = src"
      proof
        fix x assume x: "x \<in> set es"
        then have "oe_overlay_ip x \<noteq> ?ip" using new by (metis image_eqI)
        then show "\<exists>e'. Ledger_Lookup ?l1 (oe_overlay_ip x) = Some e' \<and> oe_owning_master e' = src"
          using Cons.prems(3) x look by simp
      qed
      show "int64_range (le_version ?l1 + int (length es))" using Cons.prems(5) v by (simp add: algebra_simps)
    qed
    have a: "oe_owning_master ?a = fst (ch s ?ip)" "oe_previous_owner ?a = src"
      using e0 ch by (simp_all add: assigned_def Let_def Ledger_Lookup_def)
    have at: "Ledger_Lookup l' ?ip = Some ?a" using ih new look [of ?ip] by simp
    have moved: "\<exists>e t. Ledger_Lookup l' ip = Some e \<and> oe_owning_master e = fst (ch t ip) \<and> oe_previous_owner e = src"
      if "ip \<in> oe_overlay_ip ` set (e # es)" for ip
    proof (cases "ip = ?ip")
      case True
      with at a show ?thesis by blast
    next
      case False
      with that have "ip \<in> oe_overlay_ip ` set es" by simp
      with ih show ?thesis by blast
    qed
    have kept: "Ledger_Lookup l' ip = Ledger_Lookup l ip" if "ip \<notin> oe_overlay_ip ` set (e # es)" for ip
      using that ih look [of ip] by simp
    show ?case using ih moved kept v by (intro conjI allI impI ballI) simp_all
  qed
  then show "err = None" "m = n + length es" "ledger_ok l'" "le_version l' = le_version l + int (length es)"
    "ip \<notin> oe_overlay_ip ` set es \<Longrightarrow> Ledger_Lookup l' ip = Ledger_Lookup l ip"
    "ip \<in> oe_overlay_ip ` set es \<Longrightarrow>
      \<exists>e t. Ledger_Lookup l' ip = Some e \<and> oe_owning_master e = fst (ch t ip) \<and> oe_previous_owner e = src"
    by blast+
qed

lemma ledger_reachable_ok:
  assumes "run_ledger cs NewLedger = (l, ns)"
  shows "ledger_ok l"
proof -
  have "ledger_ok k \<Longrightarrow> run_ledger ds k = (k', n) \<Longrightarrow> ledger_ok k'" for ds k k' n
  proof (induction ds arbitrary: k n)
    case (Cons d ds)
    then show ?case using ledger_step_cases [of d k] by (auto split: prod.splits)
  qed simp
  moreover have "ledger_ok NewLedger"
    by (simp add: ledger_ok_def NewLedger_def int64_range_def min_int64_def max_int64_def)
  ultimately show ?thesis using assms by blast
qed

lemma Drain_moves:
  assumes "ledger_ok l" and "\<And>s ip. fst (ch s ip) \<noteq> [] \<and> fst (ch s ip) \<noteq> src"
    and "le_version l + int (length (OwnedBy l src)) \<le> max_int64"
    and "Drain clock (\<lambda>_ l. l) l src reason (Some ch) s = (l', ns, s', m, err)"
  shows "err = None" and "m = length (OwnedBy l src)" and "ledger_ok l'" and "le_version l' = le_version l + int m"
    and "(case Ledger_Lookup l ip of
        None \<Rightarrow> Ledger_Lookup l' ip = None
      | Some e \<Rightarrow> if oe_owning_master e = src
          then \<exists>e' t. Ledger_Lookup l' ip = Some e' \<and> oe_owning_master e' = fst (ch t ip) \<and> oe_previous_owner e' = src
          else Ledger_Lookup l' ip = Some e)"
proof -
  have lookups: "\<forall>e \<in> set (OwnedBy l src). \<exists>e'. Ledger_Lookup l (oe_overlay_ip e) = Some e' \<and> oe_owning_master e' = src"
    using OwnedBy_set [OF assms(1)] by simp
  have room: "int64_range (le_version l + int (length (OwnedBy l src)))"
    using assms(1,3) by (auto simp: ledger_ok_def int64_range_def)
  note moves = drain_loop_moves [OF assms(1) OwnedBy_distinct [OF assms(1)] lookups assms(2) room
      assms(4) [unfolded Drain_def]]
  show m: "err = None" "m = length (OwnedBy l src)" "ledger_ok l'" using moves(1-3) by simp_all
  show "le_version l' = le_version l + int m" using moves(4) m(2) by simp
  show "(case Ledger_Lookup l ip of
        None \<Rightarrow> Ledger_Lookup l' ip = None
      | Some e \<Rightarrow> if oe_owning_master e = src
          then \<exists>e' t. Ledger_Lookup l' ip = Some e' \<and> oe_owning_master e' = fst (ch t ip) \<and> oe_previous_owner e' = src
          else Ledger_Lookup l' ip = Some e)"
  proof (cases "ip \<in> oe_overlay_ip ` set (OwnedBy l src)")
    case True
    then obtain e where e: "Ledger_Lookup l ip = Some e" "oe_owning_master e = src"
      using OwnedBy_set [OF assms(1)] by blast
    then show ?thesis using moves(6) [OF True] by simp
  next
    case False
    have "oe_owning_master e \<noteq> src" if e: "Ledger_Lookup l ip = Some e" for e
    proof
      assume "oe_owning_master e = src"
      moreover have "oe_overlay_ip e = ip"
        using ledger_ok_entry [OF assms(1)] e by (simp add: Ledger_Lookup_def entry_ok_def)
      ultimately have "e \<in> set (OwnedBy l src)" using OwnedBy_set [OF assms(1), of e src] e by simp
      with \<open>oe_overlay_ip e = ip\<close> False show False by blast
    qed
    then show ?thesis using moves(5) [OF False] by (cases "Ledger_Lookup l ip") simp_all
  qed
qed

text \<open>
  C9. A drain is complete and touches nothing else. When the chooser always names another master, draining a
  master succeeds, moves every overlay that it owned to a chosen master and records it as the previous
  owner. Entries of other masters and the set of known overlays stay as they were, and the version grows by
  the number of moved entries.
\<close>

theorem Drain_complete:
  assumes "run_ledger cs NewLedger = (l, ns0)" and "\<And>s ip. fst (ch s ip) \<noteq> [] \<and> fst (ch s ip) \<noteq> src"
    and "le_version l + int (length (OwnedBy l src)) \<le> max_int64"
    and "Drain clock (\<lambda>_ l. l) l src reason (Some ch) s = (l', ns, s', m, err)"
  shows "err = None \<and> m = length (OwnedBy l src) \<and> OwnedBy l' src = [] \<and> le_version l' = le_version l + int m
    \<and> (case Ledger_Lookup l ip of
        None \<Rightarrow> Ledger_Lookup l' ip = None
      | Some e \<Rightarrow> if oe_owning_master e = src
          then \<exists>e' t. Ledger_Lookup l' ip = Some e' \<and> oe_owning_master e' = fst (ch t ip) \<and> oe_previous_owner e' = src
          else Ledger_Lookup l' ip = Some e)"
proof -
  have ok: "ledger_ok l" by (rule ledger_reachable_ok [OF assms(1)])
  note moves = Drain_moves [OF ok assms(2-4)]
  have "OwnedBy l' src = []"
  proof (rule ccontr)
    assume "OwnedBy l' src \<noteq> []"
    then obtain e where "e \<in> set (OwnedBy l' src)" by (cases "OwnedBy l' src") auto
    then have e: "Ledger_Lookup l' (oe_overlay_ip e) = Some e" "oe_owning_master e = src"
      using OwnedBy_set [OF moves(3), of e src] by simp_all
    have "\<exists>t. src = fst (ch t (oe_overlay_ip e))"
      using moves(5) [of "oe_overlay_ip e"] e
      by (cases "Ledger_Lookup l (oe_overlay_ip e)") (auto split: if_splits)
    then show False using assms(2) by blast
  qed
  then show ?thesis using moves(1,2,4) moves(5) [of ip] by simp
qed

theorem Drain_complete_witness:
  "\<exists>l ns0 l' ns s' m err.
     run_ledger [CallReassign ''10.0.0.1'' ''m1'' ''register'' 5, CallReassign ''10.0.0.9'' ''m1'' ''register'' 5,
       CallReassign ''10.0.0.2'' ''m2'' ''register'' 6] NewLedger = (l, ns0)
     \<and> Drain (\<lambda>_. 9) (\<lambda>_ l. l) l ''m1'' ''decommission'' (Some (\<lambda>s _. (''m2'', s))) () = (l', ns, s', m, err)
     \<and> m = length (OwnedBy l ''m1'') \<and> m = 2 \<and> OwnedBy l' ''m1'' = [] \<and> le_version l' = 5"
proof -
  let ?cs = "[CallReassign ''10.0.0.1'' ''m1'' ''register'' 5, CallReassign ''10.0.0.9'' ''m1'' ''register'' 5,
     CallReassign ''10.0.0.2'' ''m2'' ''register'' 6]"
  obtain l ns0 where run: "run_ledger ?cs NewLedger = (l, ns0)" by (rule prod.exhaust)
  have "length (OwnedBy (fst (run_ledger ?cs NewLedger)) ''m1'') = 2" "le_version (fst (run_ledger ?cs NewLedger)) = 3"
    by code_simp+
  then have l: "length (OwnedBy l ''m1'') = 2" "le_version l = 3" unfolding run by simp_all
  obtain l' ns s' m err where d: "Drain (\<lambda>_. 9) (\<lambda>_ l. l) l ''m1'' ''decommission'' (Some (\<lambda>s _. (''m2'', s))) ()
      = (l', ns, s', m, err)" by (rule prod_cases5)
  have "err = None \<and> m = length (OwnedBy l ''m1'') \<and> OwnedBy l' ''m1'' = [] \<and> le_version l' = le_version l + int m"
    using Drain_complete [OF run _ _ d, of "''10.0.0.1''"] l by (simp add: max_int64_def)
  then show ?thesis using run d l by auto
qed

text \<open>The steps of a drain on one overlay, whatever the interference does elsewhere.\<close>

lemma reassign_other:
  "reassign l ip expected owner reason check now = (l', ns, r) \<Longrightarrow> k \<noteq> ip \<Longrightarrow> Ledger_Lookup l' k = Ledger_Lookup l k"
  by (erule reassign_result) (simp_all add: Ledger_Lookup_def gm_simps)

lemma reassign_foreign:
  "Ledger_Lookup l ip = Some e \<Longrightarrow> oe_owning_master e \<noteq> src \<Longrightarrow>
     reassign l ip src owner reason True now = (l', ns, r) \<Longrightarrow> l' = l \<and> ns = []"
  by (auto simp: reassign_def Ledger_Lookup_def Let_def split: option.splits if_splits)

text \<open>
  C17. A drain never overrides a concurrent reassignment. Suppose other goroutines run between the iterations
  of a drain, and that the one that runs before the iteration for overlay \<open>ip\<close> gives \<open>ip\<close> to a master other than
  the drained one, after which no goroutine touches \<open>ip\<close>. Then the drain leaves that entry as it is,
  whatever its chooser says.
\<close>

theorem Drain_respects_reassignment:
  assumes "\<And>k. Ledger_Lookup (env ip k) ip = Some e" and "oe_owning_master e \<noteq> src"
    and "\<And>x k. x \<noteq> ip \<Longrightarrow> Ledger_Lookup (env x k) ip = Ledger_Lookup k ip"
    and "ip \<in> oe_overlay_ip ` set (OwnedBy l src)" and "run_ledger cs NewLedger = (l, ns0)"
    and "Drain clock env l src reason (Some ch) s = (l', ns, s', m, None)"
  shows "Ledger_Lookup l' ip = Some e"
proof -
  have "Ledger_Lookup l' ip = (if ip \<in> oe_overlay_ip ` set es then Some e else Ledger_Lookup k ip)"
    if "drain_loop clock env (Some ch) src reason es n k s = (l', ns, s', m, None)"
      and "distinct (map oe_overlay_ip es)" for es n k s ns
    using that
  proof (induction es arbitrary: n k s ns)
    case Nil
    then show ?case by simp
  next
    case (Cons x es)
    let ?x = "oe_overlay_ip x"
    obtain o1 s1 where ch: "ch s ?x = (o1, s1)" by (cases "ch s ?x")
    then have o1: "o1 \<noteq> []" using Cons.prems(1) by (auto simp: Let_def)
    have d: "distinct (map oe_overlay_ip es)" "?x \<notin> oe_overlay_ip ` set es" using Cons.prems(2) by auto
    have step: "\<exists>k' n' ns'. drain_loop clock env (Some ch) src reason es n' k' s1 = (l', ns', s', m, None)
        \<and> Ledger_Lookup k' ip = Ledger_Lookup (env ?x k) ip"
    proof (cases "o1 = src")
      case True
      then show ?thesis using Cons.prems(1) ch o1 by (auto simp: Let_def)
    next
      case False
      obtain k' rn r where re: "reassign (env ?x k) ?x src o1 reason True (clock ?x) = (k', rn, r)" by (rule prod_cases3)
      have "Ledger_Lookup k' ip = Ledger_Lookup (env ?x k) ip"
      proof (cases "?x = ip")
        case True
        then show ?thesis using reassign_foreign [OF _ assms(2) re] assms(1) by simp
      next
        case False
        then show ?thesis using reassign_other [OF re] by simp
      qed
      then show ?thesis
        using Cons.prems(1) ch o1 False re
        by (cases r) (auto simp: Let_def split: prod.splits ledger_error.splits)
    qed
    then obtain k' n' ns' where k': "drain_loop clock env (Some ch) src reason es n' k' s1 = (l', ns', s', m, None)"
      "Ledger_Lookup k' ip = Ledger_Lookup (env ?x k) ip" by blast
    from Cons.IH [OF k'(1) d(1)] k'(2) d(2) show ?case
      using assms(1) assms(3) [of ?x k] by (cases "?x = ip") auto
  qed
  from this [OF assms(6) [unfolded Drain_def] OwnedBy_distinct [OF ledger_reachable_ok [OF assms(5)]]] assms(4) show ?thesis by simp
qed

definition sample_ledger :: ledger where
  "sample_ledger = fst (run_ledger [CallReassign ''10.0.0.1'' ''m1'' ''register'' 5,
     CallReassign ''10.0.0.9'' ''m1'' ''register'' 5] NewLedger)"

definition sample_takeover :: "string \<Rightarrow> ledger \<Rightarrow> ledger" where
  "sample_takeover x l = (if x = ''10.0.0.9''
     then l\<lparr>le_entries := gm_put ''10.0.0.9'' ((new_entry ''10.0.0.9'')\<lparr>oe_owning_master := ''m3''\<rparr>) (le_entries l)\<rparr> else l)"

theorem Drain_respects_reassignment_witness:
  "\<exists>l' ns s' m. Drain (\<lambda>_. 9) sample_takeover sample_ledger ''m1'' ''decommission'' (Some (\<lambda>s _. (''m2'', s))) ()
      = (l', ns, s', m, None)
     \<and> map_option oe_owning_master (Ledger_Lookup l' ''10.0.0.9'') = Some ''m3''"
proof -
  let ?d = "Drain (\<lambda>_. 9) sample_takeover sample_ledger ''m1'' ''decommission'' (Some (\<lambda>s _. (''m2'', s))) ()"
  obtain l' ns s' m err where d: "?d = (l', ns, s', m, err)" by (rule prod_cases5)
  have "snd (snd (snd (snd ?d))) = None" by code_simp
  with d have none: "?d = (l', ns, s', m, None)" by simp
  have ok: "run_ledger [CallReassign ''10.0.0.1'' ''m1'' ''register'' 5, CallReassign ''10.0.0.9'' ''m1'' ''register'' 5]
      NewLedger = (sample_ledger, [])" by code_simp
  have "''10.0.0.9'' \<in> oe_overlay_ip ` set (OwnedBy sample_ledger ''m1'')" by code_simp
  from Drain_respects_reassignment [where e = "(new_entry ''10.0.0.9'')\<lparr>oe_owning_master := ''m3''\<rparr>",
      OF _ _ _ this ok none]
  have "Ledger_Lookup l' ''10.0.0.9'' = Some ((new_entry ''10.0.0.9'')\<lparr>oe_owning_master := ''m3''\<rparr>)"
    by (simp add: sample_takeover_def Ledger_Lookup_def gm_simps)
  with none show ?thesis by simp
qed

end
