(* ===== verification/CP_Fanout.thy ===== *)
theory CP_Fanout
  imports CP_Ledger
begin

text \<open>
  \<open>pkg/control_plane/fanout.go\<close>: the two broadcasters that push ledger mutations to subscribers. Both have
  the same code; it is modelled once over the type of messages and instantiated for each. A channel holds
  its buffered messages and whether it is closed. The subscribers map holds exactly the channels that are
  not closed, so that removing a subscriber is closing its channel.
\<close>

section \<open>Subscription identifiers\<close>

definition digits36 :: string where
  "digits36 = ''0123456789abcdefghijklmnopqrstuvwxyz''"

fun id_digits :: "nat \<Rightarrow> string" where
  "id_digits n = (if n = 0 then [] else (digits36 ! (n mod 36)) # id_digits (n div 36))"

declare id_digits.simps [simp del]

definition idString :: "int \<Rightarrow> string" where
  "idString n = (if n = 0 then ''0'' else rev (id_digits (nat n)))"

section \<open>Broadcasters\<close>

definition subscriberBuffer :: nat where "subscriberBuffer = 8"

record 'm chan =
  ch_buf :: "'m list"
  ch_closed :: bool

record 'm broadcaster =
  br_chans :: "(string, 'm chan) gomap"
  br_next_id :: int

definition new_broadcaster :: "'m broadcaster" where
  "new_broadcaster = \<lparr>br_chans = [], br_next_id = 0\<rparr>"

definition subscribe :: "'m broadcaster \<Rightarrow> 'm broadcaster \<times> string" where
  "subscribe b =
     (let n = wrap64 (br_next_id b + 1); i = idString n in
      (\<lparr>br_chans = gm_put i \<lparr>ch_buf = [], ch_closed = False\<rparr> (br_chans b), br_next_id = n\<rparr>, i))"

definition cancel :: "string \<Rightarrow> 'm broadcaster \<Rightarrow> 'm broadcaster" where
  "cancel i b =
     (case gm_get (br_chans b) i of
        None \<Rightarrow> b
      | Some c \<Rightarrow> if ch_closed c then b else b\<lparr>br_chans := gm_put i (c\<lparr>ch_closed := True\<rparr>) (br_chans b)\<rparr>)"

definition offer :: "'m \<Rightarrow> 'm chan \<Rightarrow> 'm chan" where
  "offer m c =
     (if ch_closed c then c
      else if length (ch_buf c) < subscriberBuffer then c\<lparr>ch_buf := ch_buf c @ [m]\<rparr>
      else c\<lparr>ch_closed := True\<rparr>)"

definition broadcast :: "'m \<Rightarrow> 'm broadcaster \<Rightarrow> 'm broadcaster" where
  "broadcast m b = b\<lparr>br_chans := map (\<lambda>(i, c). (i, offer m c)) (br_chans b)\<rparr>"

definition subscriber_count :: "'m broadcaster \<Rightarrow> nat" where
  "subscriber_count b = length (filter (\<lambda>(i, c). \<not> ch_closed c) (br_chans b))"

text \<open>The receiver of a channel takes the oldest buffered message, also from a closed channel.\<close>

definition receive :: "string \<Rightarrow> 'm broadcaster \<Rightarrow> 'm broadcaster \<times> 'm option" where
  "receive i b =
     (case gm_get (br_chans b) i of
        Some c \<Rightarrow>
          (case ch_buf c of
             [] \<Rightarrow> (b, None)
           | m # ms \<Rightarrow> (b\<lparr>br_chans := gm_put i (c\<lparr>ch_buf := ms\<rparr>) (br_chans b)\<rparr>, Some m))
      | None \<Rightarrow> (b, None))"

record peer_list_msg =
  pm_subject_node :: string
  pm_snapshot :: "ownership_entry list"
  pm_version :: int

record ownership_msg =
  om_entries :: "ownership_entry list"
  om_version :: int
  om_full_snapshot :: bool

definition NewPeerListBroadcaster :: "peer_list_msg broadcaster" where
  "NewPeerListBroadcaster = new_broadcaster"

definition PeerList_Subscribe :: "peer_list_msg broadcaster \<Rightarrow> string \<Rightarrow> peer_list_msg broadcaster \<times> string" where
  "PeerList_Subscribe b subjectNode = subscribe b"

definition PeerList_Broadcast :: "peer_list_msg \<Rightarrow> peer_list_msg broadcaster \<Rightarrow> peer_list_msg broadcaster" where
  "PeerList_Broadcast m b = broadcast m b"

definition PeerList_SubscriberCount :: "peer_list_msg broadcaster \<Rightarrow> nat" where
  "PeerList_SubscriberCount b = subscriber_count b"

definition NewOwnershipBroadcaster :: "ownership_msg broadcaster" where
  "NewOwnershipBroadcaster = new_broadcaster"

definition Ownership_Subscribe :: "ownership_msg broadcaster \<Rightarrow> ownership_msg broadcaster \<times> string" where
  "Ownership_Subscribe b = subscribe b"

definition Ownership_Broadcast :: "ownership_msg \<Rightarrow> ownership_msg broadcaster \<Rightarrow> ownership_msg broadcaster" where
  "Ownership_Broadcast m b = broadcast m b"

definition Ownership_SubscriberCount :: "ownership_msg broadcaster \<Rightarrow> nat" where
  "Ownership_SubscriberCount b = subscriber_count b"

section \<open>Identifiers are distinct\<close>

definition val36 :: "char \<Rightarrow> nat" where
  "val36 c = (if c \<le> CHR ''9'' then of_char c - 48 else of_char c - 87)"

definition parse36 :: "string \<Rightarrow> nat" where
  "parse36 s = foldl (\<lambda>a c. a * 36 + val36 c) 0 s"

lemma val36_digit: "d < 36 \<Longrightarrow> val36 (digits36 ! d) = d"
proof -
  have "list_all (\<lambda>d. val36 (digits36 ! d) = d) [0..<36]" by code_simp
  then show "d < 36 \<Longrightarrow> ?thesis" by (simp add: list_all_iff)
qed

lemma parse36_id_digits: "parse36 (rev (id_digits n)) = n"
proof (induction n rule: id_digits.induct)
  case (1 n)
  show ?case
  proof (cases "n = 0")
    case True
    then show ?thesis by (simp add: id_digits.simps parse36_def)
  next
    case False
    then have "parse36 (rev (id_digits n)) = parse36 (rev (id_digits (n div 36))) * 36 + n mod 36"
      by (subst id_digits.simps) (simp add: parse36_def val36_digit)
    then show ?thesis using 1 [OF False] by simp
  qed
qed

lemma parse36_idString: "0 \<le> n \<Longrightarrow> parse36 (idString n) = nat n"
  using parse36_id_digits by (auto simp: idString_def parse36_def val36_def)

lemma idString_inject: "0 \<le> m \<Longrightarrow> 0 \<le> n \<Longrightarrow> idString m = idString n \<longleftrightarrow> m = n"
  using parse36_idString by (metis eq_nat_nat_iff)

section \<open>Delivery\<close>

datatype 'm fan_op =
    OpSubscribe
  | OpCancel string
  | OpBroadcast 'm
  | OpReceive string

text \<open>One operation, and what the receiver of channel \<open>i\<close> has got so far.\<close>

fun fan_step :: "string \<Rightarrow> 'm fan_op \<Rightarrow> 'm broadcaster \<times> 'm list \<Rightarrow> 'm broadcaster \<times> 'm list" where
  "fan_step i OpSubscribe (b, got) = (fst (subscribe b), got)"
| "fan_step i (OpCancel j) (b, got) = (cancel j b, got)"
| "fan_step i (OpBroadcast m) (b, got) = (broadcast m b, got)"
| "fan_step i (OpReceive j) (b, got) =
     (case receive j b of (b', r) \<Rightarrow>
        (b', if j = i then (case r of None \<Rightarrow> got | Some m \<Rightarrow> got @ [m]) else got))"

definition fan_run :: "string \<Rightarrow> 'm fan_op list \<Rightarrow> 'm broadcaster \<Rightarrow> 'm broadcaster \<times> 'm list" where
  "fan_run i ops b = fold (fan_step i) ops (b, [])"

fun sent :: "'m fan_op list \<Rightarrow> 'm list" where
  "sent [] = []"
| "sent (OpBroadcast m # ops) = m # sent ops"
| "sent (_ # ops) = sent ops"

lemma sent_append [simp]: "sent (xs @ ys) = sent xs @ sent ys"
  by (induction xs rule: sent.induct) simp_all

lemma get_broadcast: "gm_get (br_chans (broadcast m b)) i = map_option (offer m) (gm_get (br_chans b) i)"
proof -
  have "gm_get (map (\<lambda>(i, c). (i, offer m c)) cs) i = map_option (offer m) (gm_get cs i)" for cs
    by (induction cs) auto
  then show ?thesis by (simp add: broadcast_def)
qed

text \<open>
  The state of a subscription: its channel has at most eight buffered messages; received and buffered
  messages are those sent since the subscription, up to the point where the channel was closed.
\<close>

definition sub_ok :: "string \<Rightarrow> 'm list \<Rightarrow> 'm broadcaster \<times> 'm list \<Rightarrow> bool" where
  "sub_ok i ms x \<longleftrightarrow> (case x of (b, got) \<Rightarrow>
     (case gm_get (br_chans b) i of
        None \<Rightarrow> False
      | Some c \<Rightarrow> length (ch_buf c) \<le> subscriberBuffer \<and> prefix (got @ ch_buf c) ms
          \<and> (\<not> ch_closed c \<longrightarrow> got @ ch_buf c = ms)))"

lemma sub_ok_step:
  assumes "sub_ok i ms (b, got)" and "x = OpSubscribe \<Longrightarrow> i \<noteq> idString (wrap64 (br_next_id b + 1))"
  shows "sub_ok i (ms @ sent [x]) (fan_step i x (b, got))"
proof -
  from assms(1) obtain c where c: "gm_get (br_chans b) i = Some c" "length (ch_buf c) \<le> subscriberBuffer"
    "prefix (got @ ch_buf c) ms" "\<not> ch_closed c \<longrightarrow> got @ ch_buf c = ms"
    by (auto simp: sub_ok_def split: option.splits)
  show ?thesis
  proof (cases x)
    case OpSubscribe
    then show ?thesis using c assms(2) by (auto simp: sub_ok_def subscribe_def Let_def gm_simps)
  next
    case (OpCancel j)
    then show ?thesis
      using c by (cases "gm_get (br_chans b) j") (auto simp: sub_ok_def cancel_def gm_simps)
  next
    case (OpBroadcast m)
    have "prefix (got @ ch_buf c) (ms @ [m])" using c(3) by (simp add: prefix_append)
    then show ?thesis
      using OpBroadcast c
      by (auto simp: sub_ok_def get_broadcast offer_def subscriberBuffer_def)
  next
    case (OpReceive j)
    then show ?thesis
      using c
      by (cases "gm_get (br_chans b) j"; cases "ch_buf (the (gm_get (br_chans b) j))")
        (auto simp: sub_ok_def receive_def gm_simps)
  qed
qed

lemma fan_step_next_id:
  assumes "int64_range (br_next_id b)" and "br_next_id b < max_int64"
  shows "br_next_id (fst (fan_step i x (b, got))) = br_next_id b + (if x = OpSubscribe then 1 else 0)"
  using assms
  by (cases x)
    (auto simp: subscribe_def Let_def cancel_def broadcast_def receive_def wrap64_succ split: option.splits list.splits)

lemma fan_run_ok:
  assumes "sub_ok (idString k) ms (b, got)" and "0 \<le> k" and "k \<le> br_next_id b"
    and "br_next_id b + int (length ops) \<le> max_int64"
  shows "sub_ok (idString k) (ms @ sent ops) (fold (fan_step (idString k)) ops (b, got))"
  using assms
proof (induction ops arbitrary: ms b got)
  case Nil
  then show ?case by simp
next
  case (Cons x ops)
  have rg: "int64_range (br_next_id b)" "br_next_id b < max_int64"
    using Cons.prems by (auto simp: int64_range_def min_int64_def)
  have w: "wrap64 (br_next_id b + 1) = br_next_id b + 1" using rg by (rule wrap64_succ)
  obtain b1 got1 where st: "fan_step (idString k) x (b, got) = (b1, got1)" by (rule prod.exhaust)
  have "sub_ok (idString k) (ms @ sent [x]) (b1, got1)"
    using sub_ok_step [OF Cons.prems(1), of x] st w Cons.prems(2,3) by (simp add: idString_inject)
  moreover have "br_next_id b1 = br_next_id b + (if x = OpSubscribe then 1 else 0)"
    using fan_step_next_id [OF rg, of "idString k" x got] st by simp
  ultimately have "sub_ok (idString k) ((ms @ sent [x]) @ sent ops) (fold (fan_step (idString k)) ops (b1, got1))"
    using Cons.prems(2-4) by (intro Cons.IH) (auto split: if_splits)
  moreover have "sent (x # ops) = sent [x] @ sent ops" using sent_append [of "[x]" ops] by simp
  ultimately show ?case using st by simp
qed

lemma subscribe_ok:
  assumes "subscribe b = (b1, i)" and "0 \<le> br_next_id b" and "br_next_id b + 1 \<le> max_int64"
  shows "sub_ok i [] (b1, [])" and "i = idString (br_next_id b + 1)" and "br_next_id b1 = br_next_id b + 1"
  using assms wrap64_succ [of "br_next_id b"]
  by (auto simp: subscribe_def Let_def sub_ok_def gm_simps int64_range_def min_int64_def)

lemma fan_step_closes:
  assumes "gm_get (br_chans b) i = Some c" and "\<not> ch_closed c"
    and "gm_get (br_chans (fst (fan_step i x (b, got)))) i = Some c'" and "ch_closed c'"
  shows "x = OpCancel i \<or> (\<exists>m. x = OpBroadcast m \<and> subscriberBuffer \<le> length (ch_buf c))"
proof (cases x)
  case OpSubscribe
  then show ?thesis using assms by (auto simp: subscribe_def Let_def gm_simps split: if_splits)
next
  case (OpCancel j)
  then show ?thesis
    using assms by (cases "gm_get (br_chans b) j") (auto simp: cancel_def gm_simps split: if_splits)
next
  case (OpBroadcast m)
  then show ?thesis using assms by (auto simp: get_broadcast offer_def split: if_splits)
next
  case (OpReceive j)
  then show ?thesis
    using assms
    by (cases "gm_get (br_chans b) j"; cases "ch_buf (the (gm_get (br_chans b) j))")
      (auto simp: receive_def gm_simps split: if_splits)
qed

lemma fan_run_dropped:
  assumes "subscribe b = (b1, i)" and "0 \<le> br_next_id b" and "br_next_id b + 1 + int (length ops) \<le> max_int64"
    and "fan_run i ops b1 = (b2, got)" and "gm_get (br_chans b2) i = Some c" and "ch_closed c"
    and "OpCancel i \<notin> set ops"
  shows "\<exists>pre m post. ops = pre @ OpBroadcast m # post
    \<and> length (sent pre) = length (snd (fan_run i pre b1)) + subscriberBuffer"
  using assms(3-7)
proof (induction ops arbitrary: b2 got c rule: rev_induct)
  case Nil
  then show ?case using subscribe_ok [OF assms(1,2)] assms(1)
    by (auto simp: fan_run_def subscribe_def Let_def gm_simps)
next
  case (snoc x ops)
  obtain b' got' where run: "fan_run i ops b1 = (b', got')" by (rule prod.exhaust)
  have room: "br_next_id b + 1 \<le> max_int64" using snoc.prems(1) by simp
  note sub = subscribe_ok [OF assms(1,2) room]
  have "sub_ok i ([] @ sent ops) (fold (fan_step i) ops (b1, []))"
    using fan_run_ok [of "br_next_id b + 1" "[]" b1 "[]" ops] sub assms(2) snoc.prems(1) by simp
  then have "sub_ok i (sent ops) (b', got')" using run by (simp add: fan_run_def)
  then obtain c0 where c0: "gm_get (br_chans b') i = Some c0" "length (ch_buf c0) \<le> subscriberBuffer"
    "\<not> ch_closed c0 \<longrightarrow> got' @ ch_buf c0 = sent ops"
    by (auto simp: sub_ok_def split: option.splits)
  show ?case
  proof (cases "ch_closed c0")
    case True
    then obtain pre m post where "ops = pre @ OpBroadcast m # post"
      "length (sent pre) = length (snd (fan_run i pre b1)) + subscriberBuffer"
      using snoc.IH [OF _ run c0(1)] snoc.prems by auto
    then show ?thesis by (intro exI [of _ pre] exI [of _ m] exI [of _ "post @ [x]"]) simp
  next
    case False
    have "fan_step i x (b', got') = (b2, got)" using snoc.prems(2) run by (simp add: fan_run_def)
    then have "x = OpCancel i \<or> (\<exists>m. x = OpBroadcast m \<and> subscriberBuffer \<le> length (ch_buf c0))"
      using fan_step_closes [OF c0(1) False, of x got' c] snoc.prems(3,4) by simp
    then obtain m where m: "x = OpBroadcast m" "length (ch_buf c0) = subscriberBuffer"
      using snoc.prems(5) c0(2) by auto
    have "length (sent ops) = length got' + subscriberBuffer"
      using c0(3) False m(2) by (metis length_append)
    then show ?thesis using m(1) run by (intro exI [of _ ops] exI [of _ m] exI [of _ "[]"]) simp
  qed
qed

text \<open>
  C10. Delivery to a subscriber. Take any sequence of subscriptions, cancellations, broadcasts and receives
  after a subscription. The subscriber's channel never buffers more than eight messages, and what was
  received and is buffered is a prefix of the messages broadcast since, in order and without a gap. While
  the channel is open it is all of them. The channel was closed without a cancellation only by a broadcast
  that found eight messages not yet received.
\<close>

theorem broadcast_delivery:
  assumes "subscribe b = (b1, i)" and "0 \<le> br_next_id b" and "br_next_id b + 1 + int (length ops) \<le> max_int64"
    and "fan_run i ops b1 = (b2, got)"
  shows "\<exists>c. gm_get (br_chans b2) i = Some c \<and> length (ch_buf c) \<le> 8 \<and> prefix (got @ ch_buf c) (sent ops)
    \<and> (\<not> ch_closed c \<longrightarrow> got @ ch_buf c = sent ops)
    \<and> (ch_closed c \<and> OpCancel i \<notin> set ops \<longrightarrow> (\<exists>pre m post. ops = pre @ OpBroadcast m # post
          \<and> length (sent pre) = length (snd (fan_run i pre b1)) + 8))"
proof -
  have room: "br_next_id b + 1 \<le> max_int64" using assms(3) by simp
  note sub = subscribe_ok [OF assms(1,2) room]
  have "sub_ok i ([] @ sent ops) (fold (fan_step i) ops (b1, []))"
    using fan_run_ok [of "br_next_id b + 1" "[]" b1 "[]" ops] sub assms(2,3) by simp
  then have "sub_ok i (sent ops) (b2, got)" using assms(4) by (simp add: fan_run_def)
  then obtain c where c: "gm_get (br_chans b2) i = Some c" "length (ch_buf c) \<le> 8" "prefix (got @ ch_buf c) (sent ops)"
    "\<not> ch_closed c \<longrightarrow> got @ ch_buf c = sent ops"
    by (auto simp: sub_ok_def subscriberBuffer_def split: option.splits)
  then show ?thesis using fan_run_dropped [OF assms c(1)] by (auto simp: subscriberBuffer_def)
qed

theorem broadcast_delivery_witness:
  "\<exists>b1 i b2 got c. subscribe (new_broadcaster :: nat broadcaster) = (b1, i)
     \<and> fan_run i (map OpBroadcast [0..<9] @ [OpReceive i]) b1 = (b2, got) \<and> gm_get (br_chans b2) i = Some c
     \<and> prefix (got @ ch_buf c) [0..<9] \<and> ch_closed c"
proof -
  let ?i = "''1''"
  let ?ops = "map OpBroadcast [0..<9] @ [OpReceive ?i]"
  obtain b1 where b1: "subscribe (new_broadcaster :: nat broadcaster) = (b1, ?i)"
    and cl: "map_option ch_closed (gm_get (br_chans (fst (fan_run ?i ?ops b1))) ?i) = Some True"
  proof -
    let ?b1 = "fst (subscribe (new_broadcaster :: nat broadcaster))"
    have "snd (subscribe (new_broadcaster :: nat broadcaster)) = ?i" by code_simp
    moreover have "map_option ch_closed (gm_get (br_chans (fst (fan_run ?i ?ops ?b1))) ?i) = Some True" by code_simp
    ultimately show ?thesis using that [of ?b1] by (metis prod.collapse)
  qed
  obtain b2 got where run: "fan_run ?i ?ops b1 = (b2, got)" by (rule prod.exhaust)
  have "sent ?ops = [0..<9]" by code_simp
  with broadcast_delivery [OF b1 _ _ run] cl run b1 show ?thesis
    by (auto simp: new_broadcaster_def max_int64_def)
qed

end
