(* ===== verification/CP_Audit.thy ===== *)
theory CP_Audit
  imports Prelude
begin

text \<open>
  \<open>pkg/control_plane/audit.go\<close>: the audit log, a ring buffer of events. The free text of an event is a
  parameter type, since the log only stores it. \<open>sort.Slice\<close> leaves the order of events with equal
  timestamps open, so that the sort is a parameter of \<open>Query\<close>.
\<close>

section \<open>The ring buffer\<close>

record 'd audit_event =
  ae_timestamp :: gotime
  ae_event_type :: string
  ae_node_name :: string
  ae_detail :: 'd
  ae_actor :: string

record 'd audit_log =
  al_buf :: "'d audit_event option list"
  al_cap :: nat
  al_cursor :: nat
  al_full :: bool

text \<open>An unused slot, whose timestamp is zero, is \<open>None\<close>.\<close>

definition NewAuditLog :: "int \<Rightarrow> 'd audit_log" where
  "NewAuditLog capacity =
     (let n = nat (if capacity \<le> 0 then 8192 else capacity) in
      \<lparr>al_buf = replicate n None, al_cap = n, al_cursor = 0, al_full = False\<rparr>)"

definition stamped :: "gotime \<Rightarrow> 'd audit_event \<Rightarrow> 'd audit_event" where
  "stamped now e = (if is_zero_time (ae_timestamp e) then e\<lparr>ae_timestamp := now\<rparr> else e)"

definition Audit_Append :: "'d audit_log \<Rightarrow> 'd audit_event \<Rightarrow> gotime \<Rightarrow> 'd audit_log" where
  "Audit_Append a e now =
     (let cursor = (al_cursor a + 1) mod al_cap a in
      a\<lparr>al_buf := (al_buf a)[al_cursor a := Some (stamped now e)], al_cursor := cursor,
        al_full := (if cursor = 0 then True else al_full a)\<rparr>)"

definition matches :: "'d audit_event \<Rightarrow> gotime \<Rightarrow> gotime \<Rightarrow> string \<Rightarrow> string \<Rightarrow> bool" where
  "matches e since til eventType nodeName =
     (if \<not> is_zero_time since \<and> ae_timestamp e < since then False
      else if \<not> is_zero_time til \<and> ae_timestamp e > til then False
      else if eventType \<noteq> [] \<and> ae_event_type e \<noteq> eventType then False
      else if nodeName \<noteq> [] \<and> ae_node_name e \<noteq> nodeName then False
      else True)"

text \<open>The loops of \<open>Query\<close>: the slots they visit, in their order, and the events that match.\<close>

definition visited_slots :: "'d audit_log \<Rightarrow> nat list" where
  "visited_slots a =
     (if al_full a then map (\<lambda>i. (al_cursor a + i) mod al_cap a) [0..<al_cap a] else [0..<al_cursor a])"

definition slot_matches ::
  "'d audit_log \<Rightarrow> (gotime \<times> gotime \<times> string \<times> string) \<Rightarrow> nat \<Rightarrow> 'd audit_event list" where
  "slot_matches a q i =
     (case al_buf a ! i of
        None \<Rightarrow> []
      | Some e \<Rightarrow> (case q of (since, til, eventType, nodeName) \<Rightarrow>
          if is_zero_time (ae_timestamp e) \<and> al_full a then []
          else if matches e since til eventType nodeName then [e] else []))"

type_synonym 'd event_sort = "'d audit_event list \<Rightarrow> 'd audit_event list"

definition Audit_Query ::
  "'d event_sort \<Rightarrow> 'd audit_log \<Rightarrow> gotime \<Rightarrow> gotime \<Rightarrow> string \<Rightarrow> string \<Rightarrow> int \<Rightarrow> 'd audit_event list" where
  "Audit_Query srt a since til eventType nodeName limit =
     (let out = srt (concat (map (slot_matches a (since, til, eventType, nodeName)) (visited_slots a))) in
      if limit > 0 \<and> int (length out) > limit then take (nat limit) out else out)"

definition Audit_Len :: "'d audit_log \<Rightarrow> nat" where
  "Audit_Len a = (if al_full a then al_cap a else al_cursor a)"

section \<open>The log holds the last events\<close>

text \<open>The suffix of at most \<open>n\<close> elements.\<close>

definition last_n :: "nat \<Rightarrow> 'a list \<Rightarrow> 'a list" where
  "last_n n xs = drop (length xs - n) xs"

text \<open>After the events \<open>es\<close>: slot \<open>i\<close> holds the last event whose position is \<open>i\<close> modulo the capacity.\<close>

definition ring_ok :: "'d audit_event list \<Rightarrow> 'd audit_log \<Rightarrow> bool" where
  "ring_ok es a \<longleftrightarrow> 0 < al_cap a \<and> length (al_buf a) = al_cap a \<and> al_cursor a = length es mod al_cap a
     \<and> (al_full a \<longleftrightarrow> al_cap a \<le> length es)
     \<and> (\<forall>k < length es. length es \<le> k + al_cap a \<longrightarrow> al_buf a ! (k mod al_cap a) = Some (es ! k))"

lemma ring_ok_new: "ring_ok [] (NewAuditLog capacity)"
  by (auto simp: ring_ok_def NewAuditLog_def Let_def)

lemma mod_window_inject:
  assumes "k mod n = l mod n" and "k < l + n" and "l < k + (n::nat)"
  shows "k = l"
proof -
  have "k = l" if "k \<le> l" "k mod n = l mod n" "l < k + n" for k l :: nat
  proof -
    have "n dvd l - k" using mod_eq_dvd_iff_nat [OF that(1), of n] that(2) by simp
    moreover have "l - k < n" using that by linarith
    ultimately have "l - k = 0" by (metis dvd_imp_le not_le neq0_conv)
    then show ?thesis using that(1) by simp
  qed
  with assms show ?thesis by (metis nat_le_linear)
qed

lemma ring_ok_append:
  assumes "ring_ok es a"
  shows "ring_ok (es @ [stamped now e]) (Audit_Append a e now)"
proof -
  let ?n = "al_cap a"
  have n: "0 < ?n" "length (al_buf a) = ?n" "al_cursor a = length es mod ?n" "al_full a \<longleftrightarrow> ?n \<le> length es"
    and slots: "\<And>k. k < length es \<Longrightarrow> length es \<le> k + ?n \<Longrightarrow> al_buf a ! (k mod ?n) = Some (es ! k)"
    using assms by (auto simp: ring_ok_def)
  have cur: "(al_cursor a + 1) mod ?n = Suc (length es) mod ?n" using n(3) by (simp add: mod_Suc_eq)
  have full: "(Suc (length es) mod ?n = 0 \<or> ?n \<le> length es) \<longleftrightarrow> ?n \<le> Suc (length es)"
    using n(1) by (metis Suc_leI le_SucE le_Suc_eq le_imp_less_Suc mod_less mod_self nat_less_le not_less_eq_eq zero_less_Suc)
  have "(al_buf a)[al_cursor a := Some (stamped now e)] ! (k mod ?n) = Some ((es @ [stamped now e]) ! k)"
    if k: "k < Suc (length es)" "Suc (length es) \<le> k + ?n" for k
  proof (cases "k = length es")
    case True
    then show ?thesis using n by simp
  next
    case False
    then have "k < length es" using k by simp
    moreover have "k mod ?n \<noteq> al_cursor a"
      using mod_window_inject [of k ?n "length es"] n(3) k False by auto
    ultimately show ?thesis using slots [of k] k by (simp add: nth_append)
  qed
  then show ?thesis
    using n cur full by (auto simp: ring_ok_def Audit_Append_def Let_def)
qed

lemma ring_stored:
  assumes "ring_ok es a"
  shows "map (\<lambda>i. al_buf a ! i) (visited_slots a) = map Some (last_n (al_cap a) es)"
proof -
  let ?n = "al_cap a"
  have n: "0 < ?n" "al_cursor a = length es mod ?n" "al_full a \<longleftrightarrow> ?n \<le> length es"
    and slots: "\<And>k. k < length es \<Longrightarrow> length es \<le> k + ?n \<Longrightarrow> al_buf a ! (k mod ?n) = Some (es ! k)"
    using assms by (auto simp: ring_ok_def)
  show ?thesis
  proof (cases "al_full a")
    case True
    then have le: "?n \<le> length es" using n by simp
    have "al_buf a ! ((al_cursor a + i) mod ?n) = Some (last_n ?n es ! i)" if "i < ?n" for i
    proof -
      have "(al_cursor a + i) mod ?n = (length es + i) mod ?n" using n(2) by (simp add: mod_add_left_eq)
      also have "\<dots> = (length es - ?n + i) mod ?n"
        using le by (metis add.commute add.left_commute le_add_diff_inverse mod_add_self1)
      finally show ?thesis using slots [of "length es - ?n + i"] le that by (simp add: last_n_def)
    qed
    then show ?thesis using True le by (intro nth_equalityI) (simp_all add: visited_slots_def last_n_def)
  next
    case False
    then have lt: "length es < ?n" using n by simp
    then have "al_cursor a = length es" using n(2) by simp
    moreover have "al_buf a ! i = Some (es ! i)" if "i < length es" for i
      using slots [OF that] lt that by simp
    ultimately show ?thesis using False lt by (intro nth_equalityI) (simp_all add: visited_slots_def last_n_def)
  qed
qed

fun append_all :: "('d audit_event \<times> gotime) list \<Rightarrow> 'd audit_log \<Rightarrow> 'd audit_log" where
  "append_all [] a = a"
| "append_all ((e, now) # xs) a = append_all xs (Audit_Append a e now)"

lemma append_all_ring:
  "ring_ok es a \<Longrightarrow> ring_ok (es @ map (\<lambda>(e, now). stamped now e) xs) (append_all xs a) \<and> al_cap (append_all xs a) = al_cap a"
proof (induction xs a arbitrary: es rule: append_all.induct)
  case (1 a)
  then show ?case by simp
next
  case (2 e now xs a)
  from 2(1) [OF ring_ok_append [OF 2(2), of now e]] show ?case by (simp add: Audit_Append_def Let_def)
qed

lemma slot_matches_filter:
  assumes "al_buf a ! i = Some e" and "\<not> is_zero_time (ae_timestamp e)"
  shows "slot_matches a (since, til, ty, nm) i = filter (\<lambda>e. matches e since til ty nm) [e]"
  using assms by (simp add: slot_matches_def)

lemma concat_filter_Some: "concat (map (\<lambda>x. case x of None \<Rightarrow> [] | Some e \<Rightarrow> filter P [e]) (map Some xs)) = filter P xs"
  by (induction xs) auto

text \<open>
  C32. What an audit query returns. After any appends, the log answers a query with the matching events among
  the last \<open>capacity\<close> appended ones, each as often as it was appended, oldest timestamp first. A positive
  limit cuts that list. The number of stored events never exceeds the capacity. The sort is any function
  that permutes its input into timestamp order.
\<close>

theorem Audit_Query_exact:
  assumes "\<And>xs. mset (srt xs) = mset xs" and "\<And>xs. sorted (map ae_timestamp (srt xs))"
    and "\<forall>x \<in> set evs. \<not> is_zero_time (snd x)"
    and "n = nat (if capacity \<le> 0 then 8192 else capacity)"
    and "a = append_all evs (NewAuditLog capacity)" and "res = Audit_Query srt a since til ty nm limit"
  shows "Audit_Len a = min n (length evs)
    \<and> sorted (map ae_timestamp res)
    \<and> (limit \<le> 0 \<longrightarrow> mset res =
         mset (filter (\<lambda>e. matches e since til ty nm) (last_n n (map (\<lambda>(e, now). stamped now e) evs))))
    \<and> (0 < limit \<longrightarrow> res = take (nat limit) (Audit_Query srt a since til ty nm 0))"
proof -
  let ?es = "map (\<lambda>(e, now). stamped now e) evs"
  let ?m = "\<lambda>e. matches e since til ty nm"
  have cap: "al_cap (NewAuditLog capacity :: 'a audit_log) = n" using assms(4) by (simp add: NewAuditLog_def Let_def)
  have ok: "ring_ok ?es a" "al_cap a = n"
    using append_all_ring [OF ring_ok_new [of capacity], of evs] cap assms(5) by simp_all
  have nz: "\<not> is_zero_time (ae_timestamp e)" if "e \<in> set ?es" for e
    using that assms(3) by (fastforce simp: stamped_def is_zero_time_def split: if_splits)
  have slots: "map (\<lambda>i. al_buf a ! i) (visited_slots a) = map Some (last_n n ?es)"
    using ring_stored [OF ok(1)] ok(2) by simp
  have one: "slot_matches a (since, til, ty, nm) i = (case al_buf a ! i of None \<Rightarrow> [] | Some e \<Rightarrow> filter ?m [e])"
    if "i \<in> set (visited_slots a)" for i
  proof -
    have "al_buf a ! i \<in> set (map Some (last_n n ?es))" using that slots by (metis image_eqI set_map)
    then obtain e where "al_buf a ! i = Some e" "e \<in> set ?es" by (auto simp: last_n_def dest: in_set_dropD)
    then show ?thesis using slot_matches_filter nz by (metis option.case(2))
  qed
  have "concat (map (slot_matches a (since, til, ty, nm)) (visited_slots a))
      = concat (map (\<lambda>x. case x of None \<Rightarrow> [] | Some e \<Rightarrow> filter ?m [e]) (map (\<lambda>i. al_buf a ! i) (visited_slots a)))"
    by (rule arg_cong [where f = concat]) (simp add: one split: option.split)
  also have "\<dots> = filter ?m (last_n n ?es)"
    unfolding slots by (rule concat_filter_Some)
  finally have all: "concat (map (slot_matches a (since, til, ty, nm)) (visited_slots a)) = filter ?m (last_n n ?es)" .
  have len: "Audit_Len a = min n (length evs)"
    using ok by (auto simp: ring_ok_def Audit_Len_def)
  have q: "Audit_Query srt a since til ty nm l = (let out = srt (filter ?m (last_n n ?es)) in
      if l > 0 \<and> int (length out) > l then take (nat l) out else out)" for l
    by (simp add: Audit_Query_def all)
  have "sorted (map ae_timestamp res)"
    using assms(2) unfolding assms(6) q Let_def by (auto simp: take_map [symmetric] intro: sorted_wrt_take)
  moreover have "res = take (nat limit) (Audit_Query srt a since til ty nm 0)" if "0 < limit"
    using that unfolding assms(6) q Let_def by auto
  ultimately show ?thesis using len assms(1) unfolding assms(6) q Let_def by auto
qed

definition sample_event :: "string \<Rightarrow> unit audit_event" where
  "sample_event ty = \<lparr>ae_timestamp = time_zero, ae_event_type = ty, ae_node_name = ''n1'', ae_detail = (), ae_actor = []\<rparr>"

theorem Audit_Query_exact_witness:
  "\<exists>a. a = append_all [(sample_event ''a'', 5), (sample_event ''b'', 6), (sample_event ''b'', 7)] (NewAuditLog 2)
     \<and> Audit_Len a = 2
     \<and> mset (Audit_Query (sort_key ae_timestamp) a 0 0 ''b'' [] 0)
         = {#stamped 6 (sample_event ''b''), stamped 7 (sample_event ''b'')#}"
proof -
  let ?evs = "[(sample_event ''a'', 5), (sample_event ''b'', 6), (sample_event ''b'', 7)]"
  have nz: "\<forall>x \<in> set ?evs. \<not> is_zero_time (snd x)" by (simp add: is_zero_time_def)
  have n: "2 = nat (if (2 :: int) \<le> 0 then 8192 else 2)" by simp
  note p = Audit_Query_exact [OF mset_sort sorted_sort_key nz n refl refl, of 0 0 "''b''" "[]" 0]
  have "filter (\<lambda>e. matches e 0 0 ''b'' []) (last_n 2 (map (\<lambda>(e, now). stamped now e) ?evs))
      = [stamped 6 (sample_event ''b''), stamped 7 (sample_event ''b'')]" by code_simp
  then show ?thesis using p by (simp del: append_all.simps)
qed

end
