(* ===== verification/CP_Registry.thy ===== *)
theory CP_Registry
  imports Role Go_Strings
begin

text \<open>
  \<open>pkg/control_plane/registry.go\<close>: the identity registry of the control plane. The two Go maps are kept
  as the code keeps them, nodes by name and names by overlay address; the lemmas show that they stay
  inverse to each other and that a node's certificate changes only by an authorised rollover. The clock
  is an argument of the operations that read it.
\<close>

section \<open>Nodes and errors\<close>

record registered_node =
  rn_name :: string
  rn_roles :: "role list"
  rn_overlay_ip :: string
  rn_region :: string
  rn_node_cert :: string
  rn_pending_cert :: string
  rn_cert_overlap_until :: gotime
  rn_node_version :: string
  rn_registered_at :: gotime
  rn_last_heartbeat_at :: gotime
  rn_health :: "(string, string) gomap option"
  rn_pubkey :: string
  rn_endpoint_host :: string
  rn_protocol :: string

datatype registry_error =
    ErrRegistryEmptyName
  | ErrRegistryEmptyRoles
  | ErrRegistryRoles role_error
  | ErrRegistryNoCert
  | ErrRegistryOverlayRequired string
  | ErrRegistryNotFound
  | ErrRegistryOverlayDup string string
  | ErrRegistryNameDup
  | ErrRegistryOverlayMove string string
  | ErrRegistryPendingCert
  | ErrRegistryOverlap

record registry =
  rg_by_name :: "(string, registered_node) gomap"
  rg_by_overlay :: "(string, string) gomap"

definition NewRegistry :: registry where
  "NewRegistry = \<lparr>rg_by_name = [], rg_by_overlay = []\<rparr>"

section \<open>Operations\<close>

text \<open>The index loop of \<open>certBytesEqual\<close> after the length test, from index \<open>i\<close> on.\<close>

fun bytes_equal_from :: "string \<Rightarrow> string \<Rightarrow> bool" where
  "bytes_equal_from [] _ = True"
| "bytes_equal_from (x # a) (y # b) = (if x \<noteq> y then False else bytes_equal_from a b)"
| "bytes_equal_from (x # a) [] = False"

definition certBytesEqual :: "string \<Rightarrow> string \<Rightarrow> bool" where
  "certBytesEqual a b = (if length a \<noteq> length b then False else bytes_equal_from a b)"

definition canPromotePendingCert :: "registered_node \<Rightarrow> string \<Rightarrow> gotime \<Rightarrow> bool" where
  "canPromotePendingCert prev cert now =
     (if rn_pending_cert prev = [] \<or> \<not> certBytesEqual (rn_pending_cert prev) cert then False
      else if is_zero_time (rn_cert_overlap_until prev) \<or> \<not> now < rn_cert_overlap_until prev then False
      else True)"

text \<open>\<open>hasActivePendingCert\<close> of \<open>cert_lifecycle.go\<close>, which the registry shares.\<close>

definition hasActivePendingCert :: "registered_node \<Rightarrow> gotime \<Rightarrow> bool" where
  "hasActivePendingCert node now =
     (if rn_pending_cert node = [] then False
      else \<not> is_zero_time (rn_cert_overlap_until node) \<and> now < rn_cert_overlap_until node)"

definition merge_previous :: "registered_node \<Rightarrow> registered_node \<Rightarrow> registered_node" where
  "merge_previous prev node =
     node\<lparr>rn_pubkey := (if rn_pubkey node = [] then rn_pubkey prev else rn_pubkey node),
          rn_endpoint_host := (if rn_endpoint_host node = [] then rn_endpoint_host prev else rn_endpoint_host node),
          rn_protocol := (if rn_protocol node = [] then rn_protocol prev else rn_protocol node),
          rn_registered_at := rn_registered_at prev\<rparr>"

text \<open>
  \<open>Register\<close> up to its writes: the tests in their order and the node that is stored. No test changes the
  registry.
\<close>

definition checkedNode :: "registry \<Rightarrow> registered_node \<Rightarrow> gotime \<Rightarrow> registry_error + registered_node" where
  "checkedNode r node0 now =
     rbind (fail_if (rn_name node0 = []) ErrRegistryEmptyName) (\<lambda>_.
     rbind (fail_if (rn_roles node0 = []) ErrRegistryEmptyRoles) (\<lambda>_.
     rbind (map_err ErrRegistryRoles (ValidateComposability (rn_roles node0))) (\<lambda>_.
     rbind (fail_if (rn_node_cert node0 = []) ErrRegistryNoCert) (\<lambda>_.
     rbind (fail_if (rn_overlay_ip node0 = []) (ErrRegistryOverlayRequired (rn_name node0))) (\<lambda>_.
     let node = node0\<lparr>rn_pending_cert := [], rn_cert_overlap_until := time_zero\<rparr> in
     rbind (case gm_get (rg_by_overlay r) (rn_overlay_ip node) of
              Some existing \<Rightarrow> fail_if (existing \<noteq> rn_name node) (ErrRegistryOverlayDup (rn_overlay_ip node) existing)
            | None \<Rightarrow> Inr ()) (\<lambda>_.
     case gm_get (rg_by_name r) (rn_name node) of
       None \<Rightarrow> Inr (node\<lparr>rn_registered_at := now\<rparr>)
     | Some prev \<Rightarrow>
         rbind (if certBytesEqual (rn_node_cert prev) (rn_node_cert node)
                then Inr (node\<lparr>rn_pending_cert := rn_pending_cert prev,
                               rn_cert_overlap_until := rn_cert_overlap_until prev\<rparr>)
                else if canPromotePendingCert prev (rn_node_cert node) now then Inr node
                else Inl ErrRegistryNameDup) (\<lambda>node'.
         rbind (fail_if (rn_overlay_ip prev \<noteq> rn_overlay_ip node')
                  (ErrRegistryOverlayMove (rn_overlay_ip prev) (rn_overlay_ip node'))) (\<lambda>_.
         Inr (merge_previous prev node')))))))))"

definition Register :: "registry \<Rightarrow> registered_node \<Rightarrow> gotime \<Rightarrow> registry \<times> (registry_error + unit)" where
  "Register r node0 now =
     (case checkedNode r node0 now of
        Inl e \<Rightarrow> (r, Inl e)
      | Inr node \<Rightarrow> (\<lparr>rg_by_name = gm_put (rn_name node) node (rg_by_name r),
                     rg_by_overlay = gm_put (rn_overlay_ip node) (rn_name node) (rg_by_overlay r)\<rparr>, Inr ()))"

definition AllowCertRollover ::
  "registry \<Rightarrow> string \<Rightarrow> string \<Rightarrow> gotime \<Rightarrow> gotime \<Rightarrow> registry \<times> (registry_error + unit)" where
  "AllowCertRollover r name cert overlapUntil now =
     (if name = [] then (r, Inl ErrRegistryEmptyName)
      else if cert = [] then (r, Inl ErrRegistryNoCert)
      else if is_zero_time overlapUntil \<or> \<not> now < overlapUntil then (r, Inl ErrRegistryOverlap)
      else case gm_get (rg_by_name r) name of
        None \<Rightarrow> (r, Inl ErrRegistryNotFound)
      | Some node \<Rightarrow>
          if hasActivePendingCert node now \<and> \<not> certBytesEqual (rn_pending_cert node) cert
          then (r, Inl ErrRegistryPendingCert)
          else (r\<lparr>rg_by_name := gm_put name (node\<lparr>rn_pending_cert := cert, rn_cert_overlap_until := overlapUntil\<rparr>)
                                (rg_by_name r)\<rparr>, Inr ()))"

definition ClearCertRollover :: "registry \<Rightarrow> string \<Rightarrow> string \<Rightarrow> registry \<times> (registry_error + unit)" where
  "ClearCertRollover r name cert =
     (if name = [] then (r, Inl ErrRegistryEmptyName)
      else case gm_get (rg_by_name r) name of
        None \<Rightarrow> (r, Inl ErrRegistryNotFound)
      | Some node \<Rightarrow>
          if cert \<noteq> [] \<and> \<not> certBytesEqual (rn_pending_cert node) cert then (r, Inr ())
          else (r\<lparr>rg_by_name := gm_put name (node\<lparr>rn_pending_cert := [], rn_cert_overlap_until := time_zero\<rparr>)
                                (rg_by_name r)\<rparr>, Inr ()))"

text \<open>\<open>Heartbeat\<close>: a nil health map (\<open>None\<close>) keeps the stored indicators.\<close>

definition Registry_Heartbeat ::
  "registry \<Rightarrow> string \<Rightarrow> (string, string) gomap option \<Rightarrow> string \<Rightarrow> string \<Rightarrow> string \<Rightarrow> gotime \<Rightarrow>
     registry \<times> (registry_error + unit)" where
  "Registry_Heartbeat r name health pubkey endpointHost protocol now =
     (case gm_get (rg_by_name r) name of
        None \<Rightarrow> (r, Inl ErrRegistryNotFound)
      | Some n \<Rightarrow>
          (r\<lparr>rg_by_name := gm_put name
               (n\<lparr>rn_last_heartbeat_at := now,
                  rn_health := (case health of None \<Rightarrow> rn_health n | Some h \<Rightarrow> Some h),
                  rn_pubkey := (if pubkey \<noteq> [] then pubkey else rn_pubkey n),
                  rn_endpoint_host := (if endpointHost \<noteq> [] then endpointHost else rn_endpoint_host n),
                  rn_protocol := (if protocol \<noteq> [] then protocol else rn_protocol n)\<rparr>)
               (rg_by_name r)\<rparr>, Inr ()))"

definition Registry_Lookup :: "registry \<Rightarrow> string \<Rightarrow> registered_node option" where
  "Registry_Lookup r name = gm_get (rg_by_name r) name"

definition Registry_List :: "registry \<Rightarrow> registered_node list" where
  "Registry_List r = sort_slice rn_name (map snd (rg_by_name r))"

definition MastersInRegion :: "registry \<Rightarrow> string \<Rightarrow> string list" where
  "MastersInRegion r region =
     sort (map rn_name (filter (\<lambda>n. \<not> (region \<noteq> [] \<and> rn_region n \<noteq> region) \<and> RoleMaster \<in> set (rn_roles n))
       (map snd (rg_by_name r))))"

definition Registry_Remove :: "registry \<Rightarrow> string \<Rightarrow> registry \<times> (registry_error + unit)" where
  "Registry_Remove r name =
     (case gm_get (rg_by_name r) name of
        None \<Rightarrow> (r, Inl ErrRegistryNotFound)
      | Some n \<Rightarrow> (\<lparr>rg_by_name = gm_del name (rg_by_name r),
                   rg_by_overlay = gm_del (rn_overlay_ip n) (rg_by_overlay r)\<rparr>, Inr ()))"

section \<open>Calls\<close>

text \<open>The calls that change a registry, as data, and the registry after one of them.\<close>

datatype reg_call =
    CallRegister registered_node gotime
  | CallAllow string string gotime gotime
  | CallClear string string
  | CallHeartbeat string "(string, string) gomap option" string string string gotime
  | CallRemove string

fun reg_step :: "reg_call \<Rightarrow> registry \<Rightarrow> registry" where
  "reg_step (CallRegister node now) r = fst (Register r node now)"
| "reg_step (CallAllow name cert till now) r = fst (AllowCertRollover r name cert till now)"
| "reg_step (CallClear name cert) r = fst (ClearCertRollover r name cert)"
| "reg_step (CallHeartbeat name health key host proto now) r = fst (Registry_Heartbeat r name health key host proto now)"
| "reg_step (CallRemove name) r = fst (Registry_Remove r name)"

lemma certBytesEqual_iff: "certBytesEqual a b \<longleftrightarrow> a = b"
proof -
  have "length a = length b \<Longrightarrow> bytes_equal_from a b \<longleftrightarrow> a = b"
    by (induction a b rule: bytes_equal_from.induct) auto
  then show ?thesis by (auto simp: certBytesEqual_def)
qed

section \<open>The two maps stay inverse\<close>

definition node_ok :: "registered_node \<Rightarrow> bool" where
  "node_ok n \<longleftrightarrow> rn_name n \<noteq> [] \<and> rn_overlay_ip n \<noteq> [] \<and> rn_node_cert n \<noteq> []
     \<and> is_ok (ValidateComposability (rn_roles n))"

definition registry_ok :: "registry \<Rightarrow> bool" where
  "registry_ok r \<longleftrightarrow> gm_wf (rg_by_name r) \<and> gm_wf (rg_by_overlay r)
     \<and> (\<forall>k n. gm_get (rg_by_name r) k = Some n \<longrightarrow> rn_name n = k \<and> node_ok n)
     \<and> (\<forall>o' k. gm_get (rg_by_overlay r) o' = Some k \<longleftrightarrow>
          (\<exists>n. gm_get (rg_by_name r) k = Some n \<and> rn_overlay_ip n = o'))"

text \<open>A node that passes the tests, with the previous record of its name.\<close>

definition stored_node :: "registered_node option \<Rightarrow> registered_node \<Rightarrow> gotime \<Rightarrow> registered_node" where
  "stored_node prev node now =
     (case prev of
        None \<Rightarrow> node\<lparr>rn_pending_cert := [], rn_cert_overlap_until := time_zero, rn_registered_at := now\<rparr>
      | Some p \<Rightarrow>
          if rn_node_cert p = rn_node_cert node
          then merge_previous p (node\<lparr>rn_pending_cert := rn_pending_cert p,
                 rn_cert_overlap_until := rn_cert_overlap_until p\<rparr>)
          else merge_previous p (node\<lparr>rn_pending_cert := [], rn_cert_overlap_until := time_zero\<rparr>))"

lemma checkedNode_iff:
  "checkedNode r node now = Inr n \<longleftrightarrow>
     node_ok node
     \<and> (case gm_get (rg_by_overlay r) (rn_overlay_ip node) of Some k \<Rightarrow> k = rn_name node | None \<Rightarrow> True)
     \<and> (case gm_get (rg_by_name r) (rn_name node) of
          None \<Rightarrow> True
        | Some p \<Rightarrow> rn_overlay_ip p = rn_overlay_ip node
            \<and> (rn_node_cert p = rn_node_cert node \<or> canPromotePendingCert p (rn_node_cert node) now))
     \<and> n = stored_node (gm_get (rg_by_name r) (rn_name node)) node now"
proof -
  have roles: "is_ok (ValidateComposability rs) \<Longrightarrow> rs \<noteq> []" for rs
    by (auto simp: ValidateComposability_def)
  show ?thesis
  proof (cases "node_ok node")
    case True
    then have pre: "rn_name node \<noteq> []" "rn_roles node \<noteq> []" "rn_node_cert node \<noteq> []" "rn_overlay_ip node \<noteq> []"
      "ValidateComposability (rn_roles node) = Inr ()"
      using roles by (auto simp: node_ok_def is_ok_iff)
    show ?thesis
      by (cases "gm_get (rg_by_overlay r) (rn_overlay_ip node)"; cases "gm_get (rg_by_name r) (rn_name node)")
        (auto simp: checkedNode_def pre True fail_if_def certBytesEqual_iff stored_node_def Let_def)
  next
    case False
    then have "checkedNode r node now \<noteq> Inr n"
      unfolding checkedNode_def rbind_Inr_iff by (auto simp: node_ok_def fail_if_iff map_err_iff is_ok_iff)
    with False show ?thesis by simp
  qed
qed

lemma stored_node_sel [simp]:
  "rn_name (stored_node p node now) = rn_name node" "rn_overlay_ip (stored_node p node now) = rn_overlay_ip node"
  "rn_node_cert (stored_node p node now) = rn_node_cert node" "rn_roles (stored_node p node now) = rn_roles node"
  "rn_region (stored_node p node now) = rn_region node" "node_ok (stored_node p node now) \<longleftrightarrow> node_ok node"
  by (simp_all add: stored_node_def merge_previous_def node_ok_def split: option.split)

lemma Register_ok_iff:
  "Register r node now = (r', Inr u) \<longleftrightarrow>
     (\<exists>n. checkedNode r node now = Inr n \<and>
       r' = \<lparr>rg_by_name = gm_put (rn_name n) n (rg_by_name r),
             rg_by_overlay = gm_put (rn_overlay_ip n) (rn_name n) (rg_by_overlay r)\<rparr>)"
  "Register r node now = (r', Inl e) \<longleftrightarrow> checkedNode r node now = Inl e \<and> r' = r"
  by (auto simp: Register_def split: sum.splits)

lemma registry_ok_names: "registry_ok r \<Longrightarrow> gm_get (rg_by_name r) k = Some n \<Longrightarrow> rn_name n = k \<and> node_ok n"
  by (simp add: registry_ok_def)

lemma registry_ok_overlay:
  "registry_ok r \<Longrightarrow> gm_get (rg_by_overlay r) x = Some k \<longleftrightarrow>
     (\<exists>n. gm_get (rg_by_name r) k = Some n \<and> rn_overlay_ip n = x)"
  by (simp add: registry_ok_def)

lemma registry_okI:
  assumes "gm_wf (rg_by_name r)" and "gm_wf (rg_by_overlay r)"
    and "\<And>k n. gm_get (rg_by_name r) k = Some n \<Longrightarrow> rn_name n = k \<and> node_ok n"
    and "\<And>x k. gm_get (rg_by_overlay r) x = Some k \<longleftrightarrow> (\<exists>n. gm_get (rg_by_name r) k = Some n \<and> rn_overlay_ip n = x)"
  shows "registry_ok r"
  using assms by (simp add: registry_ok_def)

lemma registry_ok_wf: "registry_ok r \<Longrightarrow> gm_wf (rg_by_name r)" "registry_ok r \<Longrightarrow> gm_wf (rg_by_overlay r)"
  by (simp_all add: registry_ok_def)

lemma registry_ok_store:
  assumes "registry_ok r" and "checkedNode r node now = Inr n"
  shows "registry_ok \<lparr>rg_by_name = gm_put (rn_name n) n (rg_by_name r),
    rg_by_overlay = gm_put (rn_overlay_ip n) (rn_name n) (rg_by_overlay r)\<rparr>"
proof -
  from assms(2) have n: "rn_name n = rn_name node" "rn_overlay_ip n = rn_overlay_ip node" "node_ok n"
    and free: "\<And>k. gm_get (rg_by_overlay r) (rn_overlay_ip n) = Some k \<Longrightarrow> k = rn_name n"
    and same: "\<And>p. gm_get (rg_by_name r) (rn_name n) = Some p \<Longrightarrow> rn_overlay_ip p = rn_overlay_ip n"
    by (auto simp: checkedNode_iff)
  have inv: "((gm_get (rg_by_overlay r))(rn_overlay_ip n \<mapsto> rn_name n)) x = Some k \<longleftrightarrow>
      (\<exists>m. ((gm_get (rg_by_name r))(rn_name n \<mapsto> n)) k = Some m \<and> rn_overlay_ip m = x)" for x k
  proof (cases "k = rn_name n")
    case True
    then show ?thesis using registry_ok_overlay [OF assms(1), of x k] same by (cases "x = rn_overlay_ip n") auto
  next
    case False
    then have "x = rn_overlay_ip n \<Longrightarrow> \<not> gm_get (rg_by_overlay r) x = Some k" using free by auto
    with False show ?thesis using registry_ok_overlay [OF assms(1), of x k] by (cases "x = rn_overlay_ip n") auto
  qed
  show ?thesis
    by (rule registry_okI; simp only: registry.simps gm_get_put inv)
      (use registry_ok_wf [OF assms(1)] registry_ok_names [OF assms(1)] n(3) in \<open>auto split: if_splits\<close>)
qed

lemma registry_ok_update:
  assumes "registry_ok r" and "gm_get (rg_by_name r) k = Some n"
    and "rn_name n' = rn_name n" and "rn_overlay_ip n' = rn_overlay_ip n" and "node_ok n'"
  shows "registry_ok (r\<lparr>rg_by_name := gm_put k n' (rg_by_name r)\<rparr>)"
proof -
  have inv: "gm_get (rg_by_overlay r) x = Some l \<longleftrightarrow>
      (\<exists>m. ((gm_get (rg_by_name r))(k \<mapsto> n')) l = Some m \<and> rn_overlay_ip m = x)" for x l
    using registry_ok_overlay [OF assms(1), of x l] assms(2,4) by auto
  have "registry_ok \<lparr>rg_by_name = gm_put k n' (rg_by_name r), rg_by_overlay = rg_by_overlay r\<rparr>"
    by (rule registry_okI; simp only: registry.simps gm_get_put inv)
      (use registry_ok_wf [OF assms(1)] registry_ok_names [OF assms(1)] assms(2,3,5) in \<open>auto split: if_splits\<close>)
  then show ?thesis by (cases r) simp
qed

lemma registry_ok_remove:
  assumes "registry_ok r" and "gm_get (rg_by_name r) k = Some n"
  shows "registry_ok \<lparr>rg_by_name = gm_del k (rg_by_name r),
    rg_by_overlay = gm_del (rn_overlay_ip n) (rg_by_overlay r)\<rparr>"
proof -
  have "gm_get (rg_by_overlay r) (rn_overlay_ip n) = Some k"
    using registry_ok_overlay [OF assms(1)] assms(2) by auto
  then have inv: "((gm_get (rg_by_overlay r))(rn_overlay_ip n := None)) x = Some l \<longleftrightarrow>
      (\<exists>m. ((gm_get (rg_by_name r))(k := None)) l = Some m \<and> rn_overlay_ip m = x)" for x l
    using registry_ok_overlay [OF assms(1), of x l] assms(2) by auto
  show ?thesis
    by (rule registry_okI; simp only: registry.simps gm_get_del inv)
      (use registry_ok_wf [OF assms(1)] registry_ok_names [OF assms(1)] in \<open>auto split: if_splits\<close>)
qed

lemma registry_ok_modify:
  assumes "registry_ok r" and "gm_get (rg_by_name r) k = Some n"
    and "rn_name n' = rn_name n" and "rn_overlay_ip n' = rn_overlay_ip n"
    and "rn_node_cert n' = rn_node_cert n" and "rn_roles n' = rn_roles n"
  shows "registry_ok (r\<lparr>rg_by_name := gm_put k n' (rg_by_name r)\<rparr>)"
proof -
  have "node_ok n'" using registry_ok_names [OF assms(1,2)] assms(3-6) by (auto simp: node_ok_def)
  with assms(1-4) show ?thesis by (rule registry_ok_update)
qed

lemma registry_ok_new: "registry_ok NewRegistry"
  by (simp add: registry_ok_def NewRegistry_def)

lemma registry_ok_step: "registry_ok r \<Longrightarrow> registry_ok (reg_step c r)"
proof (cases c)
  case (CallRegister node now)
  assume "registry_ok r"
  then show ?thesis
    unfolding CallRegister reg_step.simps Register_def by (auto split: sum.split intro: registry_ok_store)
next
  case (CallAllow name cert till now)
  assume "registry_ok r"
  then show ?thesis
    unfolding CallAllow reg_step.simps AllowCertRollover_def by (simp split: option.split add: registry_ok_modify)
next
  case (CallClear name cert)
  assume "registry_ok r"
  then show ?thesis
    unfolding CallClear reg_step.simps ClearCertRollover_def by (simp split: option.split add: registry_ok_modify)
next
  case (CallHeartbeat name health key host proto now)
  assume "registry_ok r"
  then show ?thesis
    unfolding CallHeartbeat reg_step.simps Registry_Heartbeat_def by (simp split: option.split add: registry_ok_modify)
next
  case (CallRemove name)
  assume "registry_ok r"
  then show ?thesis
    unfolding CallRemove reg_step.simps Registry_Remove_def by (simp split: option.split add: registry_ok_remove)
qed

lemma registry_ok_run: "registry_ok r \<Longrightarrow> registry_ok (fold reg_step cs r)"
  by (induction cs arbitrary: r) (simp_all add: registry_ok_step)

text \<open>
  C16. One owner per overlay address. Whatever calls are made on a new registry, the overlay index is exactly
  the inverse of the node table and no two registered nodes have the same overlay address.
\<close>

theorem registry_overlay_unique:
  "(gm_get (rg_by_overlay (fold reg_step cs NewRegistry)) x = Some k \<longleftrightarrow>
      (\<exists>n. Registry_Lookup (fold reg_step cs NewRegistry) k = Some n \<and> rn_overlay_ip n = x \<and> rn_name n = k \<and> node_ok n))
   \<and> inj_on (\<lambda>k. rn_overlay_ip (the (Registry_Lookup (fold reg_step cs NewRegistry) k)))
       {k. Registry_Lookup (fold reg_step cs NewRegistry) k \<noteq> None}"
proof -
  let ?r = "fold reg_step cs NewRegistry"
  have ok: "registry_ok ?r" by (rule registry_ok_run) (rule registry_ok_new)
  have "gm_get (rg_by_overlay ?r) x = Some k \<longleftrightarrow>
      (\<exists>n. Registry_Lookup ?r k = Some n \<and> rn_overlay_ip n = x \<and> rn_name n = k \<and> node_ok n)"
    using registry_ok_overlay [OF ok, of x k] registry_ok_names [OF ok, of k] by (auto simp: Registry_Lookup_def)
  moreover have "inj_on (\<lambda>k. rn_overlay_ip (the (Registry_Lookup ?r k))) {k. Registry_Lookup ?r k \<noteq> None}"
  proof (rule inj_onI, unfold mem_Collect_eq Registry_Lookup_def)
    fix a b
    assume "gm_get (rg_by_name ?r) a \<noteq> None" "gm_get (rg_by_name ?r) b \<noteq> None"
      and o: "rn_overlay_ip (the (gm_get (rg_by_name ?r) a)) = rn_overlay_ip (the (gm_get (rg_by_name ?r) b))"
    then obtain m n where mn: "gm_get (rg_by_name ?r) a = Some m" "gm_get (rg_by_name ?r) b = Some n" by blast
    have "gm_get (rg_by_overlay ?r) (rn_overlay_ip m) = Some a" "gm_get (rg_by_overlay ?r) (rn_overlay_ip n) = Some b"
      using registry_ok_overlay [OF ok] mn by blast+
    with o mn show "a = b" by simp
  qed
  ultimately show ?thesis by blast
qed

section \<open>Certificates are pinned\<close>

lemma merge_previous_sel [simp]:
  "rn_node_cert (merge_previous p n) = rn_node_cert n" "rn_pending_cert (merge_previous p n) = rn_pending_cert n"
  "rn_registered_at (merge_previous p n) = rn_registered_at p"
  by (simp_all add: merge_previous_def)

definition node_kept :: "reg_call \<Rightarrow> registered_node \<Rightarrow> registered_node \<Rightarrow> bool" where
  "node_kept c n n' \<longleftrightarrow> rn_overlay_ip n' = rn_overlay_ip n \<and> rn_registered_at n' = rn_registered_at n
     \<and> (rn_node_cert n' = rn_node_cert n \<or> rn_node_cert n' = rn_pending_cert n)
     \<and> (rn_pending_cert n' = rn_pending_cert n \<or> rn_pending_cert n' = []
        \<or> (\<exists>till now. c = CallAllow (rn_name n) (rn_pending_cert n') till now))"

lemma reg_step_kept:
  assumes "registry_ok r" and n: "gm_get (rg_by_name r) k = Some n" and "c \<noteq> CallRemove k"
  shows "\<exists>n'. gm_get (rg_by_name (reg_step c r)) k = Some n' \<and> node_kept c n n'"
proof (cases c)
  case (CallRegister node now)
  show ?thesis
  proof (cases "checkedNode r node now")
    case (Inl e)
    then show ?thesis using CallRegister n by (simp add: Register_def node_kept_def)
  next
    case (Inr m)
    then have nm: "rn_name m = rn_name node" by (simp add: checkedNode_iff)
    show ?thesis
    proof (cases "rn_name node = k")
      case False
      then show ?thesis using CallRegister Inr n nm by (simp add: Register_def gm_simps node_kept_def)
    next
      case True
      then have "m = stored_node (Some n) node now" "rn_overlay_ip n = rn_overlay_ip node"
        "rn_node_cert n = rn_node_cert node \<or> canPromotePendingCert n (rn_node_cert node) now"
        using Inr n by (auto simp: checkedNode_iff)
      then have "node_kept c n m"
        by (auto simp: node_kept_def stored_node_def canPromotePendingCert_def certBytesEqual_iff split: if_splits)
          (simp_all add: merge_previous_def)
      then show ?thesis using CallRegister Inr True nm by (simp add: Register_def gm_simps)
    qed
  qed
next
  case (CallAllow name cert till now)
  then show ?thesis
    using n registry_ok_names [OF assms(1) n]
    by (cases "gm_get (rg_by_name r) name") (auto simp: AllowCertRollover_def gm_simps node_kept_def)
next
  case (CallClear name cert)
  then show ?thesis
    using n by (cases "gm_get (rg_by_name r) name") (auto simp: ClearCertRollover_def gm_simps node_kept_def)
next
  case (CallHeartbeat name health key host proto now)
  then show ?thesis
    using n by (cases "gm_get (rg_by_name r) name") (auto simp: Registry_Heartbeat_def gm_simps node_kept_def)
next
  case (CallRemove name)
  then show ?thesis
    using n assms(3) by (cases "gm_get (rg_by_name r) name") (auto simp: Registry_Remove_def gm_simps node_kept_def)
qed

definition authorised :: "string \<Rightarrow> reg_call list \<Rightarrow> string set" where
  "authorised name cs = {cert. \<exists>till now. CallAllow name cert till now \<in> set cs}"

lemma reg_run_kept:
  assumes "registry_ok r" and "gm_get (rg_by_name r) k = Some n" and "CallRemove k \<notin> set cs"
  shows "\<exists>n'. gm_get (rg_by_name (fold reg_step cs r)) k = Some n' \<and> rn_overlay_ip n' = rn_overlay_ip n
    \<and> rn_registered_at n' = rn_registered_at n
    \<and> rn_node_cert n' \<in> {rn_node_cert n, rn_pending_cert n} \<union> authorised k cs
    \<and> rn_pending_cert n' \<in> {[], rn_pending_cert n} \<union> authorised k cs"
  using assms
proof (induction cs arbitrary: r n)
  case Nil
  then show ?case by simp
next
  case (Cons c cs)
  obtain m where m: "gm_get (rg_by_name (reg_step c r)) k = Some m" "node_kept c n m"
    using reg_step_kept [OF Cons.prems(1,2), of c] Cons.prems(3) by auto
  obtain n' where n': "gm_get (rg_by_name (fold reg_step cs (reg_step c r))) k = Some n'"
    "rn_overlay_ip n' = rn_overlay_ip m" "rn_registered_at n' = rn_registered_at m"
    "rn_node_cert n' \<in> {rn_node_cert m, rn_pending_cert m} \<union> authorised k cs"
    "rn_pending_cert n' \<in> {[], rn_pending_cert m} \<union> authorised k cs"
    using Cons.IH [OF registry_ok_step [OF Cons.prems(1)] m(1)] Cons.prems(3) by auto
  have k: "rn_name n = k" using registry_ok_names [OF Cons.prems(1,2)] by simp
  then have "rn_node_cert m \<in> {rn_node_cert n, rn_pending_cert n}"
    "rn_pending_cert m \<in> {[], rn_pending_cert n} \<union> authorised k (c # cs)"
    "rn_overlay_ip m = rn_overlay_ip n" "rn_registered_at m = rn_registered_at n"
    using m(2) by (auto simp: node_kept_def authorised_def)
  moreover have "authorised k cs \<subseteq> authorised k (c # cs)" by (auto simp: authorised_def)
  moreover have "rn_node_cert n' \<noteq> []"
    using registry_ok_names [OF registry_ok_run [OF registry_ok_step [OF Cons.prems(1)]] n'(1)] by (simp add: node_ok_def)
  ultimately show ?case using n' by auto
qed


definition sample_node :: "string \<Rightarrow> string \<Rightarrow> string \<Rightarrow> registered_node" where
  "sample_node name overlay cert = \<lparr>rn_name = name, rn_roles = [RoleMaster], rn_overlay_ip = overlay, rn_region = [],
     rn_node_cert = cert, rn_pending_cert = [], rn_cert_overlap_until = time_zero, rn_node_version = [],
     rn_registered_at = time_zero, rn_last_heartbeat_at = time_zero, rn_health = None, rn_pubkey = [],
     rn_endpoint_host = [], rn_protocol = []\<rparr>"


end
