(* ===== verification/CP_Cert.thy ===== *)
theory CP_Cert
  imports CP_Registry Go_Net
begin

text \<open>
  \<open>pkg/control_plane/cert_lifecycle.go\<close>: when a registered node needs a new certificate and how long to
  wait until then. Parsing a PEM certificate and issuing a new one are cryptographic library calls and are
  parameters; the clock is the argument \<open>now\<close>.
\<close>

section \<open>Configuration\<close>

definition defaultCertRotationDays :: int where "defaultCertRotationDays = 90"
definition defaultCertRenewBefore :: duration where "defaultCertRenewBefore = 7 * 24 * hour"
definition defaultCertPollInterval :: duration where "defaultCertPollInterval = hour"
definition defaultCertPromotionGrace :: duration where "defaultCertPromotionGrace = hour"

record x509_cert =
  xc_common_name :: string
  xc_dns_names :: "string list"
  xc_ip_addresses :: "128 word list"
  xc_not_before :: gotime
  xc_not_after :: gotime

datatype cert_error =
    CertIssuerRequired
  | CertIssuerNoCA
  | CertIssueFailed string
  | CertParseCurrent string string
  | CertNameMismatch string string
  | CertReplacement string cert_error

type_synonym cert_parser = "string \<Rightarrow> string + x509_cert"
type_synonym cert_issuer = "registered_node \<Rightarrow> string list \<Rightarrow> duration \<Rightarrow> cert_error + string \<times> string \<times> x509_cert"

text \<open>
  \<open>CAIssuer\<close>: \<open>sign\<close> is \<open>pkgtls.IssueCertWithValidity\<close> with the CA's certificate and key, \<open>None\<close> when either
  is missing.
\<close>

definition CAIssuer_IssueNodeCert ::
  "(string \<Rightarrow> string list \<Rightarrow> duration \<Rightarrow> string + string \<times> string) option \<Rightarrow> cert_parser \<Rightarrow> cert_issuer" where
  "CAIssuer_IssueNodeCert sign parse node hosts validFor =
     (case sign of
        None \<Rightarrow> Inl CertIssuerNoCA
      | Some issue \<Rightarrow>
          rbind (map_err CertIssueFailed (issue (rn_name node) hosts validFor)) (\<lambda>(cert, key).
          rbind (map_err CertIssueFailed (parse cert)) (\<lambda>x. Inr (cert, key, x))))"

record cert_lifecycle_config =
  cc_rotation_days :: int
  cc_renew_before :: duration
  cc_poll_interval :: duration

record cert_lifecycle =
  cl_issuer :: cert_issuer
  cl_valid_for :: duration
  cl_renew_before :: duration
  cl_poll_interval :: duration

definition NewCertLifecycle :: "cert_issuer option \<Rightarrow> cert_lifecycle_config \<Rightarrow> cert_error + cert_lifecycle" where
  "NewCertLifecycle issuer cfg =
     (case issuer of
        None \<Rightarrow> Inl CertIssuerRequired
      | Some i \<Rightarrow>
          (let rotationDays = (if cc_rotation_days cfg \<le> 0 then defaultCertRotationDays else cc_rotation_days cfg) in
           Inr \<lparr>cl_issuer = i, cl_valid_for = wrap64 (wrap64 (rotationDays * 24) * hour),
                cl_renew_before = (if cc_renew_before cfg \<le> 0 then defaultCertRenewBefore else cc_renew_before cfg),
                cl_poll_interval = (if cc_poll_interval cfg \<le> 0 then defaultCertPollInterval
                  else cc_poll_interval cfg)\<rparr>))"

section \<open>Due updates\<close>

definition addUniqueHost :: "string \<Rightarrow> string list \<Rightarrow> string list" where
  "addUniqueHost host hosts =
     (if host = [] then hosts
      else let h = (case parse_ip host of None \<Rightarrow> host | Some ip \<Rightarrow> ip_str ip) in
           if h \<in> set hosts then hosts else hosts @ [h])"

definition certHostsForNode :: "registered_node \<Rightarrow> x509_cert option \<Rightarrow> string list" where
  "certHostsForNode node current =
     (let hosts = (case current of
            None \<Rightarrow> []
          | Some c \<Rightarrow> fold addUniqueHost
              (xc_common_name c # xc_dns_names c @ map ip_str (xc_ip_addresses c)) []);
          hosts = addUniqueHost (rn_name node) hosts in
      if rn_overlay_ip node \<noteq> [] then addUniqueHost (rn_overlay_ip node) hosts else hosts)"

record cert_update =
  cu_cert_pem :: string
  cu_key_pem :: string
  cu_valid_from_unix :: int
  cu_valid_until_unix :: int

text \<open>
  \<open>NextDueUpdate\<close>: the update when one is due, \<open>None\<close> otherwise, with the time that the code returns beside
  it: the end of the promotion window, or the expiry of the current certificate.
\<close>

definition NextDueUpdate ::
  "cert_parser \<Rightarrow> cert_lifecycle \<Rightarrow> registered_node \<Rightarrow> gotime \<Rightarrow> cert_error + cert_update option \<times> gotime" where
  "NextDueUpdate parse c node now =
     rbind (map_err (CertParseCurrent (rn_name node)) (parse (rn_node_cert node))) (\<lambda>current.
     if xc_common_name current \<noteq> rn_name node then Inl (CertNameMismatch (xc_common_name current) (rn_name node))
     else if hasActivePendingCert node now then Inr (None, xc_not_after current)
     else if now + cl_renew_before c < xc_not_after current then Inr (None, xc_not_after current)
     else
       (let minDeadline = now + defaultCertPromotionGrace;
            promotionDeadline = (if xc_not_after current < minDeadline then minDeadline else xc_not_after current) in
        rbind (map_err (CertReplacement (rn_name node))
                 (cl_issuer c node (certHostsForNode node (Some current)) (cl_valid_for c))) (\<lambda>(cert, key, x).
        Inr (Some \<lparr>cu_cert_pem = cert, cu_key_pem = key, cu_valid_from_unix = unix_of (xc_not_before x),
                   cu_valid_until_unix = unix_of (xc_not_after x)\<rparr>, promotionDeadline))))"

definition DelayUntilDue :: "cert_parser \<Rightarrow> cert_lifecycle \<Rightarrow> registered_node \<Rightarrow> gotime \<Rightarrow> duration" where
  "DelayUntilDue parse c node now =
     (case parse (rn_node_cert node) of
        Inl _ \<Rightarrow> 0
      | Inr current \<Rightarrow>
          if hasActivePendingCert node now then cl_poll_interval c
          else
            (let delay = time_sub (xc_not_after current - cl_renew_before c) now in
             if delay < 0 then 0
             else if delay > cl_poll_interval c then cl_poll_interval c
             else delay))"

section \<open>Waiting for a due update\<close>


definition sample_cert :: x509_cert where
  "sample_cert = \<lparr>xc_common_name = ''m1'', xc_dns_names = [], xc_ip_addresses = [], xc_not_before = 0,
     xc_not_after = 100 * 24 * hour\<rparr>"

definition sample_issuer :: cert_issuer where
  "sample_issuer node hosts validFor = Inr (''c2'', ''k2'', sample_cert)"

definition sample_lifecycle :: cert_lifecycle where
  "sample_lifecycle = \<lparr>cl_issuer = sample_issuer, cl_valid_for = 90 * 24 * hour, cl_renew_before = 7 * 24 * hour,
     cl_poll_interval = hour\<rparr>"

lemma sample_lifecycle_new:
  "NewCertLifecycle (Some sample_issuer) \<lparr>cc_rotation_days = 0, cc_renew_before = 0, cc_poll_interval = 0\<rparr>
     = Inr sample_lifecycle"
  by (simp add: NewCertLifecycle_def sample_lifecycle_def Let_def defaultCertRotationDays_def
      defaultCertRenewBefore_def defaultCertPollInterval_def hour_def nsec_per_sec_def wrap64_def)


section \<open>A rollover completes\<close>

text \<open>The promotion window of an update is open for at least the grace hour.\<close>

lemma NextDueUpdate_window:
  "NextDueUpdate parse c node now = Inr (Some u, till) \<Longrightarrow>
     now + defaultCertPromotionGrace \<le> till \<and> \<not> hasActivePendingCert node now"
  by (auto simp: NextDueUpdate_def res_simps Let_def split: if_splits)

text \<open>
  C14. A due update can always be promoted. Let a registry reached by any calls hold a node for which an update
  is due now. Allowing its certificate for the returned window succeeds, and a registration of the node with
  the new certificate at any time of that window, which is open for at least an hour, is then accepted. After
  that the node is registered with the new certificate and the old one no longer registers.
\<close>

theorem cert_rollover_completes:
  assumes "r = fold reg_step cs NewRegistry" and "Registry_Lookup r name = Some node" and "0 < now"
    and "NextDueUpdate parse c node now = Inr (Some u, till)" and "cu_cert_pem u \<noteq> []"
    and "cu_cert_pem u \<noteq> rn_node_cert node"
    and "rn_name new = name" and "rn_overlay_ip new = rn_overlay_ip node" and "rn_roles new = rn_roles node"
    and "rn_node_cert new = cu_cert_pem u" and "now \<le> t" and "t < till"
  shows "now + hour \<le> till
    \<and> (\<exists>r1 r2. AllowCertRollover r name (cu_cert_pem u) till now = (r1, Inr ()) \<and> Register r1 new t = (r2, Inr ())
        \<and> map_option rn_node_cert (Registry_Lookup r2 name) = Some (cu_cert_pem u)
        \<and> \<not> is_ok (snd (Register r2 (new\<lparr>rn_node_cert := rn_node_cert node\<rparr>) t')))"
proof -
  have ok: "registry_ok r" unfolding assms(1) by (rule registry_ok_run) (rule registry_ok_new)
  have node: "gm_get (rg_by_name r) name = Some node" using assms(2) by (simp add: Registry_Lookup_def)
  have names: "rn_name node = name" "node_ok node" using registry_ok_names [OF ok node] by simp_all
  have win: "now + hour \<le> till" "\<not> hasActivePendingCert node now"
    using NextDueUpdate_window [OF assms(4)] by (simp_all add: defaultCertPromotionGrace_def)
  have pos: "0 < hour" by (simp add: hour_def nsec_per_sec_def)
  let ?n1 = "node\<lparr>rn_pending_cert := cu_cert_pem u, rn_cert_overlap_until := till\<rparr>"
  let ?r1 = "r\<lparr>rg_by_name := gm_put name ?n1 (rg_by_name r)\<rparr>"
  have allow: "AllowCertRollover r name (cu_cert_pem u) till now = (?r1, Inr ())"
    using node win pos assms(3,5) names by (auto simp: AllowCertRollover_def is_zero_time_def node_ok_def)
  have r1: "gm_get (rg_by_name ?r1) name = Some ?n1" "gm_get (rg_by_overlay ?r1) (rn_overlay_ip new) = Some name"
    using registry_ok_overlay [OF ok] node assms(8) by (auto simp: gm_simps)
  have promote: "canPromotePendingCert ?n1 (cu_cert_pem u) t"
    using assms(3,5,11,12) by (simp add: canPromotePendingCert_def certBytesEqual_iff is_zero_time_def)
  have new_ok: "node_ok new" using names assms(5,7-10) by (auto simp: node_ok_def)
  let ?n2 = "stored_node (Some ?n1) new t"
  have "checkedNode ?r1 new t = Inr ?n2"
    using r1 promote new_ok assms(7,8,10) by (simp add: checkedNode_iff)
  then obtain r2 where r2: "Register ?r1 new t = (r2, Inr ())"
    "r2 = \<lparr>rg_by_name = gm_put name ?n2 (rg_by_name ?r1), rg_by_overlay = gm_put (rn_overlay_ip new) name (rg_by_overlay ?r1)\<rparr>"
    using assms(7) by (simp add: Register_def)
  have n2: "gm_get (rg_by_name r2) name = Some ?n2" using r2(2) by (simp add: gm_simps)
  have "rn_pending_cert ?n2 = []" using assms(6,10) by (simp add: stored_node_def)
  then have "\<not> canPromotePendingCert ?n2 (rn_node_cert node) t'" by (simp add: canPromotePendingCert_def)
  then have "\<not> is_ok (snd (Register r2 (new\<lparr>rn_node_cert := rn_node_cert node\<rparr>) t'))"
    using n2 assms(6,7,10)
    by (cases "checkedNode r2 (new\<lparr>rn_node_cert := rn_node_cert node\<rparr>) t'") (auto simp: Register_def checkedNode_iff)
  then show ?thesis using win(1) allow r2(1) n2 assms(10) by (auto simp: Registry_Lookup_def)
qed

theorem cert_rollover_completes_witness:
  "\<exists>r1 r2. AllowCertRollover (fold reg_step [CallRegister (sample_node ''m1'' ''10.0.0.1'' ''c1'') 5] NewRegistry)
       ''m1'' ''c2'' (100 * 24 * hour) (95 * 24 * hour) = (r1, Inr ())
     \<and> Register r1 (sample_node ''m1'' ''10.0.0.1'' ''c2'') (96 * 24 * hour) = (r2, Inr ())
     \<and> map_option rn_node_cert (Registry_Lookup r2 ''m1'') = Some ''c2''"
proof -
  let ?n = "(sample_node ''m1'' ''10.0.0.1'' ''c1'')\<lparr>rn_registered_at := 5\<rparr>"
  let ?u = "\<lparr>cu_cert_pem = ''c2'', cu_key_pem = ''k2'', cu_valid_from_unix = unix_of 0,
     cu_valid_until_unix = unix_of (100 * 24 * hour)\<rparr>"
  have look: "Registry_Lookup (fold reg_step [CallRegister (sample_node ''m1'' ''10.0.0.1'' ''c1'') 5] NewRegistry) ''m1''
      = Some ?n" by code_simp
  have due: "NextDueUpdate (\<lambda>_. Inr sample_cert) sample_lifecycle ?n (95 * 24 * hour) = Inr (Some ?u, 100 * 24 * hour)"
    by (simp add: NextDueUpdate_def sample_cert_def sample_node_def sample_lifecycle_def hasActivePendingCert_def
        sample_issuer_def hour_def nsec_per_sec_def defaultCertPromotionGrace_def Let_def)
  have pos: "0 < 95 * 24 * hour" by (simp add: hour_def nsec_per_sec_def)
  show ?thesis
    using cert_rollover_completes [OF refl look pos due, of "sample_node ''m1'' ''10.0.0.1'' ''c2''" "96 * 24 * hour" 0]
    by (auto simp: sample_node_def hour_def nsec_per_sec_def)
qed

end
