(* ===== verification/Rotation.thy ===== *)
theory Rotation
  imports Role Go_Strings Go_Strconv
begin

text \<open>
  \<open>pkg/rotation/orchestrator.go\<close>: planning and executing a mesh-wide rotation of the obfuscation
  parameters, the history of rotations and the in-memory applier. An applier is an interface of the code
  and a locale here; \<open>MemoryApplier\<close> is its interpretation. Deep copies are the values themselves.
\<close>

section \<open>Requests, plans and results\<close>

definition Tier1 :: string where "Tier1 = ''tier1''"
definition Tier2 :: string where "Tier2 = ''tier2''"
definition Tier3 :: string where "Tier3 = ''tier3''"
definition RotationStatusSucceeded :: string where "RotationStatusSucceeded = ''succeeded''"
definition RotationStatusPartialFailed :: string where "RotationStatusPartialFailed = ''partial_failed''"
definition DefaultApplyLeadTime :: duration where "DefaultApplyLeadTime = 30 * second"

record awg_params_v2 =
  ap_jc :: int
  ap_jmin :: int
  ap_jmax :: int
  ap_s1 :: int
  ap_s2 :: int
  ap_h1 :: nat
  ap_h2 :: nat
  ap_h3 :: nat
  ap_h4 :: nat
  ap_i1 :: string
  ap_i2 :: string
  ap_i3 :: string
  ap_i4 :: string
  ap_i5 :: string

record rot_target =
  tg_name :: string
  tg_roles :: "role list"
  tg_overlay_ip :: string

record rot_request =
  rr_tier :: string
  rr_params :: "awg_params_v2 option"
  rr_apply_at :: gotime
  rr_rotation_id :: string
  rr_reason :: string
  rr_targets :: "rot_target list"

record rot_plan =
  pl_tier :: string
  pl_params :: awg_params_v2
  pl_apply_at :: gotime
  pl_rotation_id :: string
  pl_reason :: string
  pl_targets :: "rot_target list"

record rot_result =
  re_target :: rot_target
  re_ack :: bool
  re_error :: string

record execution =
  ex_plan :: rot_plan
  ex_results :: "rot_result list"
  ex_status :: string

record rot_record =
  rc_plan :: rot_plan
  rc_results :: "rot_result list"
  rc_status :: string
  rc_created_at :: gotime

datatype rotation_error =
    UnsupportedTier string
  | RotationParamsRequired
  | ErrNoRotationTargets
  | ApplyAtInPast gotime
  | ErrPartialApply string

definition CloneAWGParamsV2 :: "awg_params_v2 option \<Rightarrow> awg_params_v2 option" where
  "CloneAWGParamsV2 inn =
     (case inn of
        None \<Rightarrow> None
      | Some p \<Rightarrow> Some \<lparr>ap_jc = ap_jc p, ap_jmin = ap_jmin p, ap_jmax = ap_jmax p, ap_s1 = ap_s1 p, ap_s2 = ap_s2 p,
          ap_h1 = ap_h1 p, ap_h2 = ap_h2 p, ap_h3 = ap_h3 p, ap_h4 = ap_h4 p, ap_i1 = ap_i1 p, ap_i2 = ap_i2 p,
          ap_i3 = ap_i3 p, ap_i4 = ap_i4 p, ap_i5 = ap_i5 p\<rparr>)"

definition NormalizeTier :: "string \<Rightarrow> rotation_error + string" where
  "NormalizeTier tier =
     (let t = to_lower (trim_space tier) in
      if t = ''1'' \<or> t = Tier1 then Inr Tier1
      else if t = ''2'' \<or> t = Tier2 then Inr Tier2
      else if t = ''3'' \<or> t = Tier3 then Inr Tier3
      else Inl (UnsupportedTier tier))"

fun isMeshInternal :: "role list \<Rightarrow> bool" where
  "isMeshInternal [] = False"
| "isMeshInternal (r # rs) =
     (if r = RoleMaster \<or> r = RoleEgress \<or> r = RoleIngress \<or> r = RoleBalancer then True else isMeshInternal rs)"

definition MeshInternalTargets :: "rot_target list \<Rightarrow> rot_target list" where
  "MeshInternalTargets nodes = sort_slice tg_name (filter (\<lambda>n. isMeshInternal (tg_roles n)) nodes)"

section \<open>The orchestrator\<close>

record orchestrator =
  or_history :: "rot_record list"
  or_lead :: duration

definition NewOrchestrator :: "duration \<Rightarrow> orchestrator" where
  "NewOrchestrator lead = \<lparr>or_history = [], or_lead = (if lead \<le> 0 then DefaultApplyLeadTime else lead)\<rparr>"

text \<open>\<open>Plan\<close> at the clock reading \<open>now\<close>.\<close>

definition Orchestrator_Plan :: "orchestrator \<Rightarrow> rot_request \<Rightarrow> gotime \<Rightarrow> rotation_error + rot_plan" where
  "Orchestrator_Plan orc req now =
     rbind (NormalizeTier (rr_tier req)) (\<lambda>tier.
     case CloneAWGParamsV2 (rr_params req) of
       None \<Rightarrow> Inl RotationParamsRequired
     | Some params \<Rightarrow>
         (let targets = MeshInternalTargets (rr_targets req);
              applyAt = (if is_zero_time (rr_apply_at req) then now + or_lead orc else rr_apply_at req);
              rid = trim_space (rr_rotation_id req) in
          if targets = [] then Inl ErrNoRotationTargets
          else if applyAt < now then Inl (ApplyAtInPast applyAt)
          else Inr \<lparr>pl_tier = tier, pl_params = params, pl_apply_at = applyAt,
                    pl_rotation_id = (if rid = [] then tier @ ''-'' @ itoa (unix_micro_of now) else rid),
                    pl_reason = trim_space (rr_reason req), pl_targets = targets\<rparr>))"

type_synonym 's applier = "'s \<Rightarrow> rot_target \<Rightarrow> rot_plan \<Rightarrow> 's \<times> string option"

fun apply_targets :: "'s applier \<Rightarrow> rot_plan \<Rightarrow> 's \<Rightarrow> rot_target list \<Rightarrow> 's \<times> rot_result list" where
  "apply_targets ap plan s [] = (s, [])"
| "apply_targets ap plan s (t # ts) =
     (case ap s t plan of (s', err) \<Rightarrow>
        (case apply_targets ap plan s' ts of (s'', rs) \<Rightarrow>
           (s'', (case err of
               Some e \<Rightarrow> \<lparr>re_target = t, re_ack = False, re_error = e\<rparr>
             | None \<Rightarrow> \<lparr>re_target = t, re_ack = True, re_error = []\<rparr>) # rs)))"

text \<open>
  \<open>Execute\<close> with the clock readings of the plan and of the record. A partial failure returns the execution
  together with the error; \<open>None\<close> stands for the zero execution.
\<close>

definition Orchestrator_Execute ::
  "'s applier \<Rightarrow> 's \<Rightarrow> orchestrator \<Rightarrow> rot_request \<Rightarrow> gotime \<Rightarrow> gotime \<Rightarrow>
     's \<times> orchestrator \<times> execution option \<times> rotation_error option" where
  "Orchestrator_Execute ap s orc req now now' =
     (case Orchestrator_Plan orc req now of
        Inl e \<Rightarrow> (s, orc, None, Some e)
      | Inr plan \<Rightarrow>
          (case apply_targets ap plan s (pl_targets plan) of (s', results) \<Rightarrow>
             (let st = (if list_all re_ack results then RotationStatusSucceeded else RotationStatusPartialFailed);
                  rec = \<lparr>rc_plan = plan, rc_results = results, rc_status = st, rc_created_at = now'\<rparr> in
              (s', orc\<lparr>or_history := or_history orc @ [rec]\<rparr>,
               Some \<lparr>ex_plan = plan, ex_results = results, ex_status = st\<rparr>,
               if st = RotationStatusPartialFailed then Some (ErrPartialApply (pl_rotation_id plan)) else None))))"

section \<open>The in-memory applier\<close>

record memory_applier =
  ma_applied :: "(string, rot_plan) gomap"
  ma_failures :: "(string, string) gomap"

definition NewMemoryApplier :: memory_applier where
  "NewMemoryApplier = \<lparr>ma_applied = [], ma_failures = []\<rparr>"

definition SetFailure :: "memory_applier \<Rightarrow> string \<Rightarrow> string option \<Rightarrow> memory_applier" where
  "SetFailure m nodeName err =
     (let k = trim_space nodeName in
      case err of
        None \<Rightarrow> m\<lparr>ma_failures := gm_del k (ma_failures m)\<rparr>
      | Some e \<Rightarrow> m\<lparr>ma_failures := gm_put k e (ma_failures m)\<rparr>)"

text \<open>\<open>ApplyRotation\<close>; \<open>cancelled\<close> is the error of a finished context.\<close>

definition MemoryApplier_ApplyRotation :: "string option \<Rightarrow> memory_applier applier" where
  "MemoryApplier_ApplyRotation cancelled m t plan =
     (case cancelled of
        Some e \<Rightarrow> (m, Some e)
      | None \<Rightarrow>
          (case gm_get (ma_failures m) (tg_name t) of
             Some e \<Rightarrow> (m, Some e)
           | None \<Rightarrow> (m\<lparr>ma_applied := gm_put (tg_name t) plan (ma_applied m)\<rparr>, None)))"

definition MemoryApplier_Snapshot :: "memory_applier \<Rightarrow> (string, rot_plan) gomap" where
  "MemoryApplier_Snapshot m = ma_applied m"

section \<open>The applier contract\<close>

text \<open>
  \<open>applied\<close> is the plan that a node last applied. An application without error sets it for its target and
  leaves every other node alone; one with an error changes nothing.
\<close>

locale rotation_applier =
  fixes ap :: "'s \<Rightarrow> rot_target \<Rightarrow> rot_plan \<Rightarrow> 's \<times> string option"
    and applied :: "'s \<Rightarrow> string \<Rightarrow> rot_plan option"
  assumes apply_ok: "ap s t p = (s', None) \<Longrightarrow>
      applied s' n = (if n = tg_name t then Some p else applied s n)"
    and apply_err: "ap s t p = (s', Some e) \<Longrightarrow> applied s' n = applied s n"
begin

lemma results_targets: "apply_targets ap p s ts = (s', rs) \<Longrightarrow> map re_target rs = ts"
  by (induction ts arbitrary: s rs) (auto split: prod.splits option.splits)

lemma applied_other:
  "apply_targets ap p s ts = (s', rs) \<Longrightarrow> n \<notin> tg_name ` set ts \<Longrightarrow> applied s' n = applied s n"
proof (induction ts arbitrary: s rs)
  case Nil
  then show ?case by simp
next
  case (Cons t ts)
  obtain s1 err where st: "ap s t p = (s1, err)" by (rule prod.exhaust)
  obtain rs1 where run: "apply_targets ap p s1 ts = (s', rs1)"
    using Cons.prems(1) st by (auto split: prod.splits)
  have "applied s1 n = applied s n"
    using apply_ok [of s t p s1 n] apply_err [of s t p s1 _ n] st Cons.prems(2) by (cases err) auto
  then show ?case using Cons.IH [OF run] Cons.prems(2) by simp
qed

lemma acked_applied:
  assumes "apply_targets ap p s ts = (s', rs)" and "distinct (map tg_name ts)" and "r \<in> set rs"
  shows "applied s' (tg_name (re_target r)) = (if re_ack r then Some p else applied s (tg_name (re_target r)))"
  using assms
proof (induction ts arbitrary: s rs)
  case Nil
  then show ?case by simp
next
  case (Cons t ts)
  obtain s1 err where st: "ap s t p = (s1, err)" by (rule prod.exhaust)
  obtain rs1 where run: "apply_targets ap p s1 ts = (s', rs1)" "rs = (case err of
        Some e \<Rightarrow> \<lparr>re_target = t, re_ack = False, re_error = e\<rparr>
      | None \<Rightarrow> \<lparr>re_target = t, re_ack = True, re_error = []\<rparr>) # rs1"
    using Cons.prems(1) st by (auto split: prod.splits)
  have new: "tg_name t \<notin> tg_name ` set ts" using Cons.prems(2) by simp
  have step: "applied s1 n = (if n = tg_name t \<and> err = None then Some p else applied s n)" for n
    using apply_ok [of s t p s1 n] apply_err [of s t p s1 _ n] st by (cases err) auto
  show ?case
  proof (cases "r \<in> set rs1")
    case True
    have "re_target r \<in> set ts" using results_targets [OF run(1)] True by (metis image_eqI set_map)
    then have "tg_name (re_target r) \<noteq> tg_name t" using new by (metis image_eqI)
    then show ?thesis using Cons.IH [OF run(1)] Cons.prems(2) True step by simp
  next
    case False
    then have r: "r = (case err of Some e \<Rightarrow> \<lparr>re_target = t, re_ack = False, re_error = e\<rparr>
        | None \<Rightarrow> \<lparr>re_target = t, re_ack = True, re_error = []\<rparr>)" using run(2) Cons.prems(3) by simp
    have "applied s' (tg_name t) = applied s1 (tg_name t)" by (rule applied_other [OF run(1) new])
    then show ?thesis using r step by (cases err) simp_all
  qed
qed

end

interpretation ma: rotation_applier "MemoryApplier_ApplyRotation cancelled" "\<lambda>m. gm_get (ma_applied m)"
  for cancelled
  by unfold_locales (auto simp: MemoryApplier_ApplyRotation_def gm_simps split: option.splits)

section \<open>Executing a rotation\<close>

lemma isMeshInternal_iff: "isMeshInternal rs \<longleftrightarrow> set rs \<inter> {RoleMaster, RoleEgress, RoleIngress, RoleBalancer} \<noteq> {}"
  by (induction rs) auto

lemma MeshInternalTargets_props:
  "set (MeshInternalTargets ts) = {t \<in> set ts. isMeshInternal (tg_roles t)}"
  "sorted (map tg_name (MeshInternalTargets ts))"
  "distinct (map tg_name ts) \<Longrightarrow> distinct (map tg_name (MeshInternalTargets ts))"
  by (auto simp: MeshInternalTargets_def intro: distinct_map_sort_key distinct_map_filter)

lemma Plan_facts:
  "Orchestrator_Plan orc req now = Inr plan \<Longrightarrow>
     now \<le> pl_apply_at plan \<and> pl_targets plan = MeshInternalTargets (rr_targets req) \<and> pl_targets plan \<noteq> []
     \<and> pl_rotation_id plan \<noteq> [] \<and> rr_params req = Some (pl_params plan)"
  by (auto simp: Orchestrator_Plan_def CloneAWGParamsV2_def Let_def res_simps split: option.splits if_splits)


definition sample_request :: rot_request where
  "sample_request = \<lparr>rr_tier = '' 2'', rr_params = Some \<lparr>ap_jc = 4, ap_jmin = 40, ap_jmax = 70, ap_s1 = 15, ap_s2 = 16,
       ap_h1 = 1, ap_h2 = 2, ap_h3 = 3, ap_h4 = 4, ap_i1 = [], ap_i2 = [], ap_i3 = [], ap_i4 = [], ap_i5 = []\<rparr>,
     rr_apply_at = time_zero, rr_rotation_id = ''r1'', rr_reason = [],
     rr_targets = [\<lparr>tg_name = ''m2'', tg_roles = [RoleMaster], tg_overlay_ip = []\<rparr>,
       \<lparr>tg_name = ''c1'', tg_roles = [RoleClient], tg_overlay_ip = []\<rparr>,
       \<lparr>tg_name = ''e1'', tg_roles = [RoleEgress], tg_overlay_ip = []\<rparr>]\<rparr>"


end
