(* ===== verification/CP_Server.thy ===== *)
theory CP_Server
  imports CP_Fanout CP_Audit CP_Cert Rotation
begin

text \<open>
  \<open>pkg/control_plane/server.go\<close>: the RPC handlers of the control plane over the registry, the ledger, the
  audit log, the broadcasters and the rotation orchestrator. A handler takes the server state and returns
  the new one with its response. The clock is read several times during a call; the model uses one reading
  \<open>now\<close>. What the registration observer answers in a call is a parameter of it. Calls do not interleave here;
  the ledger theory covers interference with a drain. Texts of errors in responses and audit events are the
  error values.
\<close>

section \<open>The server\<close>

datatype seed_error = SeedFailed string ledger_error

datatype detail =
    DetailNone
  | DetailRegistry registry_error
  | DetailLedger ledger_error
  | DetailSeed seed_error
  | DetailObserver string
  | DetailMissing
  | DetailRegistered "string list" string string
  | DetailDrain drain_error
  | DetailPartial nat registry_error
  | DetailReassigned nat
  | DetailRotateStart string string nat
  | DetailRotateResult string string nat
  | DetailCertIssued int int

record server =
  sv_registry :: registry
  sv_ledger :: ledger
  sv_audit :: "detail audit_log"
  sv_peer_list_bcast :: "peer_list_msg broadcaster"
  sv_ownership_bcast :: "ownership_msg broadcaster"
  sv_rotation :: orchestrator
  sv_applier :: memory_applier
  sv_cert_lifecycle :: "cert_lifecycle option"

definition NewServer :: "registry \<Rightarrow> ledger \<Rightarrow> detail audit_log \<Rightarrow> server" where
  "NewServer registry ledger audit =
     \<lparr>sv_registry = registry, sv_ledger = SetListener ledger True, sv_audit = audit,
      sv_peer_list_bcast = NewPeerListBroadcaster, sv_ownership_bcast = NewOwnershipBroadcaster,
      sv_rotation = NewOrchestrator 0, sv_applier = NewMemoryApplier, sv_cert_lifecycle = None\<rparr>"

text \<open>The ledger listener that \<open>NewServer\<close> installs.\<close>

definition on_ledger_mutation :: "ledger_note \<Rightarrow> server \<Rightarrow> server" where
  "on_ledger_mutation note s =
     (case note of (snap, version) \<Rightarrow>
        s\<lparr>sv_ownership_bcast := Ownership_Broadcast
             \<lparr>om_entries = snap, om_version = version, om_full_snapshot = False\<rparr> (sv_ownership_bcast s),
          sv_peer_list_bcast := PeerList_Broadcast
             \<lparr>pm_subject_node = [], pm_snapshot = snap, pm_version = version\<rparr> (sv_peer_list_bcast s)\<rparr>)"

definition with_ledger :: "server \<Rightarrow> ledger \<times> ledger_note list \<times> 'r \<Rightarrow> server \<times> 'r" where
  "with_ledger s x = (case x of (l, notes, r) \<Rightarrow> (fold on_ledger_mutation notes (s\<lparr>sv_ledger := l\<rparr>), r))"

text \<open>Appending an event to the audit log: by the node itself, or by the operator.\<close>

definition audit_as :: "string \<Rightarrow> gotime \<Rightarrow> string \<Rightarrow> string \<Rightarrow> detail \<Rightarrow> server \<Rightarrow> server" where
  "audit_as actor now ty node d s = s\<lparr>sv_audit := Audit_Append (sv_audit s)
     \<lparr>ae_timestamp = time_zero, ae_event_type = ty, ae_node_name = node, ae_detail = d, ae_actor = actor\<rparr> now\<rparr>"

abbreviation audit :: "gotime \<Rightarrow> string \<Rightarrow> string \<Rightarrow> detail \<Rightarrow> server \<Rightarrow> server" where
  "audit \<equiv> audit_as []"

section \<open>Ownership of registered nodes\<close>

fun self_master_loop :: "registry \<Rightarrow> string \<Rightarrow> ownership_entry list \<Rightarrow> string option" where
  "self_master_loop reg owner [] = (if owner = [] then None else Some owner)"
| "self_master_loop reg owner (e # es) =
     (if oe_owning_master e = [] then self_master_loop reg owner es
      else case CP_Registry.Registry_Lookup reg (oe_owning_master e) of
        None \<Rightarrow> self_master_loop reg owner es
      | Some node \<Rightarrow>
          if RoleMaster \<notin> set (rn_roles node) \<or> rn_overlay_ip node \<noteq> oe_overlay_ip e
          then self_master_loop reg owner es
          else if owner \<noteq> [] \<and> owner \<noteq> oe_owning_master e then None
          else self_master_loop reg (oe_owning_master e) es)"

definition singleSelfRegisteredMaster :: "registry \<Rightarrow> ledger \<Rightarrow> string option" where
  "singleSelfRegisteredMaster reg l = self_master_loop reg [] (fst (Ledger_Snapshot l))"

definition seedRegisteredNodeOwnership ::
  "gotime \<Rightarrow> server \<Rightarrow> registered_node \<Rightarrow> server \<times> seed_error option" where
  "seedRegisteredNodeOwnership now s node =
     (if RoleMaster \<in> set (rn_roles node) then (s, None)
      else case singleSelfRegisteredMaster (sv_registry s) (sv_ledger s) of
        None \<Rightarrow> (s, None)
      | Some owner \<Rightarrow>
          (case Ledger_Lookup (sv_ledger s) (rn_overlay_ip node) of
             Some _ \<Rightarrow> (s, None)
           | None \<Rightarrow>
               (case with_ledger s (Reassign (sv_ledger s) (rn_overlay_ip node) owner ''register'' now) of
                  (s', Inl e) \<Rightarrow> (s', Some (SeedFailed (rn_name node) e))
                | (s', Inr _) \<Rightarrow> (s', None))))"

fun seed_all :: "gotime \<Rightarrow> server \<Rightarrow> registered_node list \<Rightarrow> server \<times> seed_error option" where
  "seed_all now s [] = (s, None)"
| "seed_all now s (n # ns) =
     (case seedRegisteredNodeOwnership now s n of
        (s', Some e) \<Rightarrow> (s', Some e)
      | (s', None) \<Rightarrow> seed_all now s' ns)"

definition seedExistingRegisteredNodeOwnership :: "gotime \<Rightarrow> server \<Rightarrow> server \<times> seed_error option" where
  "seedExistingRegisteredNodeOwnership now s = seed_all now s (Registry_List (sv_registry s))"

definition seedRegistrationOwnership :: "gotime \<Rightarrow> server \<Rightarrow> registered_node \<Rightarrow> server \<times> seed_error option" where
  "seedRegistrationOwnership now s node =
     (if RoleMaster \<in> set (rn_roles node) then seedExistingRegisteredNodeOwnership now s
      else seedRegisteredNodeOwnership now s node)"

section \<open>Registration and heartbeats\<close>

text \<open>The observer hook, \<open>None\<close> when none is installed; it answers with an error or nothing.\<close>

type_synonym observer = "(registered_node \<Rightarrow> string option) option"

definition notifyRegistrationObserver :: "observer \<Rightarrow> registered_node \<Rightarrow> detail option" where
  "notifyRegistrationObserver onRegister node =
     (case onRegister of None \<Rightarrow> None | Some f \<Rightarrow> map_option DetailObserver (f node))"

record register_request =
  rq_node_name :: string
  rq_roles :: "string list"
  rq_overlay_ip :: string
  rq_region :: string
  rq_node_cert_pem :: string
  rq_node_version :: string
  rq_pubkey :: string
  rq_endpoint_host :: string
  rq_protocol :: string

datatype reject_reason = RejectNameRequired | RejectDetail detail

datatype register_response = Accepted int | Rejected reject_reason

definition request_node :: "register_request \<Rightarrow> registered_node" where
  "request_node req =
     \<lparr>rn_name = rq_node_name req, rn_roles = rq_roles req, rn_overlay_ip = rq_overlay_ip req,
      rn_region = rq_region req, rn_node_cert = rq_node_cert_pem req, rn_pending_cert = [],
      rn_cert_overlap_until = time_zero, rn_node_version = rq_node_version req, rn_registered_at = time_zero,
      rn_last_heartbeat_at = time_zero, rn_health = None, rn_pubkey = rq_pubkey req,
      rn_endpoint_host = rq_endpoint_host req, rn_protocol = rq_protocol req\<rparr>"

text \<open>The answer to a registration that failed after the registry accepted it: the node is removed again.\<close>

definition reject_and_remove :: "gotime \<Rightarrow> string \<Rightarrow> detail \<Rightarrow> server \<Rightarrow> server \<times> register_response" where
  "reject_and_remove now name d s0 =
     (let s = audit now ''register-rejected'' name d s0 in
      case Registry_Remove (sv_registry s) name of
        (r, Inl e) \<Rightarrow>
          (audit now ''register-rollback-failed'' name (DetailRegistry e) (s\<lparr>sv_registry := r\<rparr>),
           Rejected (RejectDetail d))
      | (r, Inr _) \<Rightarrow> (s\<lparr>sv_registry := r\<rparr>, Rejected (RejectDetail d)))"

text \<open>The handler after the registry and, for a master, the ledger accepted the node.\<close>

definition finish_registration ::
  "observer \<Rightarrow> gotime \<Rightarrow> register_request \<Rightarrow> server \<Rightarrow> server \<times> register_response" where
  "finish_registration observe now req s =
     (let name = rq_node_name req in
      case CP_Registry.Registry_Lookup (sv_registry s) name of
        None \<Rightarrow> (audit now ''register-rejected'' name DetailMissing s, Rejected (RejectDetail DetailMissing))
      | Some saved \<Rightarrow>
          (case seedRegistrationOwnership now s saved of
             (s1, Some e) \<Rightarrow> reject_and_remove now name (DetailSeed e) s1
           | (s1, None) \<Rightarrow>
               (case notifyRegistrationObserver observe saved of
                  Some d \<Rightarrow> reject_and_remove now name d s1
                | None \<Rightarrow>
                    (audit now ''register'' name (DetailRegistered (rq_roles req) (rq_overlay_ip req) (rq_region req)) s1,
                     Accepted (unix_of (rn_registered_at saved))))))"

definition RegisterNode ::
  "observer \<Rightarrow> gotime \<Rightarrow> server \<Rightarrow> register_request \<Rightarrow> server \<times> register_response" where
  "RegisterNode observe now s req =
     (let name = rq_node_name req in
      if name = [] then (s, Rejected RejectNameRequired)
      else case Register (sv_registry s) (request_node req) now of
        (r, Inl e) \<Rightarrow>
          (audit now ''register-rejected'' name (DetailRegistry e) (s\<lparr>sv_registry := r\<rparr>),
           Rejected (RejectDetail (DetailRegistry e)))
      | (r, Inr _) \<Rightarrow>
          (let s1 = s\<lparr>sv_registry := r\<rparr> in
           if RoleMaster \<in> set (rq_roles req) then
             (case with_ledger s1 (Reassign (sv_ledger s1) (rq_overlay_ip req) name ''register'' now) of
                (s2, Inl e) \<Rightarrow> reject_and_remove now name (DetailLedger e) s2
              | (s2, Inr _) \<Rightarrow> finish_registration observe now req s2)
           else finish_registration observe now req s1))"

record heartbeat_request =
  hb_node_name :: string
  hb_health :: "(string, string) gomap option"
  hb_pubkey :: string
  hb_endpoint_host :: string
  hb_protocol :: string

datatype rpc_status =
    StatusNotFound string
  | StatusInternal detail
  | StatusInvalidArgument
  | StatusFailedPrecondition
  | StatusAborted detail
  | StatusUnauthenticated
  | StatusSendError
  | StatusRecvError string
  | StatusUnimplemented

text \<open>One request of the heartbeat stream: the response's server time, or the status that ends the stream.\<close>

definition heartbeat_step ::
  "observer \<Rightarrow> gotime \<Rightarrow> server \<Rightarrow> heartbeat_request \<Rightarrow> server \<times> (rpc_status + int)" where
  "heartbeat_step observe now s req =
     (let name = hb_node_name req;
          hasPeerIdentity = (hb_pubkey req \<noteq> [] \<or> hb_endpoint_host req \<noteq> [] \<or> hb_protocol req \<noteq> []) in
      case Registry_Heartbeat (sv_registry s) name (hb_health req) (hb_pubkey req) (hb_endpoint_host req)
             (hb_protocol req) now of
        (r, Inl e) \<Rightarrow> (s\<lparr>sv_registry := r\<rparr>, Inl (StatusNotFound name))
      | (r, Inr _) \<Rightarrow>
          (let s1 = s\<lparr>sv_registry := r\<rparr>;
               answer = (\<lambda>s. (audit now ''heartbeat'' name DetailNone s, Inr (unix_of now))) in
           if \<not> hasPeerIdentity then answer s1
           else case CP_Registry.Registry_Lookup (sv_registry s1) name of
             None \<Rightarrow> (s1, Inl (StatusNotFound name))
           | Some saved \<Rightarrow>
               (case seedRegistrationOwnership now s1 saved of
                  (s2, Some e) \<Rightarrow>
                    (audit now ''heartbeat-rejected'' name (DetailSeed e) s2, Inl (StatusInternal (DetailSeed e)))
                | (s2, None) \<Rightarrow>
                    (case notifyRegistrationObserver observe saved of
                       Some d \<Rightarrow> (audit now ''heartbeat-rejected'' name d s2, Inl (StatusInternal d))
                     | None \<Rightarrow> answer s2))))"

text \<open>
  The stream: for each received request its time and whether the response could be sent. \<open>closing\<close> is how the
  last receive fails, \<open>None\<close> for an orderly end or a finished context.
\<close>

fun Server_Heartbeat ::
  "observer \<Rightarrow> rpc_status option \<Rightarrow> server \<Rightarrow> (heartbeat_request \<times> gotime \<times> bool) list \<Rightarrow> server \<times> int list \<times> rpc_status option" where
  "Server_Heartbeat observe closing s [] = (s, [], closing)"
| "Server_Heartbeat observe closing s ((req, now, sendOk) # rest) =
     (case heartbeat_step observe now s req of
        (s', Inl st) \<Rightarrow> (s', [], Some st)
      | (s', Inr t) \<Rightarrow>
          if \<not> sendOk then (s', [], Some StatusSendError)
          else (case Server_Heartbeat observe closing s' rest of (s'', ts, st) \<Rightarrow> (s'', t # ts, st)))"

section \<open>Decommissioning\<close>

definition filterOut :: "string list \<Rightarrow> string \<Rightarrow> string list" where
  "filterOut xs exclude = filter (\<lambda>s. s \<noteq> exclude) xs"

definition roundRobinChooser :: "string list \<Rightarrow> nat \<Rightarrow> string \<Rightarrow> string \<times> nat" where
  "roundRobinChooser masters i ip = (if masters = [] then ([], i) else (masters ! (i mod length masters), i + 1))"

datatype decommission_error =
    DecommissionNameRequired
  | DecommissionUnknown
  | DecommissionNoMaster
  | DecommissionDrain drain_error
  | DecommissionRemove registry_error

record decommission_response =
  dr_error :: "decommission_error option"
  dr_reassigned :: int

definition refuse :: "decommission_error \<Rightarrow> decommission_response" where
  "refuse e = \<lparr>dr_error = Some e, dr_reassigned = 0\<rparr>"

text \<open>The masters that may take over: those of the node's region, else all, without the node.\<close>

definition successors :: "registry \<Rightarrow> registered_node \<Rightarrow> string \<Rightarrow> string list" where
  "successors reg target name =
     (let candidates = filterOut (MastersInRegion reg (rn_region target)) name in
      if candidates = [] then filterOut (MastersInRegion reg []) name else candidates)"

definition drain_and_remove ::
  "gotime \<Rightarrow> server \<Rightarrow> string \<Rightarrow> nat chooser_fn \<Rightarrow> server \<times> decommission_response" where
  "drain_and_remove now s name chooser =
     (case Drain (\<lambda>_. now) (\<lambda>_ l. l) (sv_ledger s) name ''decommission'' chooser 0 of (l, notes, _, n, err) \<Rightarrow>
        (let s1 = fst (with_ledger s (l, notes, ())) in
         case err of
           Some e \<Rightarrow> (audit now ''decommission-failed'' name (DetailDrain e) s1,
                      \<lparr>dr_error = Some (DecommissionDrain e), dr_reassigned = wrap32 (int n)\<rparr>)
         | None \<Rightarrow>
             (case Registry_Remove (sv_registry s1) name of
                (r, Inl e) \<Rightarrow> (audit now ''decommission-partial'' name (DetailPartial n e) (s1\<lparr>sv_registry := r\<rparr>),
                               \<lparr>dr_error = Some (DecommissionRemove e), dr_reassigned = wrap32 (int n)\<rparr>)
              | (r, Inr _) \<Rightarrow> (audit now ''decommission'' name (DetailReassigned n) (s1\<lparr>sv_registry := r\<rparr>),
                               \<lparr>dr_error = None, dr_reassigned = wrap32 (int n)\<rparr>))))"

definition DecommissionNode :: "gotime \<Rightarrow> server \<Rightarrow> string \<Rightarrow> server \<times> decommission_response" where
  "DecommissionNode now s name =
     (if name = [] then (s, refuse DecommissionNameRequired)
      else case CP_Registry.Registry_Lookup (sv_registry s) name of
        None \<Rightarrow> (s, refuse DecommissionUnknown)
      | Some target \<Rightarrow>
          if OwnedBy (sv_ledger s) name = [] then drain_and_remove now s name None
          else
            (let candidates = successors (sv_registry s) target name in
             if candidates = [] then (s, refuse DecommissionNoMaster)
             else drain_and_remove now s name (Some (roundRobinChooser candidates))))"

section \<open>Streams of peers and ownership\<close>

definition defaultPeerPersistentKeepaliveSecs :: int where "defaultPeerPersistentKeepaliveSecs = 25"

record peer_entry =
  pe_name :: string
  pe_overlay_ip :: string
  pe_allowed_ips :: "string list"
  pe_pubkey :: string
  pe_endpoint_host :: string
  pe_keepalive :: int
  pe_protocol :: string

record peer_list_update =
  pu_subject_node :: string
  pu_peers :: "peer_entry list"
  pu_version :: int

text \<open>
  \<open>byMaster\<close> with \<open>masterOrder\<close>: an association list in first-seen order, from the master to the overlay it was
  first seen with and the allowed addresses.
\<close>

definition group_entry ::
  "string \<Rightarrow> ownership_entry \<Rightarrow> (string, string \<times> string list) gomap \<Rightarrow> (string, string \<times> string list) gomap" where
  "group_entry subjectOverlay e byMaster =
     (let overlayIP = oe_overlay_ip e in
      if subjectOverlay \<noteq> [] \<and> overlayIP = subjectOverlay then byMaster
      else case gm_get byMaster (oe_owning_master e) of
        None \<Rightarrow> gm_put (oe_owning_master e) (overlayIP, [overlayIP @ ''/32'']) byMaster
      | Some (first, ips) \<Rightarrow> gm_put (oe_owning_master e) (first, ips @ [overlayIP @ ''/32'']) byMaster)"

definition peer_of :: "registry \<Rightarrow> string \<times> string \<times> string list \<Rightarrow> peer_entry" where
  "peer_of reg agg =
     (case agg of (masterName, overlay, ips) \<Rightarrow>
        (case CP_Registry.Registry_Lookup reg masterName of
           None \<Rightarrow> \<lparr>pe_name = masterName, pe_overlay_ip = overlay, pe_allowed_ips = ips, pe_pubkey = [],
                    pe_endpoint_host = [], pe_keepalive = 0, pe_protocol = []\<rparr>
         | Some node \<Rightarrow>
             \<lparr>pe_name = masterName,
              pe_overlay_ip = (if rn_overlay_ip node \<noteq> [] then rn_overlay_ip node else overlay),
              pe_allowed_ips = ips, pe_pubkey = rn_pubkey node, pe_endpoint_host = rn_endpoint_host node,
              pe_keepalive = defaultPeerPersistentKeepaliveSecs, pe_protocol = rn_protocol node\<rparr>))"

definition subject_overlay :: "registry \<Rightarrow> string \<Rightarrow> string" where
  "subject_overlay reg subject =
     (case CP_Registry.Registry_Lookup reg subject of Some node \<Rightarrow> rn_overlay_ip node | None \<Rightarrow> [])"

definition buildPeerListUpdate :: "registry \<Rightarrow> string \<Rightarrow> ownership_entry list \<Rightarrow> int \<Rightarrow> peer_list_update" where
  "buildPeerListUpdate reg subject snapshot version =
     \<lparr>pu_subject_node = subject,
      pu_peers = map (peer_of reg) (fold (group_entry (subject_overlay reg subject)) snapshot []),
      pu_version = version\<rparr>"

record ownership_proto =
  op_overlay_ip :: string
  op_owning_master :: string
  op_last_reassigned_at_unix :: int
  op_reason :: string

definition ownershipToProto :: "ownership_entry list \<Rightarrow> ownership_proto list" where
  "ownershipToProto es = map (\<lambda>e. \<lparr>op_overlay_ip = oe_overlay_ip e, op_owning_master = oe_owning_master e,
     op_last_reassigned_at_unix = unix_of (oe_last_reassigned_at e), op_reason = oe_reason e\<rparr>) es"

record ownership_update =
  ou_entries :: "ownership_proto list"
  ou_version :: int
  ou_full_snapshot :: bool

definition is_closed :: "string \<Rightarrow> 'm broadcaster \<Rightarrow> bool" where
  "is_closed i b = (case gm_get (br_chans b) i of Some c \<Rightarrow> ch_closed c | None \<Rightarrow> True)"

text \<open>
  The streams send a message built from the current snapshot, then subscribe, and then send on each message
  taken from the subscription, built with the registry of that moment. The parts are separate operations:
  other calls may run in between.
\<close>

definition StreamPeerList_first :: "server \<Rightarrow> string \<Rightarrow> rpc_status + peer_list_update" where
  "StreamPeerList_first s subject =
     (if subject = [] then Inl StatusInvalidArgument
      else case Ledger_Snapshot (sv_ledger s) of (snapshot, version) \<Rightarrow>
        Inr (buildPeerListUpdate (sv_registry s) subject snapshot version))"

definition StreamPeerList_subscribe :: "server \<Rightarrow> string \<Rightarrow> server \<times> string" where
  "StreamPeerList_subscribe s subject =
     (case PeerList_Subscribe (sv_peer_list_bcast s) subject of (b, i) \<Rightarrow> (s\<lparr>sv_peer_list_bcast := b\<rparr>, i))"

text \<open>One round of the loop: a buffered message is sent, a closed and empty channel ends the stream, \<open>Inr None\<close> waits.\<close>

definition StreamPeerList_round :: "server \<Rightarrow> string \<Rightarrow> string \<Rightarrow> server \<times> (rpc_status + peer_list_update option)" where
  "StreamPeerList_round s subject i =
     (case receive i (sv_peer_list_bcast s) of
        (b, Some m) \<Rightarrow>
          (s\<lparr>sv_peer_list_bcast := b\<rparr>,
           Inr (Some (buildPeerListUpdate (sv_registry s) subject (pm_snapshot m) (pm_version m))))
      | (b, None) \<Rightarrow>
          (s, if is_closed i b then Inl (StatusAborted DetailNone) else Inr None))"

definition StreamPeerList_cancel :: "server \<Rightarrow> string \<Rightarrow> server" where
  "StreamPeerList_cancel s i = s\<lparr>sv_peer_list_bcast := cancel i (sv_peer_list_bcast s)\<rparr>"

definition StreamOwnership_first :: "server \<Rightarrow> ownership_update" where
  "StreamOwnership_first s =
     (case Ledger_Snapshot (sv_ledger s) of (snapshot, version) \<Rightarrow>
        \<lparr>ou_entries = ownershipToProto snapshot, ou_version = version, ou_full_snapshot = True\<rparr>)"

definition StreamOwnership_subscribe :: "server \<Rightarrow> server \<times> string" where
  "StreamOwnership_subscribe s =
     (case Ownership_Subscribe (sv_ownership_bcast s) of (b, i) \<Rightarrow> (s\<lparr>sv_ownership_bcast := b\<rparr>, i))"

definition StreamOwnership_round :: "server \<Rightarrow> string \<Rightarrow> server \<times> (rpc_status + ownership_update option)" where
  "StreamOwnership_round s i =
     (case receive i (sv_ownership_bcast s) of
        (b, Some m) \<Rightarrow>
          (s\<lparr>sv_ownership_bcast := b\<rparr>,
           Inr (Some \<lparr>ou_entries = ownershipToProto (om_entries m), ou_version = om_version m,
                      ou_full_snapshot = om_full_snapshot m\<rparr>))
      | (b, None) \<Rightarrow>
          (s, if is_closed i b then Inl (StatusAborted DetailNone) else Inr None))"

definition StreamOwnership_cancel :: "server \<Rightarrow> string \<Rightarrow> server" where
  "StreamOwnership_cancel s i = s\<lparr>sv_ownership_bcast := cancel i (sv_ownership_bcast s)\<rparr>"
section \<open>Audit queries and rotation\<close>

definition unixOrZero :: "int \<Rightarrow> gotime" where
  "unixOrZero t = (if t = 0 then time_zero else time_of_unix t)"

definition unixMicrosOrZero :: "int \<Rightarrow> gotime" where
  "unixMicrosOrZero t = (if t = 0 then time_zero else time_of_unix_micro t)"

record audit_entry =
  au_ts_unix :: int
  au_event_type :: string
  au_node_name :: string
  au_detail :: detail
  au_actor :: string

text \<open>\<open>QueryAudit\<close>: the entries it streams; \<open>sendable\<close> is how many of them the client takes.\<close>

definition audit_to_proto :: "detail audit_event \<Rightarrow> audit_entry" where
  "audit_to_proto e =
     \<lparr>au_ts_unix = unix_of (ae_timestamp e), au_event_type = ae_event_type e, au_node_name = ae_node_name e,
      au_detail = ae_detail e, au_actor = ae_actor e\<rparr>"

definition QueryAudit ::
  "detail event_sort \<Rightarrow> nat \<Rightarrow> server \<Rightarrow> int \<Rightarrow> int \<Rightarrow> string \<Rightarrow> string \<Rightarrow> int \<Rightarrow> audit_entry list \<times> rpc_status option" where
  "QueryAudit srt sendable s sinceUnix untilUnix eventType nodeName limit =
     (let events = Audit_Query srt (sv_audit s) (unixOrZero sinceUnix) (unixOrZero untilUnix) eventType nodeName limit in
      (map audit_to_proto (take sendable events), if sendable < length events then Some StatusSendError else None))"

definition rotationTargetsFromRegistry :: "registered_node list \<Rightarrow> rot_target list" where
  "rotationTargetsFromRegistry nodes =
     map (\<lambda>n. \<lparr>tg_name = rn_name n, tg_roles = rn_roles n, tg_overlay_ip = rn_overlay_ip n\<rparr>) nodes"

record rotate_request =
  rt_tier :: string
  rt_new_params :: "awg_params_v2 option"
  rt_apply_at_unix_micros :: int
  rt_rotation_id :: string

record rotate_response =
  ro_node_name :: string
  ro_rotation_id :: string
  ro_ack :: bool
  ro_error :: string

definition rotation_response :: "execution \<Rightarrow> rot_result \<Rightarrow> rotate_response" where
  "rotation_response ex r =
     \<lparr>ro_node_name = tg_name (re_target r), ro_rotation_id = pl_rotation_id (ex_plan ex), ro_ack = re_ack r,
      ro_error = re_error r\<rparr>"

fun streamRotationResults :: "nat \<Rightarrow> execution \<Rightarrow> rot_result list \<Rightarrow> rotate_response list \<times> rpc_status option" where
  "streamRotationResults sendable ex [] = ([], None)"
| "streamRotationResults sendable ex (r # rs) =
     (case sendable of
        0 \<Rightarrow> ([], Some StatusSendError)
      | Suc k \<Rightarrow> (case streamRotationResults k ex rs of (out, st) \<Rightarrow> (rotation_response ex r # out, st)))"

text \<open>
  The request is \<open>Inl None\<close> when the stream ends before one arrives, and \<open>Inl (Some e)\<close> when receiving it fails. \<open>sendable\<close> is how many responses the client takes,
  \<open>cancelled\<close> the error of a finished context.
\<close>

definition RotateAWGParamsMeshWide ::
  "string option \<Rightarrow> nat \<Rightarrow> gotime \<Rightarrow> server \<Rightarrow> string option + rotate_request \<Rightarrow>
     server \<times> rotate_response list \<times> rpc_status option" where
  "RotateAWGParamsMeshWide cancelled sendable now s request =
     (case request of
        Inl None \<Rightarrow> (s, [], Some StatusInvalidArgument)
      | Inl (Some e) \<Rightarrow> (s, [], Some (StatusRecvError e))
      | Inr req \<Rightarrow>
          (let rotationReq = \<lparr>rr_tier = rt_tier req, rr_params = rt_new_params req,
                 rr_apply_at = unixMicrosOrZero (rt_apply_at_unix_micros req), rr_rotation_id = rt_rotation_id req,
                 rr_reason = ''control-plane'', rr_targets = rotationTargetsFromRegistry (Registry_List (sv_registry s))\<rparr>;
               s1 = audit_as ''operator'' now ''rotate-start'' []
                 (DetailRotateStart (rt_tier req) (rt_rotation_id req)
                   (length (MeshInternalTargets (rr_targets rotationReq)))) s in
           case Orchestrator_Execute (MemoryApplier_ApplyRotation cancelled) (sv_applier s1) (sv_rotation s1)
                  rotationReq now now of (m, orc, exec, err) \<Rightarrow>
             (let s2 = s1\<lparr>sv_applier := m, sv_rotation := orc\<rparr>;
                  streamed = (case exec of None \<Rightarrow> ([], None)
                    | Some ex \<Rightarrow> streamRotationResults sendable ex (ex_results ex)) in
              case streamed of
                (out, Some st) \<Rightarrow> (s2, out, Some st)
              | (out, None) \<Rightarrow>
                  (let d = (case exec of
                         None \<Rightarrow> DetailRotateResult [] [] 0
                       | Some ex \<Rightarrow> DetailRotateResult (pl_rotation_id (ex_plan ex)) (ex_status ex) (length (ex_results ex))) in
                   (audit_as ''operator'' now ''rotate-result'' [] d s2, out,
                    case err of
                      None \<Rightarrow> None
                    | Some ErrNoRotationTargets \<Rightarrow> Some StatusFailedPrecondition
                    | Some (ErrPartialApply _) \<Rightarrow> Some (StatusAborted d)
                    | Some _ \<Rightarrow> Some StatusInvalidArgument)))))"

definition SignalExchange :: rpc_status where "SignalExchange = StatusUnimplemented"
definition StreamServiceRegistry :: rpc_status where "StreamServiceRegistry = StatusUnimplemented"

section \<open>Certificate updates\<close>

text \<open>
  What the TLS layer knows of the peer: \<open>None\<close> without a TLS peer, else the number of verified chains and the
  subject and DNS names of the peer's certificates.
\<close>

type_synonym tls_peer = "(nat \<times> (string \<times> string list) list) option"

definition authenticatedStreamNodeName :: "tls_peer \<Rightarrow> string option" where
  "authenticatedStreamNodeName peer =
     (case peer of
        None \<Rightarrow> None
      | Some (verified, certs) \<Rightarrow>
          if verified = 0 \<or> certs = [] then None
          else (case hd certs of (cn, dns) \<Rightarrow>
            if cn \<noteq> [] then Some cn else if dns \<noteq> [] then Some (hd dns) else None))"

text \<open>
  \<open>StreamCertUpdate\<close> up to its loop, and one round of the loop: it ends the stream, has sent an update, or waits.
  \<open>sendOk\<close> is whether the update could be sent and \<open>gone\<close> whether the context was finished by then.
\<close>

datatype cert_round = CertEnd "rpc_status option" | CertSent cert_update | CertWait duration

definition StreamCertUpdate_admit :: "server \<Rightarrow> tls_peer \<Rightarrow> string \<Rightarrow> rpc_status option" where
  "StreamCertUpdate_admit s peer name =
     (if name = [] then Some StatusInvalidArgument
      else case authenticatedStreamNodeName peer of
        None \<Rightarrow> Some StatusUnauthenticated
      | Some authenticated \<Rightarrow>
          if authenticated \<noteq> name then Some StatusUnauthenticated
          else if sv_cert_lifecycle s = None then Some StatusFailedPrecondition
          else None)"

definition rollover_status :: "string \<Rightarrow> registry_error \<Rightarrow> rpc_status" where
  "rollover_status name e =
     (if e = ErrRegistryNotFound then StatusNotFound name
      else if e = ErrRegistryPendingCert then StatusAborted (DetailRegistry e)
      else StatusInternal (DetailRegistry e))"

definition cert_send_failed :: "bool \<Rightarrow> server \<Rightarrow> string \<Rightarrow> string \<Rightarrow> server \<times> cert_round" where
  "cert_send_failed gone s name cert =
     (case ClearCertRollover (sv_registry s) name cert of (r, res) \<Rightarrow>
        (s\<lparr>sv_registry := r\<rparr>,
         case res of
           Inl e \<Rightarrow> if e \<noteq> ErrRegistryNotFound then CertEnd (Some (StatusInternal (DetailRegistry e)))
                    else if gone then CertEnd None else CertEnd (Some StatusSendError)
         | Inr _ \<Rightarrow> if gone then CertEnd None else CertEnd (Some StatusSendError)))"

definition StreamCertUpdate_round ::
  "cert_parser \<Rightarrow> cert_lifecycle \<Rightarrow> bool \<Rightarrow> bool \<Rightarrow> gotime \<Rightarrow> server \<Rightarrow> string \<Rightarrow> server \<times> cert_round" where
  "StreamCertUpdate_round parse c sendOk gone now s name =
     (case CP_Registry.Registry_Lookup (sv_registry s) name of
        None \<Rightarrow> (s, CertEnd (Some (StatusNotFound name)))
      | Some node \<Rightarrow>
          (case NextDueUpdate parse c node now of
             Inl e \<Rightarrow> (s, CertEnd (Some StatusFailedPrecondition))
           | Inr (None, _) \<Rightarrow> (s, CertWait (DelayUntilDue parse c node now))
           | Inr (Some u, overlapUntil) \<Rightarrow>
               (case AllowCertRollover (sv_registry s) name (cu_cert_pem u) overlapUntil now of
                  (r, Inl e) \<Rightarrow> (s\<lparr>sv_registry := r\<rparr>, CertEnd (Some (rollover_status name e)))
                | (r, Inr _) \<Rightarrow>
                    (let s1 = audit now ''cert-update-issued'' name
                           (DetailCertIssued (cu_valid_until_unix u) (unix_of overlapUntil)) (s\<lparr>sv_registry := r\<rparr>) in
                     if sendOk then (s1, CertSent u) else cert_send_failed gone s1 name (cu_cert_pem u)))))"

end
