(* ===== verification/CP_Daemon.thy ===== *)
theory CP_Daemon
  imports CP_Server
begin

text \<open>
  \<open>pkg/control_plane/daemon.go\<close>: how the daemon checks its listen address, finds its CA and builds the server,
  the host names of its certificate, the registration of the master itself and the flushed audit lines. The
  file system, name resolution, the CA loader and the TLS key material are parameters. Listening, signals and
  shutdown are not modelled.
\<close>

section \<open>Configuration and files\<close>

record daemon_config =
  dc_listen_addr :: string
  dc_state_dir :: string
  dc_ca_dir :: string
  dc_cert_hosts :: "string list"
  dc_cert_rotation_days :: int
  dc_audit_cap :: int
  dc_allow_insecure_public_bind :: bool

datatype stat_result = StatFile | StatDir | StatMissing | StatFailed string

text \<open>The status of a file, by its directory and name.\<close>

type_synonym file_status = "string \<Rightarrow> string \<Rightarrow> stat_result"

datatype daemon_error =
    ListenAddrRequired
  | StateDirRequired
  | FileIsDirectory string string
  | FileStatFailed string
  | ListenAddrInvalid string
  | ListenAddrInsecure string
  | ResolveFailed string string
  | ResolveEmpty string
  | MkdirFailed string
  | IncompleteCA string
  | LoadCAFailed string
  | LifecycleFailed cert_error
  | TLSFailed string

definition regularFileExists :: "file_status \<Rightarrow> string \<Rightarrow> string \<Rightarrow> daemon_error + bool" where
  "regularFileExists stat dir name =
     (case stat dir name of
        StatFile \<Rightarrow> Inr True
      | StatDir \<Rightarrow> Inl (FileIsDirectory dir name)
      | StatMissing \<Rightarrow> Inr False
      | StatFailed e \<Rightarrow> Inl (FileStatFailed e))"

definition caMaterialState :: "file_status \<Rightarrow> string \<Rightarrow> daemon_error + bool \<times> bool" where
  "caMaterialState stat dir =
     rbind (regularFileExists stat dir ''ca.crt'') (\<lambda>certExists.
     rbind (regularFileExists stat dir ''ca.key'') (\<lambda>keyExists.
     Inr (certExists \<or> keyExists, certExists \<and> keyExists)))"

definition hasCompleteCAMaterial :: "file_status \<Rightarrow> daemon_config \<Rightarrow> daemon_error + bool" where
  "hasCompleteCAMaterial stat cfg =
     (let caDir = (if dc_ca_dir cfg = [] then dc_state_dir cfg else dc_ca_dir cfg) in
      rbind (caMaterialState stat caDir) (\<lambda>(_, hasCompleteCA). Inr hasCompleteCA))"

section \<open>The listen address\<close>

text \<open>\<open>net.IP.IsLoopback\<close> and \<open>net.IP.IsUnspecified\<close> on the 16-byte form.\<close>

definition ip_is_loopback :: "128 word \<Rightarrow> bool" where
  "ip_is_loopback w = (case to4 w of Some v \<Rightarrow> unat v div 2 ^ 24 = 127 | None \<Rightarrow> w = 1)"

definition ip_is_unspecified :: "128 word \<Rightarrow> bool" where
  "ip_is_unspecified w \<longleftrightarrow> w = 0 \<or> w = v4_in_6 0"

type_synonym resolver = "string \<Rightarrow> string + 128 word list"

definition validateListenAddr :: "resolver \<Rightarrow> string \<Rightarrow> bool \<Rightarrow> daemon_error + unit" where
  "validateListenAddr lookup listenAddr allowInsecurePublicBind =
     (if allowInsecurePublicBind then Inr ()
      else case split_host_port listenAddr of
        None \<Rightarrow> Inl (ListenAddrInvalid listenAddr)
      | Some (host, _) \<Rightarrow>
          if host = [] then Inl (ListenAddrInsecure listenAddr)
          else if host = ''localhost'' then Inr ()
          else case parse_ip host of
            Some ip \<Rightarrow>
              if ip_is_loopback ip \<and> \<not> ip_is_unspecified ip then Inr () else Inl (ListenAddrInsecure listenAddr)
          | None \<Rightarrow>
              (case lookup host of
                 Inl e \<Rightarrow> Inl (ResolveFailed host e)
               | Inr resolved \<Rightarrow>
                   if resolved = [] then Inl (ResolveEmpty host)
                   else if list_ex (\<lambda>ip. \<not> ip_is_loopback ip \<or> ip_is_unspecified ip) resolved
                   then Inl (ListenAddrInsecure listenAddr)
                   else Inr ()))"

section \<open>The certificate of the daemon\<close>

text \<open>\<open>strings.Trim(s, "[]")\<close>.\<close>

definition trim_brackets :: "string \<Rightarrow> string" where
  "trim_brackets s =
     (let cut = dropWhile (\<lambda>c. c = CHR ''['' \<or> c = CHR '']'') in rev (cut (rev (cut s))))"

definition normalizeCertHost :: "string \<Rightarrow> string" where
  "normalizeCertHost host =
     (let trimmed = trim_space host in
      if trimmed = [] then []
      else trim_brackets (case split_host_port trimmed of Some (splitHost, _) \<Rightarrow> splitHost | None \<Rightarrow> trimmed))"

fun append_hosts :: "string list \<Rightarrow> string list \<Rightarrow> string list" where
  "append_hosts out [] = out"
| "append_hosts out (host # hosts) =
     (let normalized = normalizeCertHost host in
      if normalized = [] \<or> normalized \<in> set out then append_hosts out hosts
      else append_hosts (out @ [normalized]) hosts)"

definition appendCertHosts :: "string list \<Rightarrow> string list \<Rightarrow> string list" where
  "appendCertHosts hosts extraHosts = append_hosts [] (hosts @ extraHosts)"

definition serverCertHosts :: "string \<Rightarrow> string list \<Rightarrow> string list" where
  "serverCertHosts listenAddr extraHosts =
     (let hosts = [''localhost'', ''127.0.0.1'', ''::1''] in
      case split_host_port listenAddr of
        None \<Rightarrow> appendCertHosts hosts extraHosts
      | Some (host, _) \<Rightarrow>
          if host = [] then appendCertHosts hosts extraHosts
          else case parse_ip host of
            Some ip \<Rightarrow> if ip_is_unspecified ip then appendCertHosts hosts extraHosts
                      else appendCertHosts (hosts @ [host]) extraHosts
          | None \<Rightarrow> appendCertHosts (hosts @ [host]) extraHosts)"

text \<open>
  \<open>ca\<close> is what \<open>LoadCA\<close> returns, \<open>sign\<close> issues a certificate with it and \<open>pair\<close> is the result of
  \<open>tls.X509KeyPair\<close>. The TLS configuration is the server's certificate; clients must present one that the CA
  signed.
\<close>

record 'ca environment =
  ev_load_ca :: "string \<Rightarrow> string + 'ca"
  ev_sign :: "'ca \<Rightarrow> string \<Rightarrow> string list \<Rightarrow> duration \<Rightarrow> string + string \<times> string"
  ev_parse :: cert_parser
  ev_pair :: "string \<Rightarrow> string \<Rightarrow> string option"

record 'ca tls_config =
  tc_client_ca :: 'ca
  tc_certificate :: "string \<times> string"
  tc_require_client_cert :: bool

definition controlPlaneTLSConfig :: "'ca environment \<Rightarrow> daemon_config \<Rightarrow> 'ca \<Rightarrow> string + 'ca tls_config" where
  "controlPlaneTLSConfig ev cfg ca =
     rbind (ev_sign ev ca ''awg-mesh-control-plane'' (serverCertHosts (dc_listen_addr cfg) (dc_cert_hosts cfg))
              (defaultCertRotationDays * 24 * hour)) (\<lambda>(certPEM, keyPEM).
     case ev_pair ev certPEM keyPEM of
       Some e \<Rightarrow> Inl e
     | None \<Rightarrow> Inr \<lparr>tc_client_ca = ca, tc_certificate = (certPEM, keyPEM), tc_require_client_cert = True\<rparr>)"

text \<open>The lifecycle and the TLS configuration with a given CA directory, and with the configured one.\<close>

definition lifecycle_with_ca ::
  "'ca environment \<Rightarrow> daemon_config \<Rightarrow> server \<Rightarrow> string \<Rightarrow> daemon_error + server \<times> 'ca tls_config option" where
  "lifecycle_with_ca ev cfg server caDir =
     rbind (map_err LoadCAFailed (ev_load_ca ev caDir)) (\<lambda>ca.
     rbind (map_err LifecycleFailed (NewCertLifecycle (Some (CAIssuer_IssueNodeCert (Some (ev_sign ev ca)) (ev_parse ev)))
              \<lparr>cc_rotation_days = dc_cert_rotation_days cfg, cc_renew_before = 0, cc_poll_interval = 0\<rparr>)) (\<lambda>lifecycle.
     rbind (map_err TLSFailed (controlPlaneTLSConfig ev cfg ca)) (\<lambda>tls.
     Inr (server\<lparr>sv_cert_lifecycle := Some lifecycle\<rparr>, Some tls))))"

definition configureDaemonCertLifecycle ::
  "file_status \<Rightarrow> 'ca environment \<Rightarrow> daemon_config \<Rightarrow> server \<Rightarrow> daemon_error + server \<times> 'ca tls_config option" where
  "configureDaemonCertLifecycle stat ev cfg server =
     (if dc_ca_dir cfg = [] then
        rbind (caMaterialState stat (dc_state_dir cfg)) (\<lambda>(hasAnyCA, hasCompleteCA).
        if \<not> hasAnyCA then Inr (server, None)
        else if \<not> hasCompleteCA then Inl (IncompleteCA (dc_state_dir cfg))
        else lifecycle_with_ca ev cfg server (dc_state_dir cfg))
      else lifecycle_with_ca ev cfg server (dc_ca_dir cfg))"

definition NewDaemon ::
  "file_status \<Rightarrow> resolver \<Rightarrow> 'ca environment \<Rightarrow> string option \<Rightarrow> daemon_config \<Rightarrow>
     daemon_error + server \<times> 'ca tls_config option" where
  "NewDaemon stat lookup ev mkdirError cfg =
     rbind (fail_if (dc_listen_addr cfg = []) ListenAddrRequired) (\<lambda>_.
     rbind (fail_if (dc_state_dir cfg = []) StateDirRequired) (\<lambda>_.
     rbind (hasCompleteCAMaterial stat cfg) (\<lambda>securedPublicBind.
     rbind (validateListenAddr lookup (dc_listen_addr cfg)
              (dc_allow_insecure_public_bind cfg \<or> securedPublicBind)) (\<lambda>_.
     rbind (case mkdirError of Some e \<Rightarrow> Inl (MkdirFailed e) | None \<Rightarrow> Inr ()) (\<lambda>_.
     configureDaemonCertLifecycle stat ev cfg
       (NewServer CP_Registry.NewRegistry NewLedger (NewAuditLog (dc_audit_cap cfg))))))))"

section \<open>Self-registration and the audit file\<close>

datatype self_register_error = SelfRegistry registry_error | SelfLedger ledger_error | SelfSeed seed_error

definition SelfRegister :: "gotime \<Rightarrow> server \<Rightarrow> registered_node \<Rightarrow> server \<times> (self_register_error + unit)" where
  "SelfRegister now s node =
     (case Register (sv_registry s) node now of
        (r, Inl e) \<Rightarrow> (s\<lparr>sv_registry := r\<rparr>, Inl (SelfRegistry e))
      | (r, Inr _) \<Rightarrow>
          (let s1 = s\<lparr>sv_registry := r\<rparr> in
           if RoleMaster \<notin> set (rn_roles node) then (s1, Inr ())
           else case with_ledger s1 (Reassign (sv_ledger s1) (rn_overlay_ip node) (rn_name node) ''self-register'' now) of
             (s2, Inl e) \<Rightarrow> (s2, Inl (SelfLedger e))
           | (s2, Inr _) \<Rightarrow>
               (case seedExistingRegisteredNodeOwnership now s2 of
                  (s3, Some e) \<Rightarrow> (s3, Inl (SelfSeed e))
                | (s3, None) \<Rightarrow> (s3, Inr ()))))"

text \<open>The lines that \<open>flushAudit\<close> appends; \<open>show_time\<close> and \<open>show_detail\<close> render a time and a detail.\<close>

definition flushAudit ::
  "detail event_sort \<Rightarrow> (gotime \<Rightarrow> string) \<Rightarrow> (detail \<Rightarrow> string) \<Rightarrow> server \<Rightarrow> string list" where
  "flushAudit srt show_time show_detail s =
     map (\<lambda>e. join [CHR 0x09] [show_time (ae_timestamp e), ae_event_type e, ae_node_name e, show_detail (ae_detail e)] @ [CHR 0x0A])
       (Audit_Query srt (sv_audit s) time_zero time_zero [] [] 0)"

section \<open>Plaintext only on loopback\<close>

definition loopback_only :: "resolver \<Rightarrow> string \<Rightarrow> bool" where
  "loopback_only lookup listenAddr \<longleftrightarrow>
     (\<exists>host port. split_host_port listenAddr = Some (host, port)
        \<and> (host = ''localhost''
           \<or> (\<exists>ip. parse_ip host = Some ip \<and> ip_is_loopback ip)
           \<or> (\<exists>ips. parse_ip host = None \<and> lookup host = Inr ips \<and> ips \<noteq> [] \<and> (\<forall>ip \<in> set ips. ip_is_loopback ip))))"

lemma validateListenAddr_loopback:
  "validateListenAddr lookup a False = Inr u \<Longrightarrow> loopback_only lookup a"
  unfolding validateListenAddr_def loopback_only_def
  by (auto simp: list_ex_iff split: if_splits option.splits sum.splits)

lemma lifecycle_with_ca_tls:
  "lifecycle_with_ca ev cfg server dir = Inr (s, tls) \<Longrightarrow>
     (\<exists>t. tls = Some t \<and> tc_require_client_cert t) \<and> sv_cert_lifecycle s \<noteq> None"
  by (auto simp: lifecycle_with_ca_def controlPlaneTLSConfig_def rbind_Inr_iff map_err_iff split: option.splits)

text \<open>
  C19. The control plane speaks plaintext only on loopback. A daemon that is built either has a TLS configuration
  that demands client certificates together with a certificate lifecycle, or it has neither, and then its
  address is a loopback address, \<open>localhost\<close> or a name that resolves to loopback addresses only, unless the
  operator allowed a public plaintext address explicitly.
\<close>

theorem NewDaemon_secure:
  assumes "NewDaemon stat lookup ev mkdirError cfg = Inr (s, tls)"
  shows "(\<exists>t. tls = Some t \<and> tc_require_client_cert t \<and> sv_cert_lifecycle s \<noteq> None)
    \<or> tls = None \<and> sv_cert_lifecycle s = None
      \<and> (dc_allow_insecure_public_bind cfg \<or> loopback_only lookup (dc_listen_addr cfg))"
proof -
  let ?s0 = "NewServer CP_Registry.NewRegistry NewLedger (NewAuditLog (dc_audit_cap cfg)) :: server"
  from assms obtain secured u where ca: "hasCompleteCAMaterial stat cfg = Inr secured"
    and addr: "validateListenAddr lookup (dc_listen_addr cfg) (dc_allow_insecure_public_bind cfg \<or> secured) = Inr u"
    and conf: "configureDaemonCertLifecycle stat ev cfg ?s0 = Inr (s, tls)"
    unfolding NewDaemon_def rbind_Inr_iff by blast
  show ?thesis
  proof (cases "\<exists>dir. lifecycle_with_ca ev cfg ?s0 dir = Inr (s, tls)")
    case True
    then show ?thesis using lifecycle_with_ca_tls by blast
  next
    case False
    then have none: "dc_ca_dir cfg = []" "s = ?s0" "tls = None" "\<exists>c. caMaterialState stat (dc_state_dir cfg) = Inr (False, c)"
      using conf unfolding configureDaemonCertLifecycle_def
      by (auto simp: rbind_Inr_iff split: if_splits)
    then have "\<not> secured" using ca
      by (auto simp: hasCompleteCAMaterial_def caMaterialState_def rbind_Inr_iff Let_def)
    then have "dc_allow_insecure_public_bind cfg \<or> loopback_only lookup (dc_listen_addr cfg)"
      using addr validateListenAddr_loopback by (cases "dc_allow_insecure_public_bind cfg") simp_all
    then show ?thesis using none by (simp add: NewServer_def)
  qed
qed

definition sample_config :: daemon_config where
  "sample_config = \<lparr>dc_listen_addr = ''127.0.0.1:51820'', dc_state_dir = ''/var/lib/mesh'', dc_ca_dir = [],
     dc_cert_hosts = [], dc_cert_rotation_days = 0, dc_audit_cap = 4, dc_allow_insecure_public_bind = False\<rparr>"

theorem NewDaemon_secure_witness:
  "\<exists>s. NewDaemon (\<lambda>_ _. StatMissing) (\<lambda>_. Inl ''no such host'') (undefined :: unit environment) None sample_config
       = Inr (s, None) \<and> loopback_only (\<lambda>_. Inl ''no such host'') (dc_listen_addr sample_config)"
proof -
  have addr: "validateListenAddr (\<lambda>_. Inl ''no such host'') ''127.0.0.1:51820'' False = Inr ()" by code_simp
  let ?d = "NewDaemon (\<lambda>_ _. StatMissing) (\<lambda>_. Inl ''no such host'') (undefined :: unit environment) None sample_config"
  have "\<exists>s. ?d = Inr (s, None)"
    by (simp add: NewDaemon_def sample_config_def addr hasCompleteCAMaterial_def caMaterialState_def
        regularFileExists_def configureDaemonCertLifecycle_def fail_if_def)
  then obtain s where s: "?d = Inr (s, None)" by blast
  from NewDaemon_secure [OF s] have "loopback_only (\<lambda>_. Inl ''no such host'') (dc_listen_addr sample_config)"
    by (simp add: sample_config_def)
  with s show ?thesis by blast
qed

end
