(* ===== verification/CP_Server_Props.thy ===== *)
theory CP_Server_Props
  imports CP_Daemon
begin

text \<open>
  What the handlers of \<open>CP_Server\<close> guarantee: the content of a peer list, the effect of a registration and of a
  decommissioning, and an invariant of every state that sequences of handler calls reach.
\<close>

section \<open>The fields a handler leaves alone\<close>

lemma audit_sel [simp]:
  "sv_registry (audit_as a now ty n d s) = sv_registry s" "sv_ledger (audit_as a now ty n d s) = sv_ledger s"
  "sv_peer_list_bcast (audit_as a now ty n d s) = sv_peer_list_bcast s"
  "sv_ownership_bcast (audit_as a now ty n d s) = sv_ownership_bcast s"
  by (simp_all add: audit_as_def)

lemma on_ledger_mutation_sel [simp]:
  "sv_registry (on_ledger_mutation x s) = sv_registry s" "sv_ledger (on_ledger_mutation x s) = sv_ledger s"
  by (simp_all add: on_ledger_mutation_def split: prod.split)

lemma fold_mutation_sel [simp]:
  "sv_registry (fold on_ledger_mutation ns s) = sv_registry s"
  "sv_ledger (fold on_ledger_mutation ns s) = sv_ledger s"
  by (induction ns arbitrary: s) simp_all

lemma with_ledger_sel:
  "with_ledger s (l, ns, r) = (s', r') \<Longrightarrow> sv_ledger s' = l \<and> sv_registry s' = sv_registry s \<and> r' = r"
  by (auto simp: with_ledger_def)

section \<open>Peer lists\<close>

definition visible :: "string \<Rightarrow> ownership_entry \<Rightarrow> bool" where
  "visible so e \<longleftrightarrow> \<not> (so \<noteq> [] \<and> oe_overlay_ip e = so)"

definition host_route :: "ownership_entry \<Rightarrow> string" where
  "host_route e = oe_overlay_ip e @ ''/32''"

lemma group_entry_visible:
  "group_entry so e m = (if visible so e then
     (case gm_get m (oe_owning_master e) of
        None \<Rightarrow> gm_put (oe_owning_master e) (oe_overlay_ip e, [host_route e]) m
      | Some (f, ips) \<Rightarrow> gm_put (oe_owning_master e) (f, ips @ [host_route e]) m) else m)"
  by (simp add: group_entry_def visible_def host_route_def Let_def split: option.split)

lemma group_wf: "gm_wf m \<Longrightarrow> gm_wf (fold (group_entry so) es m)"
  by (induction es arbitrary: m) (auto simp: group_entry_visible split: option.split)

lemma group_ips:
  "map_option snd (gm_get (fold (group_entry so) es m) k) =
     (let new = map host_route (filter (\<lambda>e. visible so e \<and> oe_owning_master e = k) es) in
      case gm_get m k of None \<Rightarrow> if new = [] then None else Some new | Some x \<Rightarrow> Some (snd x @ new))"
proof (induction es arbitrary: m)
  case Nil
  then show ?case by (simp add: Let_def split: option.split)
next
  case (Cons e es)
  have step: "map_option snd (gm_get (group_entry so e m) k) =
      (if visible so e \<and> oe_owning_master e = k
       then Some ((case gm_get m k of None \<Rightarrow> [] | Some x \<Rightarrow> snd x) @ [host_route e]) else map_option snd (gm_get m k))"
    by (auto simp: group_entry_visible gm_simps split: option.split)
  show ?case
    unfolding fold_Cons comp_apply Cons.IH using step
    by (cases "gm_get (group_entry so e m) k"; cases "gm_get m k") (auto simp: Let_def split: if_splits)
qed

lemma peer_of_sel [simp]: "pe_name (peer_of reg x) = fst x" "pe_allowed_ips (peer_of reg x) = snd (snd x)"
  by (cases x; simp add: peer_of_def split: option.split)+

text \<open>A peer of the list has a name and exactly the visible overlays of that owner, in the order of the snapshot.\<close>

lemma peers_iff:
  fixes reg subject snap v
  defines "so \<equiv> subject_overlay reg subject"
  shows "(\<exists>p \<in> set (pu_peers (buildPeerListUpdate reg subject snap v)). pe_name p = m \<and> pe_allowed_ips p = ips) \<longleftrightarrow>
     ips \<noteq> [] \<and> ips = map host_route (filter (\<lambda>e. visible so e \<and> oe_owning_master e = m) snap)"
proof -
  let ?g = "fold (group_entry so) snap []"
  have "(\<exists>p \<in> set (pu_peers (buildPeerListUpdate reg subject snap v)). pe_name p = m \<and> pe_allowed_ips p = ips)
      \<longleftrightarrow> (\<exists>f. (m, f, ips) \<in> set ?g)"
    by (force simp: buildPeerListUpdate_def so_def)
  also have "\<dots> \<longleftrightarrow> map_option snd (gm_get ?g m) = Some ips"
    using gm_in_set_iff [OF group_wf [OF gm_wf_Nil], of m _ so snap] by force
  also have "\<dots> \<longleftrightarrow> ips \<noteq> [] \<and> ips = map host_route (filter (\<lambda>e. visible so e \<and> oe_owning_master e = m) snap)"
    unfolding group_ips by (auto simp: Let_def)
  finally show ?thesis .
qed

lemma peers_distinct: "distinct (map pe_name (pu_peers (buildPeerListUpdate reg subject snap v)))"
proof -
  have "map pe_name (pu_peers (buildPeerListUpdate reg subject snap v))
      = map fst (fold (group_entry (subject_overlay reg subject)) snap [])"
    by (simp add: buildPeerListUpdate_def)
  then show ?thesis using group_wf [OF gm_wf_Nil] by (simp add: gm_wf_def)
qed

lemma host_route_inject: "host_route e = host_route e' \<longleftrightarrow> oe_overlay_ip e = oe_overlay_ip e'"
  by (simp add: host_route_def)

text \<open>
  C6. A peer list routes every overlay to its owner, once. Take the ledger after any calls and any registry. The
  peers sent to a node have distinct names, and an overlay's /32 is among the allowed addresses of a peer exactly
  when the ledger knows the overlay, the peer is its owner and it is not the overlay of the receiving node
  itself. Each address is listed once, so no two peers claim the same one.
\<close>

theorem peer_list_routes:
  assumes "run_ledger cs NewLedger = (l, ns)"
    and "u = buildPeerListUpdate reg subject (fst (Ledger_Snapshot l)) v"
  shows "distinct (map pe_name (pu_peers u))
    \<and> ((\<exists>p \<in> set (pu_peers u). pe_name p = m \<and> ip @ ''/32'' \<in> set (pe_allowed_ips p)) \<longleftrightarrow>
        (\<exists>e. Ledger_Lookup l ip = Some e \<and> oe_owning_master e = m)
        \<and> (CP_Registry.Registry_Lookup reg subject = None \<or> subject_overlay reg subject = [] \<or> ip \<noteq> subject_overlay reg subject))
    \<and> (\<forall>p \<in> set (pu_peers u). pe_allowed_ips p \<noteq> [] \<and> distinct (pe_allowed_ips p))"
proof -
  have ok: "ledger_ok l" by (rule ledger_reachable_ok [OF assms(1)])
  let ?so = "subject_overlay reg subject" and ?snap = "snapshotLocked l"
  have u: "u = buildPeerListUpdate reg subject ?snap v" using assms(2) by (simp add: Ledger_Snapshot_def)
  have none: "CP_Registry.Registry_Lookup reg subject = None \<Longrightarrow> ?so = []" by (simp add: subject_overlay_def)
  have routes: "(\<exists>p \<in> set (pu_peers u). pe_name p = m \<and> ip @ ''/32'' \<in> set (pe_allowed_ips p)) \<longleftrightarrow>
      (\<exists>e \<in> set ?snap. visible ?so e \<and> oe_owning_master e = m \<and> oe_overlay_ip e = ip)"
  proof -
    have "(\<exists>p \<in> set (pu_peers u). pe_name p = m \<and> ip @ ''/32'' \<in> set (pe_allowed_ips p)) \<longleftrightarrow>
        (\<exists>ips. ip @ ''/32'' \<in> set ips \<and> (\<exists>p \<in> set (pu_peers u). pe_name p = m \<and> pe_allowed_ips p = ips))"
      by blast
    also have "\<dots> \<longleftrightarrow> ip @ ''/32'' \<in> host_route ` {e \<in> set ?snap. visible ?so e \<and> oe_owning_master e = m}"
      unfolding u peers_iff by (auto simp: filter_empty_conv)
    also have "\<dots> \<longleftrightarrow> (\<exists>e \<in> set ?snap. visible ?so e \<and> oe_owning_master e = m \<and> oe_overlay_ip e = ip)"
      by (auto simp: host_route_def)
    finally show ?thesis .
  qed
  have entry: "e \<in> set ?snap \<and> oe_overlay_ip e = ip \<longleftrightarrow> Ledger_Lookup l ip = Some e" for e
    using snapshot_set [OF ok, of e] ledger_ok_entry [OF ok, of ip e] by (auto simp: Ledger_Lookup_def entry_ok_def)
  have "(\<exists>e \<in> set ?snap. visible ?so e \<and> oe_owning_master e = m \<and> oe_overlay_ip e = ip) \<longleftrightarrow>
      (\<exists>e. Ledger_Lookup l ip = Some e \<and> oe_owning_master e = m) \<and> (?so = [] \<or> ip \<noteq> ?so)"
    unfolding visible_def using entry by metis
  moreover have "pe_allowed_ips p \<noteq> [] \<and> distinct (pe_allowed_ips p)" if "p \<in> set (pu_peers u)" for p
  proof -
    have "pe_allowed_ips p \<noteq> []"
      and ips: "pe_allowed_ips p = map host_route (filter (\<lambda>e. visible ?so e \<and> oe_owning_master e = pe_name p) ?snap)"
      using peers_iff [of reg subject ?snap v "pe_name p" "pe_allowed_ips p"] that u by blast+
    moreover have "distinct (map host_route (filter P ?snap))" for P
      using snapshot_distinct [OF ok] by (auto simp: distinct_map host_route_inject inj_on_def)
    ultimately show ?thesis by metis
  qed
  ultimately show ?thesis using routes peers_distinct [of reg subject ?snap v] u none by blast
qed

theorem peer_list_routes_witness:
  "\<exists>l ns u. run_ledger [CallReassign ''10.0.0.1'' ''m1'' ''register'' 5, CallReassign ''10.0.0.7'' ''m1'' ''register'' 6]
       NewLedger = (l, ns) \<and> u = buildPeerListUpdate CP_Registry.NewRegistry ''n'' (fst (Ledger_Snapshot l)) 2
     \<and> (\<exists>p \<in> set (pu_peers u). pe_name p = ''m1'' \<and> ''10.0.0.7/32'' \<in> set (pe_allowed_ips p))"
proof -
  let ?cs = "[CallReassign ''10.0.0.1'' ''m1'' ''register'' 5, CallReassign ''10.0.0.7'' ''m1'' ''register'' 6]"
  obtain l ns where run: "run_ledger ?cs NewLedger = (l, ns)" by (rule prod.exhaust)
  have "map_option oe_owning_master (Ledger_Lookup (fst (run_ledger ?cs NewLedger)) ''10.0.0.7'') = Some ''m1''"
    by code_simp
  then have e: "\<exists>e. Ledger_Lookup l ''10.0.0.7'' = Some e \<and> oe_owning_master e = ''m1''" unfolding run by auto
  show ?thesis
    using peer_list_routes [OF run refl, of CP_Registry.NewRegistry "''n''" 2 "''m1''" "''10.0.0.7''"] e run
    by (auto simp: CP_Registry.Registry_Lookup_def CP_Registry.NewRegistry_def)
qed

section \<open>Notifications reach the open channels\<close>

text \<open>The last buffered message of every open channel is \<open>m\<close>.\<close>

definition tail_is :: "'m \<Rightarrow> 'm broadcaster \<Rightarrow> bool" where
  "tail_is m b \<longleftrightarrow> (\<forall>i c. gm_get (br_chans b) i = Some c \<and> \<not> ch_closed c \<and> ch_buf c \<noteq> [] \<longrightarrow> last (ch_buf c) = m)"

lemma offer_tail: "\<not> ch_closed (offer m c) \<Longrightarrow> last (ch_buf (offer m c)) = m"
  by (simp add: offer_def split: if_splits)

lemma tail_is_broadcast: "tail_is m (broadcast m b)"
  by (auto simp: tail_is_def get_broadcast offer_tail)

lemma tail_is_subscribe: "tail_is m b \<Longrightarrow> tail_is m (fst (subscribe b))"
  by (auto simp: tail_is_def subscribe_def Let_def gm_simps split: if_splits)

lemma tail_is_cancel: "tail_is m b \<Longrightarrow> tail_is m (cancel i b)"
  by (auto simp: tail_is_def cancel_def gm_simps split: if_splits option.splits)

lemma tail_is_receive: "tail_is m b \<Longrightarrow> tail_is m (fst (receive i b))"
  unfolding tail_is_def receive_def
  by (cases "gm_get (br_chans b) i"; cases "ch_buf (the (gm_get (br_chans b) i))")
    (force simp: gm_simps split: if_splits)+

definition ownership_of :: "ledger \<Rightarrow> ownership_msg" where
  "ownership_of l = \<lparr>om_entries = snapshotLocked l, om_version = le_version l, om_full_snapshot = False\<rparr>"

definition peer_list_of :: "ledger \<Rightarrow> peer_list_msg" where
  "peer_list_of l = \<lparr>pm_subject_node = [], pm_snapshot = snapshotLocked l, pm_version = le_version l\<rparr>"

text \<open>The invariant of a server: its tables are sound and what is still to be delivered ends in the current state.\<close>

definition server_ok :: "server \<Rightarrow> bool" where
  "server_ok s \<longleftrightarrow> registry_ok (sv_registry s) \<and> ledger_ok (sv_ledger s) \<and> le_listener (sv_ledger s)
     \<and> tail_is (ownership_of (sv_ledger s)) (sv_ownership_bcast s)
     \<and> tail_is (peer_list_of (sv_ledger s)) (sv_peer_list_bcast s)"

named_theorems server_ok_intros \<open>operations that keep the server invariant\<close>

lemma server_ok_audit [server_ok_intros]: "server_ok s \<Longrightarrow> server_ok (audit_as a now ty n d s)"
  by (simp add: server_ok_def)

lemma server_ok_registry [server_ok_intros]:
  "server_ok s \<Longrightarrow> registry_ok r \<Longrightarrow> server_ok (s\<lparr>sv_registry := r\<rparr>)"
  by (simp add: server_ok_def)

lemma server_ok_rotation [server_ok_intros]: "server_ok s \<Longrightarrow> server_ok (s\<lparr>sv_applier := m, sv_rotation := orc\<rparr>)"
  by (simp add: server_ok_def)

text \<open>What a change of the ledger must come with.\<close>

definition notified :: "ledger \<Rightarrow> ledger \<Rightarrow> ledger_note list \<Rightarrow> bool" where
  "notified l l' ns \<longleftrightarrow> ledger_ok l' \<and> le_listener l' \<and> (if ns = [] then l' = l else last ns = Ledger_Snapshot l')"

lemma notified_refl: "ledger_ok l \<Longrightarrow> le_listener l \<Longrightarrow> notified l l []"
  by (simp add: notified_def)

lemma notified_trans: "notified l l1 n1 \<Longrightarrow> notified l1 l2 n2 \<Longrightarrow> notified l l2 (n1 @ n2)"
  by (cases "n2 = []") (auto simp: notified_def)

lemma notified_reassign:
  assumes "ledger_ok l" and "le_listener l" and "reassign l ip expected owner reason check now = (l', ns, r)"
  shows "notified l l' ns"
  using assms(3)
proof (cases rule: reassign_result)
  case failed
  then show ?thesis using assms(1,2) by (simp add: notified_refl)
next
  case stored
  then have "ledger_ok l'" "le_listener l'"
    using ledger_ok_reassign [OF assms(1,3)] assms(2) by simp_all
  then show ?thesis using stored(5) by (simp add: notified_def notify_def Ledger_Snapshot_def)
qed

lemma notified_drain:
  assumes "ledger_ok l" and "le_listener l"
    and "drain_loop clock (\<lambda>_ l. l) chooser src reason es n l t = (l', ns, t', m, err)"
  shows "notified l l' ns"
  using assms
proof (induction es arbitrary: n l t ns)
  case Nil
  then show ?case by (simp add: notified_refl)
next
  case (Cons e es)
  let ?ip = "oe_overlay_ip e"
  show ?case
  proof (cases chooser)
    case None
    then show ?thesis using Cons.prems by (auto simp: notified_refl)
  next
    case (Some ch)
    obtain o1 t1 where ch: "ch t ?ip = (o1, t1)" by (cases "ch t ?ip")
    obtain l1 n1 r1 where re: "reassign l ?ip src o1 reason True (clock ?ip) = (l1, n1, r1)" by (rule prod_cases3)
    have n1: "notified l l1 n1" by (rule notified_reassign [OF Cons.prems(1,2) re])
    show ?thesis
    proof (cases r1)
      case (Inl x)
      then have "l1 = l" "n1 = []" using reassign_err re by blast+
      with Inl Some ch re Cons show ?thesis
        by (auto simp: Let_def notified_refl split: if_splits ledger_error.splits)
    next
      case (Inr x)
      obtain n2 where "drain_loop clock (\<lambda>_ l. l) chooser src reason es (Suc n) l1 t1 = (l', n2, t', m, err)
            \<and> ns = n1 @ n2 \<or> drain_loop clock (\<lambda>_ l. l) chooser src reason es n l t1 = (l', ns, t', m, err) \<or> l' = l \<and> ns = []"
        using Inr Some ch re Cons.prems(3) by (auto simp: Let_def split: if_splits prod.splits)
      then consider "drain_loop clock (\<lambda>_ l. l) chooser src reason es (Suc n) l1 t1 = (l', n2, t', m, err)" "ns = n1 @ n2"
        | "drain_loop clock (\<lambda>_ l. l) chooser src reason es n l t1 = (l', ns, t', m, err)" | "l' = l" "ns = []" by blast
      then show ?thesis
      proof cases
        case 1
        have "ledger_ok l1" "le_listener l1" using n1 by (simp_all add: notified_def)
        then show ?thesis using Cons.IH [OF _ _ 1(1)] notified_trans [OF n1] 1(2) by simp
      next
        case 2
        then show ?thesis using Cons.IH Cons.prems(1,2) by blast
      next
        case 3
        then show ?thesis using Cons.prems(1,2) by (simp add: notified_refl)
      qed
    qed
  qed
qed

lemma fold_mutation_last:
  "ns \<noteq> [] \<Longrightarrow> \<exists>s0. fold on_ledger_mutation ns s = on_ledger_mutation (last ns) s0"
  by (induction ns rule: rev_induct) auto

lemma server_ok_ledger:
  assumes "server_ok s" and "notified (sv_ledger s) l ns" and "with_ledger s (l, ns, r) = (s', r')"
  shows "server_ok s'"
proof (cases "ns = []")
  case True
  then have "s' = s" using assms(2,3) by (auto simp: with_ledger_def notified_def)
  then show ?thesis using assms(1) by simp
next
  case False
  have s': "s' = fold on_ledger_mutation ns (s\<lparr>sv_ledger := l\<rparr>)" using assms(3) by (simp add: with_ledger_def)
  obtain s0 where s0: "s' = on_ledger_mutation (last ns) s0" using fold_mutation_last [OF False] s' by metis
  have l: "sv_ledger s' = l" "sv_registry s' = sv_registry s" by (simp_all add: s')
  have "last ns = (snapshotLocked l, le_version l)" using assms(2) False by (simp add: notified_def Ledger_Snapshot_def)
  then have "tail_is (ownership_of l) (sv_ownership_bcast s')" "tail_is (peer_list_of l) (sv_peer_list_bcast s')"
    by (simp_all add: s0 on_ledger_mutation_def ownership_of_def peer_list_of_def Ownership_Broadcast_def
        PeerList_Broadcast_def tail_is_broadcast)
  then show ?thesis using assms(1,2) l by (simp add: server_ok_def notified_def)
qed

lemma server_ok_Reassign:
  assumes "server_ok s" and "with_ledger s (Reassign (sv_ledger s) ip owner reason now) = (s', r)"
  shows "server_ok s'"
proof -
  obtain l ns q where re: "Reassign (sv_ledger s) ip owner reason now = (l, ns, q)" by (rule prod_cases3)
  then have "notified (sv_ledger s) l ns"
    using assms(1) notified_reassign by (auto simp: Reassign_def server_ok_def)
  with assms re show ?thesis using server_ok_ledger by metis
qed

section \<open>The handlers keep the invariant\<close>

lemma registry_ok_ops:
  assumes "registry_ok r"
  shows "Register r n t = (r', x) \<Longrightarrow> registry_ok r'"
    and "Registry_Heartbeat r name health key host proto t = (r', x) \<Longrightarrow> registry_ok r'"
    and "Registry_Remove r name = (r', x) \<Longrightarrow> registry_ok r'"
    and "AllowCertRollover r name cert till t = (r', x) \<Longrightarrow> registry_ok r'"
    and "ClearCertRollover r name cert = (r', x) \<Longrightarrow> registry_ok r'"
  using registry_ok_step [OF assms, of "CallRegister n t"] registry_ok_step [OF assms, of "CallRemove name"]
    registry_ok_step [OF assms, of "CallHeartbeat name health key host proto t"]
    registry_ok_step [OF assms, of "CallAllow name cert till t"] registry_ok_step [OF assms, of "CallClear name cert"]
  by simp_all

lemma server_ok_sel: "server_ok s \<Longrightarrow> registry_ok (sv_registry s)" "server_ok s \<Longrightarrow> ledger_ok (sv_ledger s)"
  "server_ok s \<Longrightarrow> le_listener (sv_ledger s)"
  by (simp_all add: server_ok_def)

text \<open>Seeding keeps the registry and every entry that the ledger has.\<close>

definition seeded :: "server \<Rightarrow> server \<Rightarrow> bool" where
  "seeded s s' \<longleftrightarrow> sv_registry s' = sv_registry s
     \<and> (\<forall>ip e. Ledger_Lookup (sv_ledger s) ip = Some e \<longrightarrow> Ledger_Lookup (sv_ledger s') ip = Some e)"

lemma seeded_refl [simp]: "seeded s s"
  by (simp add: seeded_def)

lemma seeded_trans: "seeded s s1 \<Longrightarrow> seeded s1 s2 \<Longrightarrow> seeded s s2"
  by (simp add: seeded_def)

lemma seed_node:
  assumes "server_ok s" and "seedRegisteredNodeOwnership now s node = (s', r)"
  shows "server_ok s' \<and> seeded s s'"
proof (cases "s' = s")
  case True
  then show ?thesis using assms(1) by simp
next
  case False
  then obtain owner q where none: "Ledger_Lookup (sv_ledger s) (rn_overlay_ip node) = None"
    and w: "with_ledger s (Reassign (sv_ledger s) (rn_overlay_ip node) owner ''register'' now) = (s', q)"
    using assms(2) unfolding seedRegisteredNodeOwnership_def
    by (auto split: if_splits option.splits prod.splits sum.splits)
  obtain l ns x where re: "Reassign (sv_ledger s) (rn_overlay_ip node) owner ''register'' now = (l, ns, x)" by (rule prod_cases3)
  have "sv_ledger s' = l" "sv_registry s' = sv_registry s" using with_ledger_sel [of s l ns x s' q] w re by simp_all
  moreover have "Ledger_Lookup l ip = Ledger_Lookup (sv_ledger s) ip" if "ip \<noteq> rn_overlay_ip node" for ip
    using reassign_other re that unfolding Reassign_def by blast
  ultimately have "seeded s s'" using none unfolding seeded_def by (metis option.distinct(1))
  then show ?thesis using server_ok_Reassign [OF assms(1) w] by simp
qed

lemma seed_all_ok: "server_ok s \<Longrightarrow> seed_all now s ns = (s', r) \<Longrightarrow> server_ok s' \<and> seeded s s'"
proof (induction ns arbitrary: s)
  case (Cons n ns)
  obtain s1 r1 where st: "seedRegisteredNodeOwnership now s n = (s1, r1)" by (rule prod.exhaust)
  have s1: "server_ok s1" "seeded s s1" using seed_node [OF Cons.prems(1) st] by simp_all
  show ?case
  proof (cases r1)
    case None
    then have "seed_all now s1 ns = (s', r)" using Cons.prems(2) st by simp
    from Cons.IH [OF s1(1) this] show ?thesis using seeded_trans [OF s1(2)] by simp
  next
    case (Some e)
    then show ?thesis using Cons.prems(2) st s1 by simp
  qed
qed simp

lemma seed_registration:
  "server_ok s \<Longrightarrow> seedRegistrationOwnership now s node = (s', r) \<Longrightarrow> server_ok s' \<and> seeded s s'"
  unfolding seedRegistrationOwnership_def seedExistingRegisteredNodeOwnership_def
  using seed_all_ok [of s now "Registry_List (sv_registry s)" s' r] seed_node [of s now node s' r]
  by (simp split: if_splits)

lemma reject_and_remove_ok:
  assumes "server_ok s" and "reject_and_remove now name d s = (s', x)"
  shows "server_ok s'" and "sv_ledger s' = sv_ledger s" and "sv_registry s' = fst (Registry_Remove (sv_registry s) name)"
    and "x = Rejected (RejectDetail d)"
proof -
  obtain r q where rm: "Registry_Remove (sv_registry s) name = (r, q)" by (rule prod.exhaust)
  have r: "registry_ok r" by (rule registry_ok_ops(3) [OF server_ok_sel(1) [OF assms(1)] rm])
  show "server_ok s'"
    using assms rm r by (cases q) (auto simp: reject_and_remove_def Let_def intro!: server_ok_intros)
  show "sv_ledger s' = sv_ledger s" "sv_registry s' = fst (Registry_Remove (sv_registry s) name)"
    "x = Rejected (RejectDetail d)"
    using assms(2) rm by (cases q; auto simp: reject_and_remove_def Let_def)+
qed

lemma remove_lookup:
  "CP_Registry.Registry_Lookup (fst (Registry_Remove r name)) k =
     (if k = name then None else CP_Registry.Registry_Lookup r k)"
  by (auto simp: Registry_Remove_def CP_Registry.Registry_Lookup_def gm_simps split: option.split)

text \<open>The part of a registration after the tables accepted the node.\<close>

lemma finish_registration_result:
  assumes "server_ok s" and "finish_registration obs now req s = (s', x)"
  obtains (accepted) n s1 where "CP_Registry.Registry_Lookup (sv_registry s) (rq_node_name req) = Some n"
      "x = Accepted (unix_of (rn_registered_at n))" "server_ok s1" "seeded s s1"
      "sv_registry s' = sv_registry s1" "sv_ledger s' = sv_ledger s1" "server_ok s'"
  | (rolled_back) r s1 where "x = Rejected r" "server_ok s1" "seeded s s1" "server_ok s'"
      "sv_registry s' = fst (Registry_Remove (sv_registry s1) (rq_node_name req))" "sv_ledger s' = sv_ledger s1"
  | (missing) r where "CP_Registry.Registry_Lookup (sv_registry s) (rq_node_name req) = None" "x = Rejected r" "server_ok s'"
proof (cases "CP_Registry.Registry_Lookup (sv_registry s) (rq_node_name req)")
  case None
  then show ?thesis using assms missing by (auto simp: finish_registration_def Let_def intro!: server_ok_intros)
next
  case (Some n)
  obtain s1 r1 where seed: "seedRegistrationOwnership now s n = (s1, r1)" by (rule prod.exhaust)
  have ok: "server_ok s1" "seeded s s1" using seed_registration [OF assms(1) seed] by simp_all
  show ?thesis
  proof (cases "r1 = None \<and> notifyRegistrationObserver obs n = None")
    case True
    then have "x = Accepted (unix_of (rn_registered_at n))"
      "s' = audit now ''register'' (rq_node_name req)
         (DetailRegistered (rq_roles req) (rq_overlay_ip req) (rq_region req)) s1"
      using assms(2) Some seed by (auto simp: finish_registration_def Let_def)
    then show ?thesis using accepted [OF Some _ ok] server_ok_audit [OF ok(1)] by simp
  next
    case False
    then obtain d where "reject_and_remove now (rq_node_name req) d s1 = (s', x)"
      using assms(2) Some seed by (cases r1) (auto simp: finish_registration_def Let_def)
    then show ?thesis using reject_and_remove_ok [OF ok(1)] ok rolled_back by metis
  qed
qed

lemma RegisterNode_result:
  assumes "server_ok s" and "RegisterNode obs now s req = (s', x)"
  obtains (refused) why where "x = Rejected why" "sv_registry s' = sv_registry s" "sv_ledger s' = sv_ledger s" "server_ok s'"
  | (unowned) why r where "x = Rejected why" "server_ok s'" "Register (sv_registry s) (request_node req) now = (r, Inr ())"
      "sv_registry s' = fst (Registry_Remove r (rq_node_name req))"
  | (finished) s2 where "Register (sv_registry s) (request_node req) now = (sv_registry s2, Inr ())" "server_ok s2"
      "finish_registration obs now req s2 = (s', x)"
      "RoleMaster \<in> set (rq_roles req) \<longrightarrow>
         map_option oe_owning_master (Ledger_Lookup (sv_ledger s2) (rq_overlay_ip req)) = Some (rq_node_name req)"
proof (cases "rq_node_name req = []")
  case True
  then have "x = Rejected RejectNameRequired" "s' = s" using assms(2) by (simp_all add: RegisterNode_def)
  then show ?thesis using refused assms(1) by blast
next
  case False
  let ?name = "rq_node_name req"
  obtain r q where reg: "Register (sv_registry s) (request_node req) now = (r, q)" by (rule prod.exhaust)
  have r: "registry_ok r" by (rule registry_ok_ops(1) [OF server_ok_sel(1) [OF assms(1)] reg])
  let ?s1 = "s\<lparr>sv_registry := r\<rparr>"
  have s1: "server_ok ?s1" by (rule server_ok_registry [OF assms(1) r])
  show ?thesis
  proof (cases q)
    case (Inl e)
    then have "r = sv_registry s" using reg Register_ok_iff(2) by blast
    moreover have "x = Rejected (RejectDetail (DetailRegistry e))"
      "s' = audit now ''register-rejected'' ?name (DetailRegistry e) ?s1"
      using assms(2) False reg Inl by (simp_all add: RegisterNode_def Let_def)
    ultimately show ?thesis using refused server_ok_audit [OF s1] by simp
  next
    case (Inr u)
    show ?thesis
    proof (cases "RoleMaster \<in> set (rq_roles req)")
      case True
      let ?re = "Reassign (sv_ledger s) (rq_overlay_ip req) ?name ''register'' now"
      obtain l ns v where re: "?re = (l, ns, v)" by (rule prod_cases3)
      obtain s2 where w: "with_ledger ?s1 ?re = (s2, v)" using re by (auto simp: with_ledger_def)
      have s2: "server_ok s2" "sv_ledger s2 = l" "sv_registry s2 = r"
        using server_ok_Reassign [OF s1, of "rq_overlay_ip req" ?name "''register''" now s2 v] w
          with_ledger_sel [of ?s1 l ns v s2 v] re by simp_all
      show ?thesis
      proof (cases v)
        case (Inl e)
        then have "reject_and_remove now ?name (DetailLedger e) s2 = (s', x)"
          using assms(2) False reg Inr True w by (simp add: RegisterNode_def Let_def)
        note rj = reject_and_remove_ok [OF s2(1) this]
        show ?thesis by (rule unowned [OF rj(4,1), of r]) (simp_all add: reg Inr rj(3) s2(3))
      next
        case (Inr y)
        then have "map_option oe_owning_master (Ledger_Lookup l (rq_overlay_ip req)) = Some ?name"
          using re unfolding Reassign_def Inr reassign_ok_iff by (simp add: Ledger_Lookup_def gm_simps)
        moreover have "finish_registration obs now req s2 = (s', x)"
          using assms(2) False reg \<open>q = Inr u\<close> True w Inr by (simp add: RegisterNode_def Let_def)
        ultimately show ?thesis by (intro finished [of s2]) (simp_all add: reg \<open>q = Inr u\<close> s2)
      qed
    next
      case no_master: False
      then have "finish_registration obs now req ?s1 = (s', x)"
        using assms(2) False reg Inr by (simp add: RegisterNode_def Let_def)
      then show ?thesis by (intro finished [of ?s1]) (simp_all add: s1 reg Inr no_master)
    qed
  qed
qed

lemma server_ok_RegisterNode:
  assumes "server_ok s" and "RegisterNode obs now s req = (s', x)"
  shows "server_ok s'"
  using assms
proof (cases rule: RegisterNode_result)
  case finished
  from finished(2,3) show ?thesis by (cases rule: finish_registration_result) simp_all
qed simp_all

lemma Register_lookup:
  assumes "Register r (request_node req) now = (r', Inr ())"
  shows "CP_Registry.Registry_Lookup r' k = (if k = rq_node_name req
    then Some (stored_node (CP_Registry.Registry_Lookup r k) (request_node req) now) else CP_Registry.Registry_Lookup r k)"
proof -
  obtain n where n: "checkedNode r (request_node req) now = Inr n"
    "r' = \<lparr>rg_by_name = gm_put (rn_name n) n (rg_by_name r),
           rg_by_overlay = gm_put (rn_overlay_ip n) (rn_name n) (rg_by_overlay r)\<rparr>"
    using assms unfolding Register_ok_iff by blast
  then have "n = stored_node (gm_get (rg_by_name r) (rq_node_name req)) (request_node req) now"
    unfolding checkedNode_iff by (simp add: request_node_def)
  moreover have "rn_name (request_node req) = rq_node_name req" by (simp add: request_node_def)
  ultimately show ?thesis using n(2) by (simp add: CP_Registry.Registry_Lookup_def gm_simps)
qed

section \<open>Decommissioning\<close>

lemma registered_values:
  assumes "registry_ok r"
  shows "n \<in> snd ` set (rg_by_name r) \<longleftrightarrow> CP_Registry.Registry_Lookup r (rn_name n) = Some n"
proof
  assume "n \<in> snd ` set (rg_by_name r)"
  then obtain k where "(k, n) \<in> set (rg_by_name r)" by auto
  then have "gm_get (rg_by_name r) k = Some n" using gm_in_set_iff [OF registry_ok_wf(1) [OF assms]] by blast
  with registry_ok_names [OF assms this] show "CP_Registry.Registry_Lookup r (rn_name n) = Some n"
    by (simp add: CP_Registry.Registry_Lookup_def)
next
  assume "CP_Registry.Registry_Lookup r (rn_name n) = Some n"
  then have "(rn_name n, n) \<in> set (rg_by_name r)" by (simp add: CP_Registry.Registry_Lookup_def gm_get_in_set)
  then show "n \<in> snd ` set (rg_by_name r)" by (metis image_eqI snd_conv)
qed

lemma masters_iff:
  assumes "registry_ok r"
  shows "m \<in> set (MastersInRegion r region) \<longleftrightarrow>
    (\<exists>n. CP_Registry.Registry_Lookup r m = Some n \<and> RoleMaster \<in> set (rn_roles n) \<and> (region = [] \<or> rn_region n = region))"
proof -
  have "m \<in> set (MastersInRegion r region) \<longleftrightarrow> (\<exists>n \<in> snd ` set (rg_by_name r). m = rn_name n
      \<and> RoleMaster \<in> set (rn_roles n) \<and> (region = [] \<or> rn_region n = region))"
    unfolding MastersInRegion_def by auto
  also have "\<dots> \<longleftrightarrow> (\<exists>n. CP_Registry.Registry_Lookup r (rn_name n) = Some n \<and> m = rn_name n
      \<and> RoleMaster \<in> set (rn_roles n) \<and> (region = [] \<or> rn_region n = region))"
    unfolding Bex_def registered_values [OF assms] by blast
  also have "\<dots> \<longleftrightarrow> (\<exists>n. CP_Registry.Registry_Lookup r m = Some n \<and> RoleMaster \<in> set (rn_roles n)
      \<and> (region = [] \<or> rn_region n = region))"
    using registry_ok_names [OF assms, of m] unfolding CP_Registry.Registry_Lookup_def by metis
  finally show ?thesis .
qed

definition other_master :: "registry \<Rightarrow> string \<Rightarrow> string \<Rightarrow> bool" where
  "other_master r name m \<longleftrightarrow> m \<noteq> name \<and> (\<exists>n. CP_Registry.Registry_Lookup r m = Some n \<and> RoleMaster \<in> set (rn_roles n))"

lemma successors_facts:
  assumes "registry_ok r"
  shows "m \<in> set (successors r target name) \<Longrightarrow> other_master r name m \<and> m \<noteq> []"
    and "successors r target name = [] \<longleftrightarrow> (\<nexists>m. other_master r name m)"
proof -
  have all: "m \<in> set (MastersInRegion r []) \<longleftrightarrow> (\<exists>n. CP_Registry.Registry_Lookup r m = Some n \<and> RoleMaster \<in> set (rn_roles n))"
    for m using masters_iff [OF assms, of m "[]"] by simp
  have some: "m \<in> set (MastersInRegion r g) \<Longrightarrow> m \<in> set (MastersInRegion r [])" for m g
    using masters_iff [OF assms] by blast
  have set: "set (filterOut xs name) = set xs - {name}" for xs by (auto simp: filterOut_def)
  have nil: "filterOut xs name = [] \<longleftrightarrow> set xs \<subseteq> {name}" for xs by (auto simp: filterOut_def filter_empty_conv)
  have mem: "m \<in> set (successors r target name) \<Longrightarrow> m \<in> set (MastersInRegion r []) - {name}" for m
    using some [of m "rn_region target"] set by (auto simp: successors_def Let_def split: if_splits)
  show "other_master r name m \<and> m \<noteq> []" if "m \<in> set (successors r target name)"
  proof -
    from mem [OF that] have o: "other_master r name m" using all by (simp add: other_master_def)
    then obtain n where "gm_get (rg_by_name r) m = Some n" by (auto simp: other_master_def CP_Registry.Registry_Lookup_def)
    from registry_ok_names [OF assms this] have "m \<noteq> []" by (auto simp: node_ok_def)
    with o show ?thesis by simp
  qed
  have "successors r target name = [] \<longleftrightarrow> set (MastersInRegion r []) - {name} = {}"
    using some [of _ "rn_region target"] by (auto simp: successors_def Let_def nil)
  then show "successors r target name = [] \<longleftrightarrow> (\<nexists>m. other_master r name m)"
    using all by (auto simp: other_master_def)
qed

lemma roundRobin_member: "ms \<noteq> [] \<Longrightarrow> fst (roundRobinChooser ms i ip) \<in> set ms"
  by (simp add: roundRobinChooser_def)

text \<open>Draining and removing a registered node, with a chooser of other masters or nothing to drain.\<close>

lemma drain_and_remove_result:
  assumes "server_ok s" and "drain_and_remove now s name chooser = (s', r)"
    and "CP_Registry.Registry_Lookup (sv_registry s) name = Some target"
    and "Drain (\<lambda>_. now) (\<lambda>_ l. l) (sv_ledger s) name ''decommission'' chooser 0 = (l, ns, t, n, None)"
  shows "server_ok s'" and "sv_ledger s' = l" and "r = \<lparr>dr_error = None, dr_reassigned = wrap32 (int n)\<rparr>"
    and "sv_registry s' = fst (Registry_Remove (sv_registry s) name)"
proof -
  have note_ok: "notified (sv_ledger s) l ns"
    by (rule notified_drain [OF server_ok_sel(2,3) [OF assms(1)] assms(4) [unfolded Drain_def]])
  obtain s1 where w: "with_ledger s (l, ns, ()) = (s1, ())" by (simp add: with_ledger_def)
  have s1: "server_ok s1" "sv_ledger s1 = l" "sv_registry s1 = sv_registry s"
    using server_ok_ledger [OF assms(1) note_ok w] with_ledger_sel [OF w] by simp_all
  obtain g where rm: "Registry_Remove (sv_registry s) name = (g, Inr ())"
    using assms(3) by (auto simp: Registry_Remove_def CP_Registry.Registry_Lookup_def)
  have g: "registry_ok g" by (rule registry_ok_ops(3) [OF server_ok_sel(1) [OF assms(1)] rm])
  have s': "s' = audit now ''decommission'' name (DetailReassigned n) (s1\<lparr>sv_registry := g\<rparr>)"
    "r = \<lparr>dr_error = None, dr_reassigned = wrap32 (int n)\<rparr>"
    using assms(2,4) w rm s1(3) by (simp_all add: drain_and_remove_def Let_def)
  show "server_ok s'" unfolding s' by (intro server_ok_intros s1(1) g)
  show "sv_ledger s' = l" "sv_registry s' = fst (Registry_Remove (sv_registry s) name)"
    "r = \<lparr>dr_error = None, dr_reassigned = wrap32 (int n)\<rparr>"
    using s' s1(2) rm by simp_all
qed

lemma drain_and_remove_ok:
  assumes "server_ok s" and "drain_and_remove now s name chooser = (s', r)"
  shows "server_ok s'"
proof -
  obtain l ns t n err where d: "Drain (\<lambda>_. now) (\<lambda>_ l. l) (sv_ledger s) name ''decommission'' chooser 0 = (l, ns, t, n, err)"
    by (rule prod_cases5)
  have note_ok: "notified (sv_ledger s) l ns"
    by (rule notified_drain [OF server_ok_sel(2,3) [OF assms(1)] d [unfolded Drain_def]])
  obtain s1 where w: "with_ledger s (l, ns, ()) = (s1, ())" by (simp add: with_ledger_def)
  have s1: "server_ok s1" by (rule server_ok_ledger [OF assms(1) note_ok w])
  obtain g q where rm: "Registry_Remove (sv_registry s1) name = (g, q)" by (rule prod.exhaust)
  have g: "registry_ok g" by (rule registry_ok_ops(3) [OF server_ok_sel(1) [OF s1] rm])
  show ?thesis
  proof (cases err)
    case None
    then show ?thesis
      using assms(2) d w rm server_ok_audit [OF server_ok_registry [OF s1 g]]
      by (cases q) (auto simp: drain_and_remove_def Let_def)
  next
    case (Some e)
    then show ?thesis
      using assms(2) d w server_ok_audit [OF s1] by (auto simp: drain_and_remove_def Let_def)
  qed
qed

lemma server_ok_DecommissionNode:
  assumes "server_ok s" and "DecommissionNode now s name = (s', r)"
  shows "server_ok s'"
proof -
  have "s' = s \<or> (\<exists>chooser. drain_and_remove now s name chooser = (s', r))"
    using assms(2) by (auto simp: DecommissionNode_def Let_def split: if_splits option.splits)
  then show ?thesis using drain_and_remove_ok [OF assms(1)] assms(1) by blast
qed

lemma Drain_nothing: "OwnedBy l src = [] \<Longrightarrow> Drain clock env l src reason chooser t = (l, [], t, 0, None)"
  by (simp add: Drain_def)

text \<open>A decommissioning that has somewhere to move the entries.\<close>

lemma DecommissionNode_result:
  assumes "server_ok s" and "CP_Registry.Registry_Lookup (sv_registry s) name = Some target"
    and "OwnedBy (sv_ledger s) name = [] \<or> (\<exists>m. other_master (sv_registry s) name m)"
    and "le_version (sv_ledger s) + int (length (OwnedBy (sv_ledger s) name)) \<le> max_int64"
    and "DecommissionNode now s name = (s', r)"
  shows "r = \<lparr>dr_error = None, dr_reassigned = wrap32 (int (length (OwnedBy (sv_ledger s) name)))\<rparr>"
    and "sv_registry s' = fst (Registry_Remove (sv_registry s) name)" and "ledger_ok (sv_ledger s')"
    and "case Ledger_Lookup (sv_ledger s) ip of
        None \<Rightarrow> Ledger_Lookup (sv_ledger s') ip = None
      | Some e \<Rightarrow> if oe_owning_master e = name
          then \<exists>e'. Ledger_Lookup (sv_ledger s') ip = Some e' \<and> other_master (sv_registry s) name (oe_owning_master e')
            \<and> oe_previous_owner e' = name
          else Ledger_Lookup (sv_ledger s') ip = Some e"
proof -
  let ?l = "sv_ledger s" and ?reg = "sv_registry s"
  have ok: "registry_ok ?reg" "ledger_ok ?l" using server_ok_sel [OF assms(1)] by simp_all
  have name: "name \<noteq> []"
    using registry_ok_names [OF ok(1), of name target] assms(2) by (auto simp: CP_Registry.Registry_Lookup_def node_ok_def)
  let ?P = "\<lambda>r s'. r = \<lparr>dr_error = None, dr_reassigned = wrap32 (int (length (OwnedBy ?l name)))\<rparr>
    \<and> sv_registry s' = fst (Registry_Remove ?reg name) \<and> ledger_ok (sv_ledger s')
    \<and> (case Ledger_Lookup ?l ip of
        None \<Rightarrow> Ledger_Lookup (sv_ledger s') ip = None
      | Some e \<Rightarrow> if oe_owning_master e = name
          then \<exists>e'. Ledger_Lookup (sv_ledger s') ip = Some e' \<and> other_master ?reg name (oe_owning_master e')
            \<and> oe_previous_owner e' = name
          else Ledger_Lookup (sv_ledger s') ip = Some e)"
  have "?P r s'"
  proof (cases "OwnedBy ?l name = []")
    case True
    have run: "drain_and_remove now s name None = (s', r)"
      using assms(2,5) True name by (simp add: DecommissionNode_def)
    note res = drain_and_remove_result [OF assms(1) run assms(2) Drain_nothing [OF True]]
    have "oe_owning_master e \<noteq> name" if "Ledger_Lookup ?l ip = Some e" for e
      using OwnedBy_set [OF ok(2), of e name] ledger_ok_entry [OF ok(2), of ip e] that True
      by (auto simp: Ledger_Lookup_def entry_ok_def)
    then show ?thesis using res ok(2) True by (auto split: option.split)
  next
    case False
    let ?c = "successors ?reg target name"
    have c: "?c \<noteq> []" using assms(3) False successors_facts(2) [OF ok(1)] by blast
    then have run: "drain_and_remove now s name (Some (roundRobinChooser ?c)) = (s', r)"
      using assms(2,5) False name by (simp add: DecommissionNode_def Let_def)
    have ch: "other_master ?reg name (fst (roundRobinChooser ?c i x)) \<and> fst (roundRobinChooser ?c i x) \<noteq> []" for i x
      using successors_facts(1) [OF ok(1)] roundRobin_member [OF c] by blast
    then have ch': "fst (roundRobinChooser ?c i x) \<noteq> [] \<and> fst (roundRobinChooser ?c i x) \<noteq> name" for i x
      by (simp add: other_master_def)
    obtain l ns t n err where d: "Drain (\<lambda>_. now) (\<lambda>_ l. l) ?l name ''decommission'' (Some (roundRobinChooser ?c)) 0
        = (l, ns, t, n, err)" by (rule prod_cases5)
    note mv = Drain_moves [OF ok(2) ch' assms(4) d]
    note res = drain_and_remove_result [OF assms(1) run assms(2) d [unfolded mv(1)]]
    have "case Ledger_Lookup ?l ip of
        None \<Rightarrow> Ledger_Lookup l ip = None
      | Some e \<Rightarrow> if oe_owning_master e = name
          then \<exists>e'. Ledger_Lookup l ip = Some e' \<and> other_master ?reg name (oe_owning_master e') \<and> oe_previous_owner e' = name
          else Ledger_Lookup l ip = Some e"
    proof (cases "Ledger_Lookup ?l ip")
      case None
      then show ?thesis using mv(5) [of ip] by simp
    next
      case (Some e)
      then show ?thesis using mv(5) [of ip] ch by (cases "oe_owning_master e = name") auto
    qed
    then show ?thesis unfolding res(2) using res(3,4) mv(2,3) by blast
  qed
  then show "r = \<lparr>dr_error = None, dr_reassigned = wrap32 (int (length (OwnedBy (sv_ledger s) name)))\<rparr>"
    and "sv_registry s' = fst (Registry_Remove (sv_registry s) name)" and "ledger_ok (sv_ledger s')"
    and "case Ledger_Lookup (sv_ledger s) ip of
        None \<Rightarrow> Ledger_Lookup (sv_ledger s') ip = None
      | Some e \<Rightarrow> if oe_owning_master e = name
          then \<exists>e'. Ledger_Lookup (sv_ledger s') ip = Some e' \<and> other_master (sv_registry s) name (oe_owning_master e')
            \<and> oe_previous_owner e' = name
          else Ledger_Lookup (sv_ledger s') ip = Some e" by blast+
qed

section \<open>Reachable servers\<close>

text \<open>One handler call, or one round of a streaming handler.\<close>

inductive server_step :: "server \<Rightarrow> server \<Rightarrow> bool" where
  step_register: "RegisterNode obs now s req = (s', x) \<Longrightarrow> server_step s s'"
| step_heartbeat: "heartbeat_step obs now s hb = (s', y) \<Longrightarrow> server_step s s'"
| step_decommission: "DecommissionNode now s name = (s', z) \<Longrightarrow> server_step s s'"
| step_peer_subscribe: "StreamPeerList_subscribe s subject = (s', i) \<Longrightarrow> server_step s s'"
| step_peer_round: "StreamPeerList_round s subject i = (s', u) \<Longrightarrow> server_step s s'"
| step_peer_cancel: "server_step s (StreamPeerList_cancel s i)"
| step_ownership_subscribe: "StreamOwnership_subscribe s = (s', i) \<Longrightarrow> server_step s s'"
| step_ownership_round: "StreamOwnership_round s i = (s', v) \<Longrightarrow> server_step s s'"
| step_ownership_cancel: "server_step s (StreamOwnership_cancel s i)"
| step_rotate: "RotateAWGParamsMeshWide cancelled sendable now s rq = (s', out, st) \<Longrightarrow> server_step s s'"
| step_self_register: "SelfRegister now s node = (s', sr) \<Longrightarrow> server_step s s'"
| step_cert: "StreamCertUpdate_round parse c sendOk gone now s name = (s', w) \<Longrightarrow> server_step s s'"

definition initial_server :: "int \<Rightarrow> server" where
  "initial_server capacity = NewServer CP_Registry.NewRegistry NewLedger (NewAuditLog capacity)"

definition reachable_server :: "int \<Rightarrow> server \<Rightarrow> bool" where
  "reachable_server capacity s \<longleftrightarrow> server_step\<^sup>*\<^sup>* (initial_server capacity) s"

lemma heartbeat_step_ok:
  assumes "server_ok s" and "heartbeat_step obs now s hb = (s', y)"
  shows "server_ok s'"
proof -
  obtain r q where hb: "Registry_Heartbeat (sv_registry s) (hb_node_name hb) (hb_health hb) (hb_pubkey hb)
      (hb_endpoint_host hb) (hb_protocol hb) now = (r, q)" by (rule prod.exhaust)
  have s1: "server_ok (s\<lparr>sv_registry := r\<rparr>)"
    by (rule server_ok_registry [OF assms(1) registry_ok_ops(2) [OF server_ok_sel(1) [OF assms(1)] hb]])
  have "s' = s\<lparr>sv_registry := r\<rparr> \<or> (\<exists>a ty n d. s' = audit_as a now ty n d (s\<lparr>sv_registry := r\<rparr>))
      \<or> (\<exists>node s2 e ty d. seedRegistrationOwnership now (s\<lparr>sv_registry := r\<rparr>) node = (s2, e)
          \<and> s' = audit now ty (hb_node_name hb) d s2)"
    using assms(2) hb unfolding heartbeat_step_def Let_def
    by (fastforce split: sum.splits option.splits prod.splits if_splits)
  then show ?thesis using s1 seed_registration server_ok_audit by metis
qed

lemma server_ok_peer_bcast:
  "server_ok s \<Longrightarrow> tail_is (peer_list_of (sv_ledger s)) b \<Longrightarrow> server_ok (s\<lparr>sv_peer_list_bcast := b\<rparr>)"
  by (simp add: server_ok_def)

lemma server_ok_own_bcast:
  "server_ok s \<Longrightarrow> tail_is (ownership_of (sv_ledger s)) b \<Longrightarrow> server_ok (s\<lparr>sv_ownership_bcast := b\<rparr>)"
  by (simp add: server_ok_def)

lemma server_ok_tails:
  "server_ok s \<Longrightarrow> tail_is (peer_list_of (sv_ledger s)) (sv_peer_list_bcast s)"
  "server_ok s \<Longrightarrow> tail_is (ownership_of (sv_ledger s)) (sv_ownership_bcast s)"
  by (simp_all add: server_ok_def)

lemma peer_stream_ok:
  assumes "server_ok s"
  shows "StreamPeerList_subscribe s subject = (s', i) \<Longrightarrow> server_ok s'"
    and "StreamPeerList_round s subject i = (s', u) \<Longrightarrow> server_ok s'"
    and "server_ok (StreamPeerList_cancel s i)"
proof -
  note tail = server_ok_tails(1) [OF assms]
  show "StreamPeerList_subscribe s subject = (s', i) \<Longrightarrow> server_ok s'"
    using server_ok_peer_bcast [OF assms tail_is_subscribe [OF tail]]
    by (auto simp: StreamPeerList_subscribe_def PeerList_Subscribe_def split: prod.splits)
  show "StreamPeerList_round s subject i = (s', u) \<Longrightarrow> server_ok s'"
    using server_ok_peer_bcast [OF assms tail_is_receive [OF tail, of i]] assms
    by (auto simp: StreamPeerList_round_def split: prod.splits option.splits)
  show "server_ok (StreamPeerList_cancel s i)"
    unfolding StreamPeerList_cancel_def by (rule server_ok_peer_bcast [OF assms tail_is_cancel [OF tail]])
qed

lemma ownership_stream_ok:
  assumes "server_ok s"
  shows "StreamOwnership_subscribe s = (s', i) \<Longrightarrow> server_ok s'"
    and "StreamOwnership_round s i = (s', v) \<Longrightarrow> server_ok s'"
    and "server_ok (StreamOwnership_cancel s i)"
proof -
  note tail = server_ok_tails(2) [OF assms]
  show "StreamOwnership_subscribe s = (s', i) \<Longrightarrow> server_ok s'"
    using server_ok_own_bcast [OF assms tail_is_subscribe [OF tail]]
    by (auto simp: StreamOwnership_subscribe_def Ownership_Subscribe_def split: prod.splits)
  show "StreamOwnership_round s i = (s', v) \<Longrightarrow> server_ok s'"
    using server_ok_own_bcast [OF assms tail_is_receive [OF tail, of i]] assms
    by (auto simp: StreamOwnership_round_def split: prod.splits option.splits)
  show "server_ok (StreamOwnership_cancel s i)"
    unfolding StreamOwnership_cancel_def by (rule server_ok_own_bcast [OF assms tail_is_cancel [OF tail]])
qed

lemma rotate_ok:
  assumes "server_ok s" and "RotateAWGParamsMeshWide cancelled sendable now s rq = (s', out, st)"
  shows "server_ok s'"
proof (cases rq)
  case (Inl e)
  then show ?thesis using assms by (cases e) (simp_all add: RotateAWGParamsMeshWide_def)
next
  case (Inr req)
  define targets where "targets = rotationTargetsFromRegistry (Registry_List (sv_registry s))"
  define s1 where "s1 = audit_as ''operator'' now ''rotate-start'' []
     (DetailRotateStart (rt_tier req) (rt_rotation_id req) (length (MeshInternalTargets targets))) s"
  obtain m orc exec err where ex: "Orchestrator_Execute (MemoryApplier_ApplyRotation cancelled) (sv_applier s1)
      (sv_rotation s1) \<lparr>rr_tier = rt_tier req, rr_params = rt_new_params req,
        rr_apply_at = unixMicrosOrZero (rt_apply_at_unix_micros req), rr_rotation_id = rt_rotation_id req,
        rr_reason = ''control-plane'', rr_targets = targets\<rparr> now now = (m, orc, exec, err)" by (rule prod_cases4)
  have s2: "server_ok (s1\<lparr>sv_applier := m, sv_rotation := orc\<rparr>)"
    unfolding s1_def by (intro server_ok_intros assms(1))
  have "s' = s1\<lparr>sv_applier := m, sv_rotation := orc\<rparr>
      \<or> (\<exists>d. s' = audit_as ''operator'' now ''rotate-result'' [] d (s1\<lparr>sv_applier := m, sv_rotation := orc\<rparr>))"
    using assms(2) ex unfolding RotateAWGParamsMeshWide_def Inr
    by (auto simp: Let_def targets_def [symmetric] s1_def [symmetric] split: prod.splits option.splits)
  then show ?thesis using s2 server_ok_audit by blast
qed

lemma cert_round_ok:
  assumes "server_ok s" and "StreamCertUpdate_round parse c sendOk gone now s name = (s', w)"
  shows "server_ok s'"
proof (cases "CP_Registry.Registry_Lookup (sv_registry s) name")
  case None
  then show ?thesis using assms by (simp add: StreamCertUpdate_round_def)
next
  case (Some node)
  show ?thesis
  proof (cases "\<exists>u till. NextDueUpdate parse c node now = Inr (Some u, till)")
    case False
    then show ?thesis
      using assms Some by (auto simp: StreamCertUpdate_round_def split: sum.splits option.splits)
  next
    case True
    then obtain u till where u: "NextDueUpdate parse c node now = Inr (Some u, till)" by blast
    obtain r q where al: "AllowCertRollover (sv_registry s) name (cu_cert_pem u) till now = (r, q)" by (rule prod.exhaust)
    have s1: "server_ok (s\<lparr>sv_registry := r\<rparr>)"
      by (rule server_ok_registry [OF assms(1) registry_ok_ops(4) [OF server_ok_sel(1) [OF assms(1)] al]])
    obtain r2 q2 where cl: "ClearCertRollover r name (cu_cert_pem u) = (r2, q2)" by (rule prod.exhaust)
    have r2: "registry_ok r2" using registry_ok_ops(5) [OF server_ok_sel(1) [OF s1]] cl by simp
    define a where "a = audit now ''cert-update-issued'' name
       (DetailCertIssued (cu_valid_until_unix u) (unix_of till)) (s\<lparr>sv_registry := r\<rparr>)"
    have a: "server_ok a" "sv_registry a = r" unfolding a_def using server_ok_audit [OF s1] by simp_all
    have "s' = s\<lparr>sv_registry := r\<rparr> \<or> s' = a \<or> s' = a\<lparr>sv_registry := r2\<rparr>"
      using assms(2) Some u al cl a(2)
      by (cases q) (auto simp: StreamCertUpdate_round_def cert_send_failed_def Let_def a_def [symmetric] split: if_splits)
    then show ?thesis using s1 a(1) server_ok_registry [OF a(1) r2] by blast
  qed
qed

lemma SelfRegister_ok:
  assumes "server_ok s" and "SelfRegister now s node = (s', sr)"
  shows "server_ok s'"
proof -
  obtain r q where reg: "Register (sv_registry s) node now = (r, q)" by (rule prod.exhaust)
  let ?s1 = "s\<lparr>sv_registry := r\<rparr>"
  have s1: "server_ok ?s1"
    by (rule server_ok_registry [OF assms(1) registry_ok_ops(1) [OF server_ok_sel(1) [OF assms(1)] reg]])
  obtain s2 v where w: "with_ledger ?s1 (Reassign (sv_ledger s) (rn_overlay_ip node) (rn_name node) ''self-register'' now) = (s2, v)"
    by (rule prod.exhaust)
  then have s2: "server_ok s2" using server_ok_Reassign [OF s1] by simp
  obtain s3 e where seed: "seedExistingRegisteredNodeOwnership now s2 = (s3, e)" by (rule prod.exhaust)
  then have s3: "server_ok s3" using seed_all_ok [OF s2] by (simp add: seedExistingRegisteredNodeOwnership_def)
  have "s' = ?s1 \<or> s' = s2 \<or> s' = s3"
    using assms(2) reg w seed
    by (cases q; cases v; cases e) (auto simp: SelfRegister_def Let_def split: if_splits)
  then show ?thesis using s1 s2 s3 by blast
qed

lemma server_ok_step: "server_step s s' \<Longrightarrow> server_ok s \<Longrightarrow> server_ok s'"
proof (induction rule: server_step.induct)
  case step_register then show ?case by (blast intro: server_ok_RegisterNode)
next
  case step_heartbeat then show ?case by (blast intro: heartbeat_step_ok)
next
  case step_decommission then show ?case by (blast intro: server_ok_DecommissionNode)
next
  case step_self_register then show ?case by (blast intro: SelfRegister_ok)
next
  case step_rotate then show ?case by (blast intro: rotate_ok)
next
  case step_cert then show ?case by (blast intro: cert_round_ok)
qed (blast intro: peer_stream_ok ownership_stream_ok)+

lemma server_ok_initial: "server_ok (initial_server capacity)"
  using ledger_ok_new [of True] registry_ok_new
  by (simp add: initial_server_def NewServer_def server_ok_def tail_is_def NewPeerListBroadcaster_def
      NewOwnershipBroadcaster_def new_broadcaster_def SetListener_def)

lemma reachable_ok: "reachable_server capacity s \<Longrightarrow> server_ok s"
  unfolding reachable_server_def
  by (induction rule: rtranclp_induct) (auto intro: server_ok_initial server_ok_step)


definition sample_register :: "string \<Rightarrow> string \<Rightarrow> string list \<Rightarrow> register_request" where
  "sample_register name ip roles = \<lparr>rq_node_name = name, rq_roles = roles, rq_overlay_ip = ip, rq_region = [],
     rq_node_cert_pem = ''c'' @ name, rq_node_version = [], rq_pubkey = [], rq_endpoint_host = [], rq_protocol = []\<rparr>"

text \<open>A run: two masters register, the second one while a peer-list stream is open.\<close>

definition sample_subscribed :: server where
  "sample_subscribed = fst (StreamPeerList_subscribe
     (fst (RegisterNode None 5 (initial_server 4) (sample_register ''m1'' ''10.0.0.1'' [''master'']))) ''m1'')"

definition sample_server :: server where
  "sample_server = fst (RegisterNode None 6 sample_subscribed (sample_register ''m2'' ''10.0.0.2'' [''master'']))"

lemma sample_server_reachable: "reachable_server 4 sample_server"
proof -
  let ?a = "initial_server 4"
  let ?b = "fst (RegisterNode None 5 ?a (sample_register ''m1'' ''10.0.0.1'' [''master'']))"
  have ab: "server_step ?a ?b" by (rule step_register, rule prod.collapse [symmetric])
  have bc: "server_step ?b sample_subscribed"
    unfolding sample_subscribed_def by (rule step_peer_subscribe, rule prod.collapse [symmetric])
  have cd: "server_step sample_subscribed sample_server"
    unfolding sample_server_def by (rule step_register, rule prod.collapse [symmetric])
  have "server_step\<^sup>*\<^sup>* ?a ?b" using ab by (rule r_into_rtranclp)
  then have "server_step\<^sup>*\<^sup>* ?a sample_subscribed" using bc by (rule rtranclp.rtrancl_into_rtrancl)
  then have "server_step\<^sup>*\<^sup>* ?a sample_server" using cd by (rule rtranclp.rtrancl_into_rtrancl)
  then show ?thesis by (simp only: reachable_server_def)
qed




text \<open>
  C5. Decommissioning is exact. It succeeds exactly when the node is registered and either owns no overlay or
  another master is registered. Then the node is gone from the registry, the other nodes are as before, it
  owns nothing, each of its overlays belongs to a registered master with the node as previous owner, every
  other entry is unchanged, and the response counts the moved overlays. Otherwise registry and ledger are
  unchanged. The assumption is that the ledger's version counter does not overflow.
\<close>

theorem DecommissionNode_exact:
  assumes "reachable_server capacity s" and "DecommissionNode now s name = (s', r)"
    and "le_version (sv_ledger s) + int (length (OwnedBy (sv_ledger s) name)) \<le> max_int64"
  shows "(dr_error r = None \<longleftrightarrow> CP_Registry.Registry_Lookup (sv_registry s) name \<noteq> None
        \<and> (OwnedBy (sv_ledger s) name = [] \<or> (\<exists>m. other_master (sv_registry s) name m)))
    \<and> (if dr_error r = None then
         dr_reassigned r = wrap32 (int (length (OwnedBy (sv_ledger s) name)))
         \<and> CP_Registry.Registry_Lookup (sv_registry s') k =
             (if k = name then None else CP_Registry.Registry_Lookup (sv_registry s) k)
         \<and> (case Ledger_Lookup (sv_ledger s) ip of
              None \<Rightarrow> Ledger_Lookup (sv_ledger s') ip = None
            | Some e \<Rightarrow> if oe_owning_master e = name
                then \<exists>e'. Ledger_Lookup (sv_ledger s') ip = Some e' \<and> oe_previous_owner e' = name
                  \<and> other_master (sv_registry s) name (oe_owning_master e')
                else Ledger_Lookup (sv_ledger s') ip = Some e)
         \<and> OwnedBy (sv_ledger s') name = []
       else sv_registry s' = sv_registry s \<and> sv_ledger s' = sv_ledger s)"
proof (cases "CP_Registry.Registry_Lookup (sv_registry s) name \<noteq> None
    \<and> (OwnedBy (sv_ledger s) name = [] \<or> (\<exists>m. other_master (sv_registry s) name m))")
  case True
  then obtain target where t: "CP_Registry.Registry_Lookup (sv_registry s) name = Some target" by auto
  have ok: "server_ok s" by (rule reachable_ok [OF assms(1)])
  note res = DecommissionNode_result [OF ok t conjunct2 [OF True] assms(3,2)]
  have "OwnedBy (sv_ledger s') name = []"
  proof (rule ccontr)
    assume "OwnedBy (sv_ledger s') name \<noteq> []"
    then obtain e where e: "e \<in> set (OwnedBy (sv_ledger s') name)" by (cases "OwnedBy (sv_ledger s') name") auto
    then have "Ledger_Lookup (sv_ledger s') (oe_overlay_ip e) = Some e" "oe_owning_master e = name"
      using OwnedBy_set [OF res(3), of e name] by simp_all
    with res(4) [of "oe_overlay_ip e"] show False
      by (auto simp: other_master_def split: option.splits if_splits)
  qed
  moreover have "case Ledger_Lookup (sv_ledger s) ip of
              None \<Rightarrow> Ledger_Lookup (sv_ledger s') ip = None
            | Some e \<Rightarrow> if oe_owning_master e = name
                then \<exists>e'. Ledger_Lookup (sv_ledger s') ip = Some e' \<and> oe_previous_owner e' = name
                  \<and> other_master (sv_registry s) name (oe_owning_master e')
                else Ledger_Lookup (sv_ledger s') ip = Some e"
    using res(4) [of ip] by (auto split: option.splits)
  ultimately show ?thesis using True res(1,2) remove_lookup by simp
next
  case False
  have ok: "registry_ok (sv_registry s)" using reachable_ok [OF assms(1)] server_ok_sel(1) by blast
  have "dr_error r \<noteq> None \<and> s' = s"
  proof (cases "CP_Registry.Registry_Lookup (sv_registry s) name")
    case None
    then show ?thesis using assms(2) by (auto simp: DecommissionNode_def refuse_def split: if_splits)
  next
    case (Some target)
    then have "OwnedBy (sv_ledger s) name \<noteq> []" "successors (sv_registry s) target name = []"
      using False successors_facts(2) [OF ok] by auto
    then show ?thesis using assms(2) Some by (auto simp: DecommissionNode_def refuse_def Let_def split: if_splits)
  qed
  then show ?thesis using False by auto
qed

theorem DecommissionNode_exact_witness:
  "\<exists>s' r. DecommissionNode 9 sample_server ''m1'' = (s', r) \<and> dr_error r = None \<and> OwnedBy (sv_ledger s') ''m1'' = []
     \<and> (\<exists>e. Ledger_Lookup (sv_ledger s') ''10.0.0.1'' = Some e \<and> oe_previous_owner e = ''m1'')"
proof -
  obtain s' r where run: "DecommissionNode 9 sample_server ''m1'' = (s', r)" by (rule prod.exhaust)
  have v: "le_version (sv_ledger sample_server) = 2 \<and> length (OwnedBy (sv_ledger sample_server) ''m1'') = 1
      \<and> map_option oe_owning_master (Ledger_Lookup (sv_ledger sample_server) ''10.0.0.1'') = Some ''m1''" by code_simp
  have "dr_error (snd (DecommissionNode 9 sample_server ''m1'')) = None" by code_simp
  then have r: "dr_error r = None" unfolding run by simp
  have room: "le_version (sv_ledger sample_server) + int (length (OwnedBy (sv_ledger sample_server) ''m1'')) \<le> max_int64"
    using v by (simp add: max_int64_def)
  obtain e where "Ledger_Lookup (sv_ledger sample_server) ''10.0.0.1'' = Some e" "oe_owning_master e = ''m1''" using v by auto
  then show ?thesis
    using DecommissionNode_exact [OF sample_server_reachable run room, of "[]" "''10.0.0.1''"] r run by auto
qed

end
