(* ===== verification/Go_Rand.thy ===== *)
theory Go_Rand
  imports Go_Strconv
begin

text \<open>
  Go's random sources and the word splitting of \<open>strings.Fields\<close>. The numbers that \<open>math/rand/v2\<close> and
  \<open>crypto/rand\<close> will produce are part of the state: an infinite sequence of draws, of which every call consumes
  some. A statement for all states therefore covers every run of the generators. A computation either returns
  a value or an error, and leaves the rest of the draws.
\<close>

section \<open>Random computations\<close>

record rand_source =
  rs_draws :: "nat \<Rightarrow> nat"
  rs_crypto_error :: "string option"

type_synonym ('e, 'a) random = "rand_source \<Rightarrow> ('e + 'a) \<times> rand_source"

definition rnd_lift :: "'e + 'a \<Rightarrow> ('e, 'a) random" where
  "rnd_lift r g = (r, g)"

definition rnd_bind :: "('e, 'a) random \<Rightarrow> ('a \<Rightarrow> ('e, 'b) random) \<Rightarrow> ('e, 'b) random" where
  "rnd_bind m f g = (case m g of (Inl e, g') \<Rightarrow> (Inl e, g') | (Inr x, g') \<Rightarrow> f x g')"

abbreviation rnd_return :: "'a \<Rightarrow> ('e, 'a) random" where
  "rnd_return x \<equiv> rnd_lift (Inr x)"

abbreviation rnd_fail :: "'e \<Rightarrow> ('e, 'a) random" where
  "rnd_fail e \<equiv> rnd_lift (Inl e)"

named_theorems rnd_simps \<open>results of random computations\<close>

lemma rnd_lift_iff [rnd_simps]: "rnd_lift r g = (q, g') \<longleftrightarrow> q = r \<and> g' = g"
  by (auto simp: rnd_lift_def)

lemma rnd_bind_Inr_iff [rnd_simps]:
  "rnd_bind m f g = (Inr y, g') \<longleftrightarrow> (\<exists>x h. m g = (Inr x, h) \<and> f x h = (Inr y, g'))"
  by (auto simp: rnd_bind_def split: prod.splits sum.splits)

lemma rnd_bind_Inl_iff [rnd_simps]:
  "rnd_bind m f g = (Inl e, g') \<longleftrightarrow> m g = (Inl e, g') \<or> (\<exists>x h. m g = (Inr x, h) \<and> f x h = (Inl e, g'))"
  by (auto simp: rnd_bind_def split: prod.splits sum.splits)

lemma rnd_bind_cong [fundef_cong]:
  "m = m' \<Longrightarrow> (\<And>x g h. m' g = (Inr x, h) \<Longrightarrow> f x h = f' x h) \<Longrightarrow> g = g' \<Longrightarrow> rnd_bind m f g = rnd_bind m' f' g'"
  by (auto simp: rnd_bind_def split: prod.split sum.split)

text \<open>The next draw, and \<open>rand.IntN(n)\<close>, which panics unless \<open>n\<close> is positive.\<close>

definition draw :: "rand_source \<Rightarrow> nat \<times> rand_source" where
  "draw g = (rs_draws g 0, g\<lparr>rs_draws := \<lambda>i. rs_draws g (Suc i)\<rparr>)"

definition rand_IntN :: "'e \<Rightarrow> int \<Rightarrow> ('e, int) random" where
  "rand_IntN panic n g =
     (if n \<le> 0 then (Inl panic, g) else case draw g of (d, g') \<Rightarrow> (Inr (int (d mod nat n)), g'))"

lemma rand_IntN_ok [rnd_simps]:
  "rand_IntN p n g = (Inr x, g') \<longleftrightarrow> 0 < n \<and> x = int (rs_draws g 0 mod nat n) \<and> g' = snd (draw g)"
  by (auto simp: rand_IntN_def draw_def)

lemma rand_IntN_error [rnd_simps]: "rand_IntN p n g = (Inl e, g') \<longleftrightarrow> n \<le> 0 \<and> e = p \<and> g' = g"
  by (auto simp: rand_IntN_def draw_def)

lemma rand_IntN_range: "rand_IntN p n g = (Inr x, g') \<Longrightarrow> 0 \<le> x \<and> x < n"
  by (auto simp: rnd_simps zless_nat_eq_int_zless [symmetric])

lemma draw_crypto [simp]: "rs_crypto_error (snd (draw g)) = rs_crypto_error g"
  by (simp add: draw_def)

text \<open>\<open>n\<close> values below a positive bound.\<close>

fun rand_many :: "nat \<Rightarrow> nat \<Rightarrow> rand_source \<Rightarrow> nat list \<times> rand_source" where
  "rand_many bound 0 g = ([], g)"
| "rand_many bound (Suc n) g =
     (case draw g of (d, g1) \<Rightarrow> (case rand_many bound n g1 of (ds, g2) \<Rightarrow> (d mod bound # ds, g2)))"

lemma rand_many_facts:
  "rand_many bound n g = (ds, g') \<Longrightarrow> length ds = n \<and> rs_crypto_error g' = rs_crypto_error g"
  by (induction n arbitrary: g ds) (auto simp: draw_def split: prod.splits)

lemma rand_many_bound: "rand_many bound n g = (ds, g') \<Longrightarrow> 0 < bound \<Longrightarrow> \<forall>d \<in> set ds. d < bound"
  by (induction n arbitrary: g ds) (auto split: prod.splits)

text \<open>\<open>rand.Shuffle\<close> on a slice: from the last index down, swap with a random index not above it.\<close>

definition swap :: "nat \<Rightarrow> nat \<Rightarrow> 'a list \<Rightarrow> 'a list" where
  "swap i j xs = xs[i := xs ! j, j := xs ! i]"

fun shuffle_from :: "nat \<Rightarrow> 'a list \<Rightarrow> rand_source \<Rightarrow> 'a list \<times> rand_source" where
  "shuffle_from 0 xs g = (xs, g)"
| "shuffle_from (Suc i) xs g = (case draw g of (d, g') \<Rightarrow> shuffle_from i (swap (Suc i) (d mod Suc (Suc i)) xs) g')"

definition rand_Shuffle :: "'a list \<Rightarrow> rand_source \<Rightarrow> 'a list \<times> rand_source" where
  "rand_Shuffle xs g = shuffle_from (length xs - 1) xs g"

lemma swap_mset: "i < length xs \<Longrightarrow> j < length xs \<Longrightarrow> mset (swap i j xs) = mset xs"
  by (simp add: swap_def mset_swap)

lemma length_swap [simp]: "length (swap i j xs) = length xs"
  by (simp add: swap_def)

lemma shuffle_from_mset: "i < length xs \<Longrightarrow> shuffle_from i xs g = (ys, g') \<Longrightarrow> mset ys = mset xs"
proof (induction i arbitrary: xs g)
  case (Suc i)
  let ?j = "rs_draws g 0 mod Suc (Suc i)"
  have j: "?j < length xs"
    using Suc.prems(1) by (intro less_le_trans [OF mod_less_divisor]) simp_all
  then have "mset ys = mset (swap (Suc i) ?j xs)"
    using Suc.prems by (intro Suc.IH [of _ "snd (draw g)"]) (simp_all add: draw_def)
  then show ?case using swap_mset [OF Suc.prems(1) j] by simp
qed simp

lemma rand_Shuffle_mset: "rand_Shuffle xs g = (ys, g') \<Longrightarrow> mset ys = mset xs"
  using shuffle_from_mset [of "length xs - 1" xs g ys g'] by (cases xs) (auto simp: rand_Shuffle_def)

section \<open>Fields\<close>

text \<open>The rest of a string after a white space character at its front.\<close>

definition skip_space :: "string \<Rightarrow> string option" where
  "skip_space s = map_option (\<lambda>t. drop (length t) s) (find (\<lambda>t. t \<noteq> [] \<and> prefix t s) go_spaces)"

lemma skip_space_shorter: "skip_space s = Some r \<Longrightarrow> length r < length s"
  by (auto simp: skip_space_def find_Some_iff prefix_def)

text \<open>An equation that decides ASCII characters without searching the table.\<close>

lemma skip_space_code [code]:
  "skip_space s =
     (case s of
        [] \<Rightarrow> None
      | c # cs \<Rightarrow>
          if c = CHR 0x20 then Some cs
          else if CHR 0x21 \<le> c \<and> c < CHR 0x80 then None
          else map_option (\<lambda>t. drop (length t) s) (find (\<lambda>t. t \<noteq> [] \<and> prefix t s) go_spaces))"
proof (cases s)
  case (Cons c cs)
  let ?P = "\<lambda>t. t \<noteq> [] \<and> prefix t s"
  have heads: "list_all (\<lambda>t. (hd t = CHR 0x20 \<longrightarrow> t = [CHR 0x20]) \<and> \<not> (CHR 0x21 \<le> hd t \<and> hd t < CHR 0x80)) go_spaces"
    "[CHR 0x20] \<in> set go_spaces" by code_simp+
  have hd: "hd t = c" if "?P t" for t using that Cons by (cases t) auto
  show ?thesis
  proof (cases "find ?P go_spaces")
    case None
    then have "c \<noteq> CHR 0x20" using heads(2) Cons by (auto simp: find_None_iff)
    then show ?thesis using None Cons by (simp add: skip_space_def)
  next
    case (Some t)
    then obtain i where i: "i < length go_spaces" "?P (go_spaces ! i)" "t = go_spaces ! i" unfolding find_Some_iff by blast
    have t: "t \<in> set go_spaces" unfolding i(3) by (rule nth_mem [OF i(1)])
    have "?P t" unfolding i(3) by (rule i(2))
    from bspec [OF heads(1) [unfolded list_all_iff] t] have "c = CHR 0x20 \<longrightarrow> t = [CHR 0x20]"
      "\<not> (CHR 0x21 \<le> c \<and> c < CHR 0x80)"
      unfolding hd [OF \<open>?P t\<close>] by simp_all
    then show ?thesis using Some Cons by (auto simp: skip_space_def)
  qed
qed (auto simp: skip_space_def find_None_iff)

function fields_from :: "string \<Rightarrow> string \<Rightarrow> string list" where
  "fields_from cur s =
     (case skip_space s of
        Some r \<Rightarrow> (if cur = [] then fields_from [] r else cur # fields_from [] r)
      | None \<Rightarrow> (case s of [] \<Rightarrow> (if cur = [] then [] else [cur]) | c # cs \<Rightarrow> fields_from (cur @ [c]) cs))"
  by pat_completeness auto
termination
  by (relation "measure (\<lambda>(cur, s). length s)") (auto dest: skip_space_shorter)

declare fields_from.simps [simp del]
declare fields_from.simps [code]

definition fields :: "string \<Rightarrow> string list" where
  "fields s = fields_from [] s"

end
