(* ===== verification/Awg_ISpec.thy ===== *)
theory Awg_ISpec
  imports Go_Rand
begin

text \<open>
  \<open>pkg/awggen/ispec.go\<close> and \<open>families.go\<close>: the template language for the decoy packets. A template is
  tokenised, parsed into operations and executed to bytes; a named protocol template expands to a template of
  a table, up to a depth of eight. Memory is unbounded in the model, and the descriptions of the families are left
  out.
\<close>

section \<open>Operations and errors\<close>

definition maxTemplateExpansionDepth :: nat where "maxTemplateExpansionDepth = 8"

datatype ispec_op =
    OpLiteral string
  | OpBinary bytes
  | OpRandom int
  | OpCRandom int
  | OpDigits int int
  | OpType string

datatype ispec_error =
    UnterminatedTag nat
  | BadRawChar char nat
  | EmptyTag
  | UnsupportedTag string
  | TagArguments string
  | BadHex string
  | LengthNotInteger string
  | LengthNegative string
  | DigitsOrder
  | UnknownTemplate string
  | RecursiveTemplate string
  | DepthExceeded
  | InvalidTemplate string ispec_error
  | CryptoFailed string
  | ISpecPanic
  | FamilyRequired
  | InvalidFamily nat ispec_error

definition protocolTemplateExpansions :: "(string, string) gomap" where
  "protocolTemplateExpansions =
     [(''TLS_CLIENT_HELLO'', ''<b 160301> <r 2> <b 0100> <r 4> <b 0303> <rc 32>''),
      (''TLS_SERVER_HELLO'', ''<b 160303> <r 2> <b 0200> <r 4> <b 0303> <rc 32>''),
      (''TLS_EXTENSIONS'', ''<b 000a0006001700180019> <b 000d000400020403> <b 002b0003020304>''),
      (''TLS_SERVER_EXTENSIONS'', ''<b 002b00020304> <b 00330002001d>''),
      (''QUIC_INITIAL'', ''<b c30000000108> <rc 8> <b 00> <r 20>''),
      (''QUIC_TRANSPORT_PARAMS'', ''<b 00390020> <rc 32>''),
      (''DNS_QUERY'', ''<rc 2> <b 01000001000000000000>''),
      (''DNS_RESPONSE'', ''<rc 2> <b 81800001000100000000>''),
      (''HTTP_GET'', ''<b 474554202f20485454502f312e31> <b 0d0a>''),
      (''DTLS_CLIENT_HELLO'', ''<b 16fefd> <r 2> <b 0100> <r 4> <b fefd> <rc 32>''),
      (''DTLS_EXTENSIONS'', ''<b 000f000101> <b 000a00080006001700180019>''),
      (''STUN_BINDING'', ''<b 00010000> <b 2112a442> <rc 12>''),
      (''NTP_QUERY'', ''<b 1b00000000000000000000000000000000000000000000000000000000000000>'')]"

section \<open>Tokens\<close>

text \<open>\<open>unicode.IsSpace\<close> of a single byte taken as a rune.\<close>

definition space_byte :: "char \<Rightarrow> bool" where
  "space_byte c \<longleftrightarrow> c \<in> {CHR 0x09, CHR 0x0A, CHR 0x0B, CHR 0x0C, CHR 0x0D, CHR 0x20, CHR 0x85, CHR 0xA0}"

definition tag_char :: "char \<Rightarrow> bool" where
  "tag_char c \<longleftrightarrow> c = CHR ''<'' \<or> c = CHR ''>''"

lemma cut_shorter: "cut c s = Some (a, b) \<Longrightarrow> length b < length s"
  using length_dropWhile_le [of "\<lambda>x. x \<noteq> c" s] by (cases s) (auto simp: cut_def split: if_splits)

lemma dropWhile_shorter: "s \<noteq> [] \<Longrightarrow> P (hd s) \<Longrightarrow> length (dropWhile P s) < length s"
  by (cases s) (auto simp: le_imp_less_Suc length_dropWhile_le)

text \<open>The loop of \<open>tokenizeISpec\<close>, on the rest of the template with the position it starts at.\<close>

function tokenize_from :: "nat \<Rightarrow> string \<Rightarrow> ispec_error + string list" where
  "tokenize_from pos s0 =
     (let s = dropWhile space_byte s0; cursor = pos + (length s0 - length s) in
      if s = [] then Inr []
      else if hd s = CHR ''<'' then
        (case cut CHR ''>'' s of
           None \<Rightarrow> Inl (UnterminatedTag cursor)
         | Some (tag, rest) \<Rightarrow>
             rbind (tokenize_from (cursor + length tag + 1) rest) (\<lambda>ts. Inr ((tag @ [CHR ''>'']) # ts)))
      else
        (let raw = takeWhile (\<lambda>c. \<not> space_byte c) s; rest = dropWhile (\<lambda>c. \<not> space_byte c) s in
         case find tag_char raw of
           Some c \<Rightarrow> Inl (BadRawChar c (cursor + length (takeWhile (\<lambda>c. \<not> tag_char c) raw)))
         | None \<Rightarrow> rbind (tokenize_from (cursor + length raw) rest) (\<lambda>ts. Inr (raw # ts))))"
  by pat_completeness auto
termination
proof (relation "measure (\<lambda>(pos, s). length s)", goal_cases)
  case (2 pos s0 s cursor x tag rest)
  then show ?case using length_dropWhile_le [of space_byte s0] cut_shorter [of _ s tag rest] by fastforce
next
  case (3 pos s0 s cursor raw rest)
  have "s \<noteq> []" "\<not> space_byte (hd s)" using 3 hd_dropWhile [of space_byte s0] by auto
  then have "length rest < length s" using 3 dropWhile_shorter [of s "\<lambda>c. \<not> space_byte c"] by auto
  then show ?case using 3 length_dropWhile_le [of space_byte s0] by auto
qed simp

declare tokenize_from.simps [simp del]
declare tokenize_from.simps [code]

definition tokenizeISpec :: "string \<Rightarrow> ispec_error + string list" where
  "tokenizeISpec spec = tokenize_from 0 spec"

section \<open>Parsing\<close>

definition parseISpecLength :: "string \<Rightarrow> string \<Rightarrow> ispec_error + int" where
  "parseISpecLength value fieldName =
     (case atoi value of
        None \<Rightarrow> Inl (LengthNotInteger fieldName)
      | Some parsed \<Rightarrow> if parsed < 0 then Inl (LengthNegative fieldName) else Inr parsed)"

definition parseBinaryTag :: "string list \<Rightarrow> ispec_error + ispec_op" where
  "parseBinaryTag parts =
     (if length parts \<noteq> 2 then Inl (TagArguments ''b'')
      else case hex_decode (parts ! 1) of
        None \<Rightarrow> Inl (BadHex (parts ! 1))
      | Some binary \<Rightarrow> Inr (OpBinary binary))"

definition parseRandomTag :: "string list \<Rightarrow> (int \<Rightarrow> ispec_op) \<Rightarrow> ispec_error + ispec_op" where
  "parseRandomTag parts kind =
     (if length parts \<noteq> 2 then Inl (TagArguments (parts ! 0))
      else rbind (parseISpecLength (parts ! 1) ''length'') (\<lambda>n. Inr (kind n)))"

definition parseRandomDigitsTag :: "string list \<Rightarrow> ispec_error + ispec_op" where
  "parseRandomDigitsTag parts =
     (if length parts \<noteq> 3 then Inl (TagArguments ''rd'')
      else rbind (parseISpecLength (parts ! 1) ''min length'') (\<lambda>minLength.
           rbind (parseISpecLength (parts ! 2) ''max length'') (\<lambda>maxLength.
           if maxLength < minLength then Inl DigitsOrder else Inr (OpDigits minLength maxLength))))"

definition parseTemplateTag :: "string list \<Rightarrow> ispec_error + ispec_op" where
  "parseTemplateTag parts =
     (if length parts \<noteq> 2 then Inl (TagArguments ''t'')
      else let templateType = to_upper (parts ! 1) in
        case gm_get protocolTemplateExpansions templateType of
          None \<Rightarrow> Inl (UnknownTemplate templateType)
        | Some _ \<Rightarrow> Inr (OpType templateType))"

definition parseISpecTag :: "string \<Rightarrow> ispec_error + ispec_op" where
  "parseISpecTag token =
     (let parts = fields (trim_space (butlast (tl token))) in
      if parts = [] then Inl EmptyTag
      else if parts ! 0 = ''b'' then parseBinaryTag parts
      else if parts ! 0 = ''r'' then parseRandomTag parts OpRandom
      else if parts ! 0 = ''rc'' then parseRandomTag parts OpCRandom
      else if parts ! 0 = ''rd'' then parseRandomDigitsTag parts
      else if parts ! 0 = ''t'' then parseTemplateTag parts
      else Inl (UnsupportedTag (parts ! 0)))"

definition parseISpecToken :: "string \<Rightarrow> ispec_error + ispec_op" where
  "parseISpecToken token =
     (if prefix ''<'' token \<and> suffix ''>'' token then parseISpecTag token else Inr (OpLiteral token))"

fun parse_tokens :: "string list \<Rightarrow> ispec_error + ispec_op list" where
  "parse_tokens [] = Inr []"
| "parse_tokens (token # tokens) =
     rbind (parseISpecToken token) (\<lambda>op. rbind (parse_tokens tokens) (\<lambda>ops. Inr (op # ops)))"

definition parseISpecOperations :: "string \<Rightarrow> ispec_error + ispec_op list" where
  "parseISpecOperations spec = rbind (tokenizeISpec spec) parse_tokens"

section \<open>Validation\<close>

text \<open>A loop that stops at the first error.\<close>

fun check_all :: "('a \<Rightarrow> 'e + unit) \<Rightarrow> 'a list \<Rightarrow> 'e + unit" where
  "check_all f [] = Inr ()"
| "check_all f (x # xs) = rbind (f x) (\<lambda>_. check_all f xs)"

lemma check_all_cong [fundef_cong]:
  "xs = ys \<Longrightarrow> (\<And>x. x \<in> set ys \<Longrightarrow> f x = g x) \<Longrightarrow> check_all f xs = check_all g ys"
  by (induction ys arbitrary: xs) auto

lemma check_all_iff: "check_all f xs = Inr u \<longleftrightarrow> (\<forall>x \<in> set xs. f x = Inr ())"
  by (induction xs) (auto simp: rbind_Inr_iff)

text \<open>\<open>validateISpecRecursive\<close>; the stack of template names is a list.\<close>

function validateISpecRecursive :: "nat \<Rightarrow> string list \<Rightarrow> string \<Rightarrow> ispec_error + unit" where
  "validateISpecRecursive depth stack spec =
     (if depth > maxTemplateExpansionDepth then Inl DepthExceeded
      else rbind (parseISpecOperations spec) (\<lambda>ops. check_all (\<lambda>op.
        case op of
          OpType t \<Rightarrow>
            if t \<in> set stack then Inl (RecursiveTemplate t)
            else (case gm_get protocolTemplateExpansions t of
                    None \<Rightarrow> Inl (UnknownTemplate t)
                  | Some template \<Rightarrow> validateISpecRecursive (Suc depth) (t # stack) template)
        | _ \<Rightarrow> Inr ()) ops))"
  by pat_completeness auto
termination
  by (relation "measure (\<lambda>(depth, stack, spec). Suc maxTemplateExpansionDepth - depth)") auto

declare validateISpecRecursive.simps [simp del]
declare validateISpecRecursive.simps [code]

definition ValidateISpec :: "string \<Rightarrow> ispec_error + unit" where
  "ValidateISpec spec = validateISpecRecursive 0 [] spec"

section \<open>Execution\<close>

definition randomBytes :: "int \<Rightarrow> (ispec_error, bytes) random" where
  "randomBytes len g = (case rand_many 256 (nat len) g of (ds, g') \<Rightarrow> (Inr (map char_of ds), g'))"

definition cryptoRandomBytes :: "int \<Rightarrow> (ispec_error, bytes) random" where
  "cryptoRandomBytes len g =
     (if len = 0 then (Inr [], g)
      else case rs_crypto_error g of
        Some e \<Rightarrow> (Inl (CryptoFailed e), g)
      | None \<Rightarrow> randomBytes len g)"

text \<open>\<open>randomDigitBytes\<close>: the bound for the length is computed in 64 bits.\<close>

definition randomDigitBytes :: "int \<Rightarrow> int \<Rightarrow> (ispec_error, bytes) random" where
  "randomDigitBytes minLength maxLength =
     rnd_bind (rand_IntN ISpecPanic (wrap64 (maxLength - minLength + 1))) (\<lambda>extra g.
       case rand_many 10 (nat (minLength + extra)) g of (ds, g') \<Rightarrow> (Inr (map (\<lambda>d. char_of (48 + d)) ds), g'))"

fun exec_all :: "('a \<Rightarrow> ('e, bytes) random) \<Rightarrow> 'a list \<Rightarrow> ('e, bytes) random" where
  "exec_all f [] = rnd_return []"
| "exec_all f (x # xs) = rnd_bind (f x) (\<lambda>payload. rnd_bind (exec_all f xs) (\<lambda>output. rnd_return (payload @ output)))"

lemma exec_all_cong [fundef_cong]:
  "xs = ys \<Longrightarrow> (\<And>x. x \<in> set ys \<Longrightarrow> f x = g x) \<Longrightarrow> exec_all f xs = exec_all g ys"
  by (induction ys arbitrary: xs) auto

text \<open>The operations whose execution does not expand a template.\<close>

fun execute_plain :: "ispec_op \<Rightarrow> (ispec_error, bytes) random" where
  "execute_plain (OpLiteral l) = rnd_return l"
| "execute_plain (OpBinary b) = rnd_return b"
| "execute_plain (OpRandom n) = randomBytes n"
| "execute_plain (OpCRandom n) = cryptoRandomBytes n"
| "execute_plain (OpDigits mn mx) = randomDigitBytes mn mx"
| "execute_plain (OpType t) = rnd_fail (UnknownTemplate t)"

text \<open>
  \<open>executeISpecOperations\<close> with \<open>executeISpecOperation\<close> and \<open>expandProtocolTemplate\<close> in place, so that the test
  of the depth guards the recursion.
\<close>

function executeISpecOperations :: "nat \<Rightarrow> string list \<Rightarrow> ispec_op list \<Rightarrow> (ispec_error, bytes) random" where
  "executeISpecOperations depth stack ops =
     (if depth > maxTemplateExpansionDepth then rnd_fail DepthExceeded
      else exec_all (\<lambda>op.
        case op of
          OpType t \<Rightarrow>
            if t \<in> set stack then rnd_fail (RecursiveTemplate t)
            else (case gm_get protocolTemplateExpansions t of
                    None \<Rightarrow> rnd_fail (UnknownTemplate t)
                  | Some template \<Rightarrow>
                      (case parseISpecOperations template of
                         Inl e \<Rightarrow> rnd_fail (InvalidTemplate t e)
                       | Inr ops' \<Rightarrow> executeISpecOperations (Suc depth) (t # stack) ops'))
        | _ \<Rightarrow> execute_plain op) ops)"
  by pat_completeness auto
termination
  by (relation "measure (\<lambda>(depth, stack, ops). Suc maxTemplateExpansionDepth - depth)") auto

declare executeISpecOperations.simps [simp del]
declare executeISpecOperations.simps [code]

definition ParseISpec :: "string \<Rightarrow> (ispec_error, bytes) random" where
  "ParseISpec spec =
     (case parseISpecOperations spec of
        Inl e \<Rightarrow> rnd_fail e
      | Inr ops \<Rightarrow> executeISpecOperations 0 [] ops)"

section \<open>Families\<close>

record protocol_family =
  pf_name :: string
  pf_i1 :: string
  pf_i2 :: string
  pf_i3 :: string
  pf_i4 :: string
  pf_i5 :: string

definition protocolFamilies :: "protocol_family list" where
  "protocolFamilies =
     [\<lparr>pf_name = ''TLSClientHello'', pf_i1 = ''<b 160301> <r 2> <b 0100> <r 4> <b 0303> <rc 32>'',
       pf_i2 = ''<b 00> <r 32> <b 00>'', pf_i3 = ''<b 001e> <b 130113021303c02fc02bc030c02c009f009ecca9cca8>'',
       pf_i4 = ''<t TLS_EXTENSIONS>'', pf_i5 = ''<rd 4 8>''\<rparr>,
      \<lparr>pf_name = ''TLSServerHello'', pf_i1 = ''<b 160303> <r 2> <b 0200> <r 4> <b 0303> <rc 32>'',
       pf_i2 = ''<b 00> <r 32> <b 1301>'', pf_i3 = ''<b 00> <b 0000>'',
       pf_i4 = ''<t TLS_SERVER_EXTENSIONS>'', pf_i5 = ''<rd 3 6>''\<rparr>,
      \<lparr>pf_name = ''QUICInitial'', pf_i1 = ''<t QUIC_INITIAL>'', pf_i2 = ''<b c3> <rc 8> <b 08>'',
       pf_i3 = ''<b 00> <r 20>'', pf_i4 = ''<t QUIC_TRANSPORT_PARAMS>'', pf_i5 = ''<rd 6 10>''\<rparr>,
      \<lparr>pf_name = ''DNSQuery'', pf_i1 = ''<t DNS_QUERY>'', pf_i2 = ''<rc 2> <b 0100> <b 0001> <b 0000> <b 0000> <b 0000>'',
       pf_i3 = ''<b 076578616d706c65> <b 03636f6d00>'', pf_i4 = ''<b 0001> <b 0001>'', pf_i5 = ''<rd 4 6>''\<rparr>,
      \<lparr>pf_name = ''DNSResponse'', pf_i1 = ''<t DNS_RESPONSE>'', pf_i2 = ''<rc 2> <b 8180> <b 0001> <b 0001> <b 0000> <b 0000>'',
       pf_i3 = ''<b 076578616d706c65> <b 03636f6d00> <b 0001> <b 0001>'',
       pf_i4 = ''<b c00c> <b 0001> <b 0001> <b 0000012c> <b 0004> <r 4>'', pf_i5 = ''<rd 4 6>''\<rparr>,
      \<lparr>pf_name = ''HTTPGet'', pf_i1 = ''<t HTTP_GET>'', pf_i2 = ''<b 486f73743a206578616d706c652e636f6d>'',
       pf_i3 = ''<b 557365722d4167656e743a204d6f7a696c6c612f352e30>'',
       pf_i4 = ''<b 4163636570743a202a2f2a> <b 0d0a>'', pf_i5 = ''<b 0d0a>''\<rparr>,
      \<lparr>pf_name = ''DTLSClientHello'', pf_i1 = ''<t DTLS_CLIENT_HELLO>'',
       pf_i2 = ''<b 16fefd> <r 2> <b 0100> <r 4> <b fefd> <rc 32>'', pf_i3 = ''<b 00> <r 32> <b 00>'',
       pf_i4 = ''<t DTLS_EXTENSIONS>'', pf_i5 = ''<rd 4 8>''\<rparr>,
      \<lparr>pf_name = ''STUNBinding'', pf_i1 = ''<t STUN_BINDING>'', pf_i2 = ''<b 00010008> <b 2112a442> <rc 12>'',
       pf_i3 = ''<b 80220010> <rc 16>'', pf_i4 = ''<b 00060006> <b 757365720000>'', pf_i5 = ''<rd 5 9>''\<rparr>,
      \<lparr>pf_name = ''NTPQuery'', pf_i1 = ''<t NTP_QUERY>'', pf_i2 = ''<b 1b> <b 00000000> <b 00000000>'',
       pf_i3 = ''<b 00000000> <b 00000000>'', pf_i4 = ''<rc 8>'', pf_i5 = ''<rd 2 4>''\<rparr>]"

datatype lookup_error = NameRequired | UnknownName string

definition GetFamily :: "string \<Rightarrow> lookup_error + protocol_family" where
  "GetFamily name =
     (let normalized = trim_space name in
      if normalized = [] then Inl NameRequired
      else case find (\<lambda>f. equal_fold (pf_name f) normalized) protocolFamilies of
        Some f \<Rightarrow> Inr f
      | None \<Rightarrow> Inl (UnknownName name))"

definition ListFamilies :: "protocol_family list" where
  "ListFamilies = protocolFamilies"

definition RandomFamily :: "(ispec_error, protocol_family option) random" where
  "RandomFamily =
     (if protocolFamilies = [] then rnd_return None
      else rnd_bind (rand_IntN ISpecPanic (int (length protocolFamilies))) (\<lambda>i. rnd_return (Some (protocolFamilies ! nat i))))"

definition family_specs :: "protocol_family \<Rightarrow> string list" where
  "family_specs f = [pf_i1 f, pf_i2 f, pf_i3 f, pf_i4 f, pf_i5 f]"

fun validate_family :: "nat \<Rightarrow> string list \<Rightarrow> ispec_error + unit" where
  "validate_family index [] = Inr ()"
| "validate_family index (v # vs) =
     (if trim_space v = [] then validate_family (Suc index) vs
      else rbind (map_err (InvalidFamily (Suc index)) (ValidateISpec v)) (\<lambda>_. validate_family (Suc index) vs))"

definition GenerateISpec :: "protocol_family option \<Rightarrow> ispec_error + string list" where
  "GenerateISpec family =
     (case family of
        None \<Rightarrow> Inl FamilyRequired
      | Some f \<Rightarrow> rbind (validate_family 0 (family_specs f)) (\<lambda>_. Inr (family_specs f)))"

section \<open>The bytes a template stands for\<close>

inductive denotes :: "ispec_op list \<Rightarrow> bytes \<Rightarrow> bool" where
  denotes_Nil: "denotes [] []"
| denotes_literal: "denotes ops bs \<Longrightarrow> denotes (OpLiteral l # ops) (l @ bs)"
| denotes_binary: "denotes ops bs \<Longrightarrow> denotes (OpBinary b # ops) (b @ bs)"
| denotes_random: "denotes ops bs \<Longrightarrow> length r = nat n \<Longrightarrow> denotes (OpRandom n # ops) (r @ bs)"
| denotes_crandom: "denotes ops bs \<Longrightarrow> length r = nat n \<Longrightarrow> denotes (OpCRandom n # ops) (r @ bs)"
| denotes_digits: "denotes ops bs \<Longrightarrow> nat mn \<le> length r \<Longrightarrow> length r \<le> nat mx \<Longrightarrow> list_all is_digit r \<Longrightarrow>
    denotes (OpDigits mn mx # ops) (r @ bs)"
| denotes_type: "denotes ops bs \<Longrightarrow> gm_get protocolTemplateExpansions t = Some template \<Longrightarrow>
    parseISpecOperations template = Inr ops' \<Longrightarrow> denotes ops' r \<Longrightarrow> denotes (OpType t # ops) (r @ bs)"

inductive_cases denotes_ConsE: "denotes (op # ops) bs"
inductive_simps denotes_Nil_iff: "denotes [] bs"

lemma denotes_append_right: "denotes [op] b \<Longrightarrow> denotes ops bs \<Longrightarrow> denotes (op # ops) (b @ bs)"
  by (erule denotes_ConsE) (auto simp: denotes_Nil_iff intro: denotes.intros)

lemma exec_all_denotes:
  assumes "\<forall>op \<in> set ops. \<forall>g. rs_crypto_error g = None \<longrightarrow>
      (\<exists>b g'. f op g = (Inr b, g') \<and> rs_crypto_error g' = None \<and> denotes [op] b)"
    and "rs_crypto_error g = None"
  shows "\<exists>bs g'. exec_all f ops g = (Inr bs, g') \<and> rs_crypto_error g' = None \<and> denotes ops bs"
  using assms
proof (induction ops arbitrary: g)
  case Nil
  then show ?case by (auto simp: rnd_lift_def intro: denotes_Nil)
next
  case (Cons op ops)
  then obtain b g1 where b: "f op g = (Inr b, g1)" "rs_crypto_error g1 = None" "denotes [op] b" by (meson list.set_intros(1))
  with Cons obtain bs g2 where bs: "exec_all f ops g1 = (Inr bs, g2)" "rs_crypto_error g2 = None" "denotes ops bs"
    by (meson list.set_intros(2))
  then show ?case using b denotes_append_right by (auto simp: rnd_bind_def rnd_lift_def)
qed

text \<open>Lengths that the parser lets through, and those whose span does not overflow.\<close>

fun op_sound :: "ispec_op \<Rightarrow> bool" where
  "op_sound (OpRandom n) = (0 \<le> n)"
| "op_sound (OpCRandom n) = (0 \<le> n)"
| "op_sound (OpDigits mn mx) = (0 \<le> mn \<and> mn \<le> mx \<and> mx \<le> max_int64)"
| "op_sound _ = True"

definition span_fits :: "ispec_op \<Rightarrow> bool" where
  "span_fits op \<longleftrightarrow> op \<noteq> OpDigits 0 max_int64"

lemma atoi_le_max: "atoi s = Some n \<Longrightarrow> n \<le> max_int64"
  by (auto simp: atoi_def Let_def max_int64_def split: if_splits option.splits list.splits)

lemma parseISpecLength_range: "parseISpecLength v f = Inr n \<Longrightarrow> 0 \<le> n \<and> n \<le> max_int64"
  by (auto simp: parseISpecLength_def dest: atoi_le_max split: option.splits if_splits)

lemma parseISpecToken_sound: "parseISpecToken token = Inr op \<Longrightarrow> op_sound op"
  by (auto simp: parseISpecToken_def parseISpecTag_def parseBinaryTag_def parseRandomTag_def parseRandomDigitsTag_def
      parseTemplateTag_def Let_def rbind_Inr_iff dest: parseISpecLength_range split: if_splits option.splits)

lemma parse_tokens_sound: "parse_tokens ts = Inr ops \<Longrightarrow> \<forall>op \<in> set ops. op_sound op"
  by (induction ts arbitrary: ops) (auto simp: rbind_Inr_iff parseISpecToken_sound)

lemma parsed_sound: "parseISpecOperations spec = Inr ops \<Longrightarrow> \<forall>op \<in> set ops. op_sound op"
  by (auto simp: parseISpecOperations_def rbind_Inr_iff dest: parse_tokens_sound)

lemma randomBytes_denotes:
  "\<exists>b g'. randomBytes n g = (Inr b, g') \<and> rs_crypto_error g' = rs_crypto_error g \<and> length b = nat n"
  using rand_many_facts [of 256 "nat n" g] by (auto simp: randomBytes_def split: prod.split)

lemma digit_char_is_digit: "d < 10 \<Longrightarrow> is_digit (char_of (48 + d :: nat))"
  using digit_roundtrip [of d] by (simp add: digit_char_def)

lemma randomDigitBytes_denotes:
  assumes "0 \<le> mn" and "mn \<le> mx" and "mx \<le> max_int64" and "\<not> (mn = 0 \<and> mx = max_int64)"
  shows "\<exists>b g'. randomDigitBytes mn mx g = (Inr b, g') \<and> rs_crypto_error g' = rs_crypto_error g
    \<and> nat mn \<le> length b \<and> length b \<le> nat mx \<and> list_all is_digit b"
proof -
  have span: "wrap64 (mx - mn + 1) = mx - mn + 1"
    using assms by (intro wrap64_id) (auto simp: int64_range_def min_int64_def max_int64_def)
  let ?x = "int (rs_draws g 0 mod nat (mx - mn + 1))" and ?g1 = "snd (draw g)"
  have x: "rand_IntN ISpecPanic (mx - mn + 1) g = (Inr ?x, ?g1)" using assms(2) by (simp add: rand_IntN_ok)
  from rand_IntN_range [OF x] have r: "0 \<le> ?x" "?x \<le> mx - mn" by simp_all
  obtain ds g2 where m: "rand_many 10 (nat (mn + ?x)) ?g1 = (ds, g2)" by (rule prod.exhaust)
  have "list_all is_digit (map (\<lambda>d. char_of (48 + d :: nat)) ds)"
    using rand_many_bound [OF m] by (auto simp: list_all_iff digit_char_is_digit)
  moreover have "nat mn \<le> length ds" "length ds \<le> nat mx"
    using rand_many_facts [OF m] r assms(1) by simp_all
  ultimately show ?thesis
    using rand_many_facts [OF m] x m by (simp add: randomDigitBytes_def span rnd_bind_def)
qed

lemma execute_plain_denotes:
  assumes "op_sound op" and "span_fits op" and "\<forall>t. op \<noteq> OpType t" and "rs_crypto_error g = None"
  shows "\<exists>b g'. execute_plain op g = (Inr b, g') \<and> rs_crypto_error g' = None \<and> denotes [op] b"
proof (cases op)
  case (OpLiteral l)
  then show ?thesis using assms(4) denotes_literal [OF denotes_Nil, of l] by (auto simp: rnd_lift_def)
next
  case (OpBinary b)
  then show ?thesis using assms(4) denotes_binary [OF denotes_Nil, of b] by (auto simp: rnd_lift_def)
next
  case (OpRandom n)
  then show ?thesis
    using assms(4) randomBytes_denotes [of n g] denotes_random [OF denotes_Nil, of _ n] by fastforce
next
  case (OpCRandom n)
  then show ?thesis
    using assms(4) randomBytes_denotes [of n g] denotes_crandom [OF denotes_Nil, of _ n]
    by (fastforce simp: cryptoRandomBytes_def)
next
  case (OpDigits mn mx)
  then show ?thesis
    using assms randomDigitBytes_denotes [of mn mx g] denotes_digits [OF denotes_Nil, of mn _ mx]
    by (fastforce simp: span_fits_def)
next
  case (OpType t)
  then show ?thesis using assms(3) by simp
qed

lemma templates_span: 
  "gm_get protocolTemplateExpansions t = Some template \<Longrightarrow> parseISpecOperations template = Inr ops \<Longrightarrow>
     \<forall>op \<in> set ops. span_fits op"
proof -
  assume "gm_get protocolTemplateExpansions t = Some template" and ops: "parseISpecOperations template = Inr ops"
  then have "template \<in> set (map snd protocolTemplateExpansions)" by (force dest: gm_get_in_set)
  moreover have "list_all (\<lambda>template. case parseISpecOperations template of
      Inl _ \<Rightarrow> False | Inr ops \<Rightarrow> list_all span_fits ops) (map snd protocolTemplateExpansions)"
    by code_simp
  ultimately have "case parseISpecOperations template of Inl _ \<Rightarrow> False | Inr ops \<Rightarrow> list_all span_fits ops"
    by (simp only: list_all_iff)
  then show ?thesis using ops by (simp add: list_all_iff)
qed

lemma validated_executes:
  assumes "validateISpecRecursive depth stack spec = Inr ()" and "parseISpecOperations spec = Inr ops"
    and "\<forall>op \<in> set ops. span_fits op" and "rs_crypto_error g = None"
  shows "\<exists>bs g'. executeISpecOperations depth stack ops g = (Inr bs, g') \<and> rs_crypto_error g' = None \<and> denotes ops bs"
  using assms
proof (induction depth stack spec arbitrary: ops g rule: validateISpecRecursive.induct)
  case (1 depth stack spec)
  from "1.prems"(1,2) have depth: "\<not> depth > maxTemplateExpansionDepth"
    and checks: "\<And>t. OpType t \<in> set ops \<Longrightarrow> t \<notin> set stack \<and> (\<exists>template. gm_get protocolTemplateExpansions t = Some template
        \<and> validateISpecRecursive (Suc depth) (t # stack) template = Inr ())"
    by (auto simp: validateISpecRecursive.simps [of depth] check_all_iff split: if_splits option.splits)
  have "\<exists>b g'. (case op of
          OpType t \<Rightarrow>
            if t \<in> set stack then rnd_fail (RecursiveTemplate t)
            else (case gm_get protocolTemplateExpansions t of
                    None \<Rightarrow> rnd_fail (UnknownTemplate t)
                  | Some template \<Rightarrow>
                      (case parseISpecOperations template of
                         Inl e \<Rightarrow> rnd_fail (InvalidTemplate t e)
                       | Inr ops' \<Rightarrow> executeISpecOperations (Suc depth) (t # stack) ops'))
        | _ \<Rightarrow> execute_plain op) g = (Inr b, g') \<and> rs_crypto_error g' = None \<and> denotes [op] b"
    if op: "op \<in> set ops" and g: "rs_crypto_error g = None" for op g
  proof (cases "\<exists>t. op = OpType t")
    case False
    then have "\<exists>b g'. execute_plain op g = (Inr b, g') \<and> rs_crypto_error g' = None \<and> denotes [op] b"
      using execute_plain_denotes [of op g] parsed_sound [OF "1.prems"(2)] "1.prems"(3) op g by blast
    then show ?thesis using False by (cases op) auto
  next
    case True
    then obtain t where t: "op = OpType t" by blast
    then obtain template where tm: "t \<notin> set stack" "gm_get protocolTemplateExpansions t = Some template"
      "validateISpecRecursive (Suc depth) (t # stack) template = Inr ()" using checks op by blast
    then obtain ops' where ops': "parseISpecOperations template = Inr ops'"
      by (auto simp: validateISpecRecursive.simps [of "Suc depth"] rbind_Inr_iff split: if_splits)
    obtain b g' where b: "executeISpecOperations (Suc depth) (t # stack) ops' g = (Inr b, g')" "rs_crypto_error g' = None"
        "denotes ops' b"
      using "1.IH" [OF depth "1.prems"(2) op t tm(1,2,3) ops' templates_span [OF tm(2) ops'] g] by blast
    moreover have "denotes [op] b" using denotes_type [OF denotes_Nil tm(2) ops' b(3)] t by simp
    ultimately show ?thesis using t tm ops' by auto
  qed
  then show ?case
    unfolding executeISpecOperations.simps [of depth] if_not_P [OF depth]
    by (intro exec_all_denotes "1.prems"(4)) blast
qed

lemma executed_validated:
  assumes "executeISpecOperations depth stack ops g = (Inr bs, g')" and "parseISpecOperations spec = Inr ops"
  shows "validateISpecRecursive depth stack spec = Inr ()"
  using assms
proof (induction depth stack ops arbitrary: g g' bs spec rule: executeISpecOperations.induct)
  case (1 depth stack ops)
  have depth: "\<not> depth > maxTemplateExpansionDepth"
    using "1.prems"(1) by (auto simp: executeISpecOperations.simps [of depth] rnd_lift_def split: if_splits)
  have run: "exec_all f xs h = (Inr cs, h') \<Longrightarrow> \<forall>x \<in> set xs. \<exists>k c k'. f x k = (Inr c, k')"
    for f :: "ispec_op \<Rightarrow> (ispec_error, bytes) random" and xs h cs h'
    by (induction xs arbitrary: h cs) (auto simp: rnd_simps)
  have each: "t \<notin> set stack \<and> (\<exists>template. gm_get protocolTemplateExpansions t = Some template
      \<and> validateISpecRecursive (Suc depth) (t # stack) template = Inr ())" if t: "OpType t \<in> set ops" for t
  proof -
    from run [OF "1.prems"(1) [unfolded executeISpecOperations.simps [of depth] if_not_P [OF depth]]] t
    obtain k c k' where "(if t \<in> set stack then rnd_fail (RecursiveTemplate t)
            else (case gm_get protocolTemplateExpansions t of
                    None \<Rightarrow> rnd_fail (UnknownTemplate t)
                  | Some template \<Rightarrow>
                      (case parseISpecOperations template of
                         Inl e \<Rightarrow> rnd_fail (InvalidTemplate t e)
                       | Inr ops' \<Rightarrow> executeISpecOperations (Suc depth) (t # stack) ops'))) k = (Inr c, k')"
      by fastforce
    then obtain template ops' where "t \<notin> set stack" "gm_get protocolTemplateExpansions t = Some template"
      "parseISpecOperations template = Inr ops'" "executeISpecOperations (Suc depth) (t # stack) ops' k = (Inr c, k')"
      by (auto simp: rnd_lift_def split: if_splits option.splits sum.splits)
    moreover from this have "validateISpecRecursive (Suc depth) (t # stack) template = Inr ()"
      using "1.IH" [OF depth t refl] by blast
    ultimately show ?thesis by blast
  qed
  then show ?case
    using depth "1.prems"(2)
    by (fastforce simp: validateISpecRecursive.simps [of depth] check_all_iff split: ispec_op.split)
qed


definition sample_source :: rand_source where
  "sample_source = \<lparr>rs_draws = (\<lambda>i. 7 * i + 3), rs_crypto_error = None\<rparr>"


section \<open>The built-in families\<close>

lemma builtin_family_valid: "f \<in> set protocolFamilies \<Longrightarrow> validate_family 0 (family_specs f) = Inr ()"
proof -
  assume f: "f \<in> set protocolFamilies"
  have "list_all (\<lambda>f. validate_family 0 (family_specs f) = Inr ()) protocolFamilies" by code_simp
  with f show ?thesis by (simp only: list_all_iff)
qed

lemma GetFamily_builtin: "GetFamily name = Inr f \<Longrightarrow> f \<in> set protocolFamilies"
  by (auto simp: GetFamily_def Let_def find_Some_iff split: if_splits option.splits)

lemma GenerateISpec_builtin: "f \<in> set protocolFamilies \<Longrightarrow> GenerateISpec (Some f) = Inr (family_specs f)"
  by (simp add: GenerateISpec_def builtin_family_valid)

end
