(* ===== verification/Awg_Gen.thy ===== *)
theory Awg_Gen
  imports Awg_ISpec
begin

text \<open>
  \<open>pkg/awggen/generator.go\<close>, \<open>presets.go\<close> and \<open>mtu.go\<close>: random obfuscation parameters within the ranges of a
  preset. Go's \<open>int\<close> is 64 bits wide and its arithmetic wraps.
\<close>

section \<open>Parameters and presets\<close>

record awg_params =
  gp_jc :: int
  gp_jmin :: int
  gp_jmax :: int
  gp_s1 :: int
  gp_s2 :: int
  gp_s3 :: int
  gp_s4 :: int
  gp_h1 :: int
  gp_h2 :: int
  gp_h3 :: int
  gp_h4 :: int
  gp_i :: "string list"

record preset =
  ps_name :: string
  ps_jc :: "int \<times> int"
  ps_jmin :: "int \<times> int"
  ps_jmax_extra :: "int \<times> int"
  ps_s1 :: "int \<times> int"
  ps_s2 :: "int \<times> int"
  ps_s3 :: "int \<times> int"
  ps_s4 :: "int \<times> int"
  ps_hmin :: int
  ps_hmax :: int
  ps_ispec_enabled :: bool

definition presets :: "preset list" where
  "presets =
     [\<lparr>ps_name = ''Aggressive'', ps_jc = (4, 8), ps_jmin = (80, 130), ps_jmax_extra = (80, 200), ps_s1 = (20, 63),
       ps_s2 = (20, 63), ps_s3 = (20, 63), ps_s4 = (5, 15), ps_hmin = 150000000, ps_hmax = 2000000000,
       ps_ispec_enabled = True\<rparr>,
      \<lparr>ps_name = ''Balanced'', ps_jc = (3, 6), ps_jmin = (64, 113), ps_jmax_extra = (50, 149), ps_s1 = (15, 50),
       ps_s2 = (15, 50), ps_s3 = (15, 50), ps_s4 = (1, 10), ps_hmin = 400000000, ps_hmax = 1600000000,
       ps_ispec_enabled = True\<rparr>,
      \<lparr>ps_name = ''Minimal'', ps_jc = (1, 3), ps_jmin = (40, 80), ps_jmax_extra = (20, 80), ps_s1 = (5, 20),
       ps_s2 = (5, 20), ps_s3 = (5, 20), ps_s4 = (1, 5), ps_hmin = 800000000, ps_hmax = 1200000000,
       ps_ispec_enabled = False\<rparr>]"

definition GetPreset :: "string \<Rightarrow> lookup_error + preset" where
  "GetPreset name =
     (let normalized = trim_space name in
      if normalized = [] then Inl NameRequired
      else case find (\<lambda>p. equal_fold (ps_name p) normalized) presets of
        Some p \<Rightarrow> Inr p
      | None \<Rightarrow> Inl (UnknownName name))"

definition ListPresets :: "preset list" where
  "ListPresets = presets"

section \<open>Validation of a preset\<close>

definition maxPaddingGenerationAttempts :: nat where "maxPaddingGenerationAttempts = 4096"
definition maxS4GenerationAttempts :: nat where "maxS4GenerationAttempts = 1024"
definition headerSegmentCount :: int where "headerSegmentCount = 4"

datatype gen_error =
    PresetRequired
  | CaptureDataEmpty
  | RangeInvalid string
  | HRangeInvalid
  | HRangeTooSmall
  | EmptyRange int int
  | PaddingExhausted
  | GenISpec ispec_error
  | GenPanic

definition validateRange :: "int \<times> int \<Rightarrow> string \<Rightarrow> gen_error + unit" where
  "validateRange value fieldName = fail_if (fst value > snd value) (RangeInvalid fieldName)"

definition validatePresetRanges :: "preset \<Rightarrow> gen_error + unit" where
  "validatePresetRanges p =
     rbind (validateRange (ps_jc p) ''JcRange'') (\<lambda>_.
     rbind (validateRange (ps_jmin p) ''JminRange'') (\<lambda>_.
     rbind (validateRange (ps_jmax_extra p) ''JmaxExtraRange'') (\<lambda>_.
     rbind (validateRange (ps_s1 p) ''S1Range'') (\<lambda>_.
     rbind (validateRange (ps_s2 p) ''S2Range'') (\<lambda>_.
     rbind (validateRange (ps_s3 p) ''S3Range'') (\<lambda>_.
     rbind (validateRange (ps_s4 p) ''S4Range'') (\<lambda>_.
     rbind (fail_if (ps_hmin p > ps_hmax p) HRangeInvalid) (\<lambda>_.
     fail_if (wrap64 (ps_hmax p - ps_hmin p + 1) < headerSegmentCount) HRangeTooSmall))))))))"

section \<open>Generation\<close>

text \<open>\<open>randomIntInRange\<close> and, since \<open>int\<close> has 64 bits, \<open>randomInt64InRange\<close>.\<close>

definition randomIntInRange :: "int \<Rightarrow> int \<Rightarrow> (gen_error, int) random" where
  "randomIntInRange minimum maximum =
     (if minimum > maximum then rnd_fail (EmptyRange minimum maximum)
      else rnd_bind (rand_IntN GenPanic (wrap64 (maximum - minimum + 1))) (\<lambda>r. rnd_return (wrap64 (minimum + r))))"

definition randomInt64InRange :: "int \<Rightarrow> int \<Rightarrow> (gen_error, int) random" where
  "randomInt64InRange minimum maximum =
     (if minimum > maximum then rnd_fail (EmptyRange minimum maximum)
      else rnd_bind (rand_IntN GenPanic (wrap64 (maximum - minimum + 1))) (\<lambda>r. rnd_return (wrap64 (minimum + r))))"

fun allUnique_from :: "int list \<Rightarrow> int list \<Rightarrow> bool" where
  "allUnique_from seen [] = True"
| "allUnique_from seen (v # vs) = (if v \<in> set seen then False else allUnique_from (v # seen) vs)"

definition allUnique :: "int list \<Rightarrow> bool" where
  "allUnique values = allUnique_from [] values"

definition violatesPacketSizeRules :: "int \<Rightarrow> int \<Rightarrow> int \<Rightarrow> bool" where
  "violatesPacketSizeRules s1 s2 s3 =
     (if wrap64 (s1 + 148) = wrap64 (s2 + 92) then True
      else if wrap64 (s3 + 64) = wrap64 (s1 + 148) then True
      else wrap64 (s3 + 64) = wrap64 (s2 + 92))"

text \<open>The loops of \<open>generateUniqueS4\<close> and \<open>generatePaddingValues\<close>, with the attempts that are left.\<close>

fun unique_s4 :: "nat \<Rightarrow> int \<times> int \<Rightarrow> int \<Rightarrow> int \<Rightarrow> int \<Rightarrow> (gen_error, int option) random" where
  "unique_s4 0 rng s1 s2 s3 = rnd_return None"
| "unique_s4 (Suc attempts) rng s1 s2 s3 =
     rnd_bind (randomIntInRange (fst rng) (snd rng)) (\<lambda>s4.
     if s4 \<noteq> s1 \<and> s4 \<noteq> s2 \<and> s4 \<noteq> s3 then rnd_return (Some s4) else unique_s4 attempts rng s1 s2 s3)"

definition generateUniqueS4 :: "int \<times> int \<Rightarrow> int \<Rightarrow> int \<Rightarrow> int \<Rightarrow> (gen_error, int option) random" where
  "generateUniqueS4 s4Range s1 s2 s3 = unique_s4 maxS4GenerationAttempts s4Range s1 s2 s3"

fun padding_values :: "nat \<Rightarrow> preset \<Rightarrow> (gen_error, int \<times> int \<times> int \<times> int) random" where
  "padding_values 0 p = rnd_fail PaddingExhausted"
| "padding_values (Suc attempts) p =
     rnd_bind (randomIntInRange (fst (ps_s1 p)) (snd (ps_s1 p))) (\<lambda>s1.
     rnd_bind (randomIntInRange (fst (ps_s2 p)) (snd (ps_s2 p))) (\<lambda>s2.
     rnd_bind (randomIntInRange (fst (ps_s3 p)) (snd (ps_s3 p))) (\<lambda>s3.
     if \<not> allUnique [s1, s2, s3] \<or> violatesPacketSizeRules s1 s2 s3 then padding_values attempts p
     else rnd_bind (generateUniqueS4 (ps_s4 p) s1 s2 s3) (\<lambda>s4.
       case s4 of None \<Rightarrow> padding_values attempts p | Some v \<Rightarrow> rnd_return (s1, s2, s3, v)))))"

definition generatePaddingValues :: "preset \<Rightarrow> (gen_error, int \<times> int \<times> int \<times> int) random" where
  "generatePaddingValues p = padding_values maxPaddingGenerationAttempts p"

fun split_segments :: "nat \<Rightarrow> int \<Rightarrow> int \<Rightarrow> int \<Rightarrow> int \<Rightarrow> (int \<times> int) list" where
  "split_segments 0 index base remainder rangeStart = []"
| "split_segments (Suc n) index base remainder rangeStart =
     (let currentWidth = (if index < remainder then wrap64 (base + 1) else base);
          rangeEnd = wrap64 (rangeStart + currentWidth - 1) in
      (rangeStart, rangeEnd) # split_segments n (index + 1) base remainder (wrap64 (rangeEnd + 1)))"

definition splitHeaderRange :: "int \<Rightarrow> int \<Rightarrow> (int \<times> int) list" where
  "splitHeaderRange hMin hMax =
     (let totalWidth = wrap64 (hMax - hMin + 1) in
      split_segments (nat headerSegmentCount) 0 (go_div totalWidth headerSegmentCount)
        (go_rem totalWidth headerSegmentCount) hMin)"

fun segment_values :: "(int \<times> int) list \<Rightarrow> (gen_error, int list) random" where
  "segment_values [] = rnd_return []"
| "segment_values (s # ss) =
     rnd_bind (randomInt64InRange (fst s) (snd s)) (\<lambda>v. rnd_bind (segment_values ss) (\<lambda>vs. rnd_return (v # vs)))"

definition generateHeaderValues :: "int \<Rightarrow> int \<Rightarrow> (gen_error, int list) random" where
  "generateHeaderValues hMin hMax =
     rnd_bind (segment_values (splitHeaderRange hMin hMax)) (\<lambda>vs g. case rand_Shuffle vs g of (ws, g') \<Rightarrow> (Inr ws, g'))"

definition generateNumericParams :: "preset \<Rightarrow> (gen_error, awg_params) random" where
  "generateNumericParams p =
     rnd_bind (randomIntInRange (fst (ps_jc p)) (snd (ps_jc p))) (\<lambda>jc.
     rnd_bind (randomIntInRange (fst (ps_jmin p)) (snd (ps_jmin p))) (\<lambda>jmin.
     rnd_bind (randomIntInRange (fst (ps_jmax_extra p)) (snd (ps_jmax_extra p))) (\<lambda>jmaxExtra.
     rnd_bind (generatePaddingValues p) (\<lambda>(s1, s2, s3, s4).
     rnd_bind (generateHeaderValues (ps_hmin p) (ps_hmax p)) (\<lambda>hs.
     rnd_return \<lparr>gp_jc = jc, gp_jmin = jmin, gp_jmax = wrap64 (jmin + jmaxExtra), gp_s1 = s1, gp_s2 = s2, gp_s3 = s3,
       gp_s4 = s4, gp_h1 = hs ! 0, gp_h2 = hs ! 1, gp_h3 = hs ! 2, gp_h4 = hs ! 3, gp_i = [[], [], [], [], []]\<rparr>)))))"

definition GenerateParams :: "preset option \<Rightarrow> protocol_family option \<Rightarrow> (gen_error, awg_params) random" where
  "GenerateParams preset family =
     (case preset of
        None \<Rightarrow> rnd_fail PresetRequired
      | Some p \<Rightarrow>
          rnd_bind (rnd_lift (validatePresetRanges p)) (\<lambda>_.
          rnd_bind (generateNumericParams p) (\<lambda>params.
          if ps_ispec_enabled p \<and> family \<noteq> None then
            rnd_bind (rnd_lift (map_err GenISpec (GenerateISpec family))) (\<lambda>iSpec.
            rnd_return (params\<lparr>gp_i := iSpec\<rparr>))
          else rnd_return params)))"

definition GenerateParamsFromCapture :: "preset option \<Rightarrow> bytes \<Rightarrow> (gen_error, awg_params) random" where
  "GenerateParamsFromCapture preset captureData =
     (case preset of
        None \<Rightarrow> rnd_fail PresetRequired
      | Some p \<Rightarrow>
          if captureData = [] then rnd_fail CaptureDataEmpty
          else rnd_bind (rnd_lift (validatePresetRanges p)) (\<lambda>_.
            rnd_bind (generateNumericParams p) (\<lambda>params.
            rnd_return (params\<lparr>gp_i := [captureData, [], [], [], []]\<rparr>))))"

text \<open>\<open>ToProto\<close> narrows every number to 32 bits.\<close>

definition ToProto :: "awg_params option \<Rightarrow> awg_params" where
  "ToProto params =
     (case params of
        None \<Rightarrow> \<lparr>gp_jc = 0, gp_jmin = 0, gp_jmax = 0, gp_s1 = 0, gp_s2 = 0, gp_s3 = 0, gp_s4 = 0, gp_h1 = 0, gp_h2 = 0,
           gp_h3 = 0, gp_h4 = 0, gp_i = [[], [], [], [], []]\<rparr>
      | Some p \<Rightarrow> \<lparr>gp_jc = wrap32 (gp_jc p), gp_jmin = wrap32 (gp_jmin p), gp_jmax = wrap32 (gp_jmax p),
           gp_s1 = wrap32 (gp_s1 p), gp_s2 = wrap32 (gp_s2 p), gp_s3 = wrap32 (gp_s3 p), gp_s4 = wrap32 (gp_s4 p),
           gp_h1 = wrap32 (gp_h1 p), gp_h2 = wrap32 (gp_h2 p), gp_h3 = wrap32 (gp_h3 p), gp_h4 = wrap32 (gp_h4 p),
           gp_i = gp_i p\<rparr>)"

section \<open>MTU\<close>

datatype mtu_error = MTUParamsRequired | MTUNotPositive int | MTUOverheadNegative int | MTUPaddingNegative int int
  | MTUObfuscation int int | MTUCookie int

definition ValidateMTU :: "awg_params option \<Rightarrow> int \<Rightarrow> int \<Rightarrow> mtu_error + unit" where
  "ValidateMTU params physicalMTU awgOverhead =
     (case params of
        None \<Rightarrow> Inl MTUParamsRequired
      | Some p \<Rightarrow>
          rbind (fail_if (physicalMTU \<le> 0) (MTUNotPositive physicalMTU)) (\<lambda>_.
          rbind (fail_if (awgOverhead < 0) (MTUOverheadNegative awgOverhead)) (\<lambda>_.
          rbind (fail_if (gp_s3 p < 0 \<or> gp_s4 p < 0) (MTUPaddingNegative (gp_s3 p) (gp_s4 p))) (\<lambda>_.
          rbind (fail_if (wrap64 (gp_s3 p + gp_s4 p + awgOverhead) > physicalMTU) (MTUObfuscation (gp_s3 p) (gp_s4 p))) (\<lambda>_.
          fail_if (wrap64 (gp_s3 p + 64 + awgOverhead) > physicalMTU) (MTUCookie (gp_s3 p)))))))"

definition EffectiveMTU :: "int \<Rightarrow> int \<Rightarrow> int" where
  "EffectiveMTU physicalMTU awgOverhead = wrap64 (physicalMTU - awgOverhead)"

definition MaxS4ForMTU :: "int \<Rightarrow> int \<Rightarrow> int" where
  "MaxS4ForMTU physicalMTU awgOverhead = wrap64 (EffectiveMTU physicalMTU awgOverhead - 64)"

section \<open>Facts about the parts\<close>

text \<open>Presets whose numbers are not negative and fit 31 bits, so that no sum overflows.\<close>

definition small_range :: "int \<times> int \<Rightarrow> bool" where
  "small_range r \<longleftrightarrow> 0 \<le> fst r \<and> snd r < 2 ^ 30"

definition preset_small :: "preset \<Rightarrow> bool" where
  "preset_small p \<longleftrightarrow> list_all small_range [ps_jc p, ps_jmin p, ps_jmax_extra p, ps_s1 p, ps_s2 p, ps_s3 p, ps_s4 p]
     \<and> 0 \<le> ps_hmin p \<and> ps_hmax p < 2 ^ 31"

definition in_range :: "int \<Rightarrow> int \<times> int \<Rightarrow> bool" where
  "in_range x r \<longleftrightarrow> fst r \<le> x \<and> x \<le> snd r"

lemma wrap64_small: "- (2 ^ 62) \<le> x \<Longrightarrow> x \<le> 2 ^ 62 \<Longrightarrow> wrap64 x = x"
  by (intro wrap64_id) (simp add: int64_range_def min_int64_def max_int64_def)

lemma randomIntInRange_ok:
  assumes "0 \<le> mn" and "mx < 2 ^ 31" and "randomIntInRange mn mx g = (Inr x, g')"
  shows "mn \<le> x \<and> x \<le> mx"
proof -
  have mm: "mn \<le> mx" using assms(3) by (auto simp: randomIntInRange_def rnd_simps split: if_splits)
  then have w: "wrap64 (mx - mn + 1) = mx - mn + 1" using assms(1,2) by (intro wrap64_small) simp_all
  obtain r h where r: "rand_IntN GenPanic (mx - mn + 1) g = (Inr r, h)" "x = wrap64 (mn + r)"
    using assms(3) mm w by (auto simp: randomIntInRange_def rnd_bind_Inr_iff rnd_lift_iff)
  from rand_IntN_range [OF r(1)] have "0 \<le> r" "r \<le> mx - mn" by simp_all
  then show ?thesis using r(2) assms(1,2) by (simp add: wrap64_small)
qed

lemma randomIntInRange_total:
  assumes "0 \<le> mn" and "mx < 2 ^ 31" and "mn \<le> mx"
  shows "randomIntInRange mn mx g \<noteq> (Inl e, g')"
proof -
  have "wrap64 (mx - mn + 1) = mx - mn + 1" using assms by (intro wrap64_small) simp_all
  then show ?thesis using assms by (simp add: randomIntInRange_def rnd_simps)
qed

lemma randomInt64InRange_eq: "randomInt64InRange = randomIntInRange"
  by (simp add: fun_eq_iff randomInt64InRange_def randomIntInRange_def)

lemma allUnique_from_iff: "allUnique_from seen vs \<longleftrightarrow> distinct vs \<and> set vs \<inter> set seen = {}"
  by (induction vs arbitrary: seen) auto

lemma allUnique_iff: "allUnique vs \<longleftrightarrow> distinct vs"
  by (simp add: allUnique_def allUnique_from_iff)

lemma unique_s4_ok:
  assumes "unique_s4 n rng s1 s2 s3 g = (Inr (Some v), g')" and "small_range rng"
  shows "in_range v rng \<and> v \<notin> {s1, s2, s3}"
  using assms(1)
proof (induction n arbitrary: g)
  case (Suc n)
  then obtain x h where "randomIntInRange (fst rng) (snd rng) g = (Inr x, h)"
    "(if x \<noteq> s1 \<and> x \<noteq> s2 \<and> x \<noteq> s3 then rnd_return (Some x) else unique_s4 n rng s1 s2 s3) h = (Inr (Some v), g')"
    by (auto simp: rnd_bind_Inr_iff)
  then show ?case
    using Suc.IH [of h] randomIntInRange_ok [of "fst rng" "snd rng" g x h] assms(2)
    by (auto simp: small_range_def in_range_def rnd_lift_iff split: if_splits)
qed (simp add: rnd_lift_iff)

definition paddings_ok :: "preset \<Rightarrow> int \<times> int \<times> int \<times> int \<Rightarrow> bool" where
  "paddings_ok p x \<longleftrightarrow> (case x of (s1, s2, s3, s4) \<Rightarrow>
     in_range s1 (ps_s1 p) \<and> in_range s2 (ps_s2 p) \<and> in_range s3 (ps_s3 p) \<and> in_range s4 (ps_s4 p)
     \<and> distinct [s1, s2, s3, s4] \<and> distinct [s1 + 148, s2 + 92, s3 + 64])"

lemma padding_values_ok:
  assumes "padding_values n p g = (Inr x, g')" and "preset_small p"
  shows "paddings_ok p x"
  using assms(1)
proof (induction n arbitrary: g)
  case 0
  then show ?case by (simp add: rnd_lift_iff)
next
  case (Suc n)
  from Suc.prems obtain s1 s2 s3 g1 g2 g3 where
    s: "randomIntInRange (fst (ps_s1 p)) (snd (ps_s1 p)) g = (Inr s1, g1)"
      "randomIntInRange (fst (ps_s2 p)) (snd (ps_s2 p)) g1 = (Inr s2, g2)"
      "randomIntInRange (fst (ps_s3 p)) (snd (ps_s3 p)) g2 = (Inr s3, g3)"
    and rest: "(if \<not> allUnique [s1, s2, s3] \<or> violatesPacketSizeRules s1 s2 s3 then padding_values n p
       else rnd_bind (generateUniqueS4 (ps_s4 p) s1 s2 s3) (\<lambda>s4.
         case s4 of None \<Rightarrow> padding_values n p | Some v \<Rightarrow> rnd_return (s1, s2, s3, v))) g3 = (Inr x, g')"
    by (auto simp: rnd_bind_Inr_iff)
  have small: "small_range (ps_s1 p)" "small_range (ps_s2 p)" "small_range (ps_s3 p)" "small_range (ps_s4 p)"
    using assms(2) by (simp_all add: preset_small_def)
  have r: "in_range s1 (ps_s1 p)" "in_range s2 (ps_s2 p)" "in_range s3 (ps_s3 p)"
    using small s by (auto simp: small_range_def in_range_def dest!: randomIntInRange_ok [rotated 2])
  show ?case
  proof (cases "padding_values n p g3 = (Inr x, g') \<or> (\<exists>h. padding_values n p h = (Inr x, g'))")
    case True
    then show ?thesis using Suc.IH by blast
  next
    case False
    then obtain v h where v: "generateUniqueS4 (ps_s4 p) s1 s2 s3 g3 = (Inr (Some v), h)" "x = (s1, s2, s3, v)"
      and u: "distinct [s1, s2, s3]" "\<not> violatesPacketSizeRules s1 s2 s3"
      using rest by (auto simp: allUnique_iff rnd_bind_Inr_iff rnd_lift_iff split: if_splits option.splits)
    have "in_range v (ps_s4 p) \<and> v \<notin> {s1, s2, s3}"
      using unique_s4_ok [OF v(1) [unfolded generateUniqueS4_def] small(4)] .
    moreover have "distinct [s1 + 148, s2 + 92, s3 + 64]"
    proof -
      have b: "0 \<le> s1" "s1 < 2 ^ 30" "0 \<le> s2" "s2 < 2 ^ 30" "0 \<le> s3" "s3 < 2 ^ 30"
        using r small by (auto simp: in_range_def small_range_def)
      then have "wrap64 (s1 + 148) = s1 + 148" "wrap64 (s2 + 92) = s2 + 92" "wrap64 (s3 + 64) = s3 + 64"
        by (auto intro!: wrap64_small)
      then show ?thesis using u(2) by (auto simp: violatesPacketSizeRules_def split: if_splits)
    qed
    ultimately show ?thesis using r u(1) v(2) by (auto simp: paddings_ok_def)
  qed
qed

lemma segments_explicit:
  assumes "0 \<le> lo" and "hi < 2 ^ 31" and "lo + 3 \<le> hi"
  obtains a b c where "splitHeaderRange lo hi = [(lo, a), (a + 1, b), (b + 1, c), (c + 1, hi)]"
    and "lo \<le> a" and "a + 1 \<le> b" and "b + 1 \<le> c" and "c + 1 \<le> hi"
proof -
  define w where "w = hi - lo + 1"
  define q where "q = w div 4"
  define r where "r = w mod 4"
  have w: "wrap64 w = w" using assms by (intro wrap64_small) (simp_all add: w_def)
  have dm: "go_div w headerSegmentCount = q" "go_rem w headerSegmentCount = r"
    using assms by (simp_all add: go_div_def go_rem_def headerSegmentCount_def w_def q_def r_def minus_mult_div_eq_mod)
  have qr: "w = 4 * q + r" "0 \<le> r" "r < 4" "1 \<le> q" using assms by (auto simp: w_def q_def r_def)
  define d where "d i = q + (if i < r then 1 else 0)" for i
  define a where "a = lo + d 0 - 1"
  define b where "b = a + d 1"
  define c where "c = b + d 2"
  have d: "1 \<le> d i" "d i \<le> w" for i using qr by (auto simp: d_def)
  have total: "d 0 + d 1 + d 2 + d 3 = w" using qr by (auto simp: d_def)
  have hi: "c + d 3 = hi" using total by (simp add: a_def b_def c_def w_def)
  have wl: "w \<le> 2 ^ 31" using assms by (simp add: w_def)
  have bounds: "0 \<le> a" "a \<le> 2 ^ 32" "0 \<le> b" "b \<le> 2 ^ 32" "0 \<le> c" "c \<le> 2 ^ 32"
    using d [of 0] d [of 1] d [of 2] d [of 3] hi assms by (simp_all add: a_def b_def c_def)
  have "wrap64 (q + 1) = q + 1" using qr wl by (intro wrap64_small) simp_all
  then have width: "(if i < r then wrap64 (q + 1) else q) = d i" for i by (simp add: d_def)
  have "splitHeaderRange lo hi = [(lo, a), (a + 1, b), (b + 1, c), (c + 1, hi)]"
  proof -
    have e: "wrap64 (lo + d 0 - 1) = a" "wrap64 (a + 1) = a + 1" "wrap64 (a + d 1) = b" "wrap64 (b + 1) = b + 1"
      "wrap64 (b + d 2) = c" "wrap64 (c + 1) = c + 1" "wrap64 (c + d 3) = hi"
      using bounds hi assms by (auto simp: a_def [symmetric] b_def [symmetric] c_def [symmetric] intro!: wrap64_small)
    have "nat headerSegmentCount = Suc (Suc (Suc (Suc 0)))" by (simp add: headerSegmentCount_def)
    then show ?thesis
      unfolding splitHeaderRange_def Let_def w_def [symmetric] w dm
      by (simp add: width e)
  qed
  moreover have "lo \<le> a" "a + 1 \<le> b" "b + 1 \<le> c" "c + 1 \<le> hi"
    using d [of 0] d [of 1] d [of 2] d [of 3] hi by (simp_all add: a_def b_def c_def)
  ultimately show ?thesis using that by blast
qed

text \<open>The four header values: distinct, inside the range, one in each quarter of it.\<close>

definition headers_ok :: "int \<Rightarrow> int \<Rightarrow> int list \<Rightarrow> bool" where
  "headers_ok lo hi hs \<longleftrightarrow> length hs = 4 \<and> distinct hs \<and> (\<forall>h \<in> set hs. lo \<le> h \<and> h \<le> hi)
     \<and> list_all (\<lambda>seg. \<exists>h \<in> set hs. in_range h seg) (splitHeaderRange lo hi)"

lemma generateHeaderValues_ok:
  assumes "0 \<le> lo" and "hi < 2 ^ 31" and "lo + 3 \<le> hi" and "generateHeaderValues lo hi g = (Inr hs, g')"
  shows "headers_ok lo hi hs"
proof -
  obtain a b c where seg: "splitHeaderRange lo hi = [(lo, a), (a + 1, b), (b + 1, c), (c + 1, hi)]"
    and le: "lo \<le> a" "a + 1 \<le> b" "b + 1 \<le> c" "c + 1 \<le> hi"
    by (rule segments_explicit [OF assms(1-3)])
  obtain vs h where vs: "segment_values (splitHeaderRange lo hi) g = (Inr vs, h)" "fst (rand_Shuffle vs h) = hs"
    using assms(4) by (auto simp: generateHeaderValues_def rnd_bind_Inr_iff case_prod_unfold)
  obtain v1 v2 v3 v4 where v: "vs = [v1, v2, v3, v4]" "lo \<le> v1" "v1 \<le> a" "a + 1 \<le> v2" "v2 \<le> b" "b + 1 \<le> v3" "v3 \<le> c"
    "c + 1 \<le> v4" "v4 \<le> hi"
  proof -
    from vs(1) obtain v1 v2 v3 v4 g1 g2 g3 where vv: "vs = [v1, v2, v3, v4]" and
      "randomIntInRange lo a g = (Inr v1, g1)" "randomIntInRange (a + 1) b g1 = (Inr v2, g2)"
      "randomIntInRange (b + 1) c g2 = (Inr v3, g3)" "randomIntInRange (c + 1) hi g3 = (Inr v4, h)"
      unfolding seg by (auto simp: rnd_simps randomInt64InRange_eq)
    then have "lo \<le> v1 \<and> v1 \<le> a" "a + 1 \<le> v2 \<and> v2 \<le> b" "b + 1 \<le> v3 \<and> v3 \<le> c" "c + 1 \<le> v4 \<and> v4 \<le> hi"
      using le assms(1,2) by (auto dest!: randomIntInRange_ok [rotated 2])
    with vv that show thesis by blast
  qed
  have m: "mset hs = mset vs" using rand_Shuffle_mset [of vs h hs "snd (rand_Shuffle vs h)"] vs(2) by (metis prod.collapse)
  have "set hs = {v1, v2, v3, v4}" "length hs = 4" "distinct hs"
    using v le mset_eq_setD [OF m] mset_eq_length [OF m] mset_eq_imp_distinct_iff [OF m] by simp_all
  then show ?thesis using v le seg by (auto simp: headers_ok_def in_range_def)
qed

lemma GenerateParams_facts:
  assumes "preset_small p" and "GenerateParams (Some p) family g = (Inr x, g')"
  shows "in_range (gp_jc x) (ps_jc p) \<and> in_range (gp_jmin x) (ps_jmin p) \<and> in_range (gp_jmax x - gp_jmin x) (ps_jmax_extra p)
    \<and> paddings_ok p (gp_s1 x, gp_s2 x, gp_s3 x, gp_s4 x)
    \<and> headers_ok (ps_hmin p) (ps_hmax p) [gp_h1 x, gp_h2 x, gp_h3 x, gp_h4 x]
    \<and> ToProto (Some x) = x"
proof -
  from assms(2) obtain y g1 where val: "validatePresetRanges p = Inr ()"
    and y: "generateNumericParams p g = (Inr y, g1)" and x: "\<exists>i. x = y\<lparr>gp_i := i\<rparr>"
    by (auto simp: GenerateParams_def rnd_bind_Inr_iff rnd_lift_iff split: if_splits) (metis awg_params.surjective awg_params.update_convs(12))+
  from y obtain jc jmin ex s1 s2 s3 s4 hs h1 h2 h3 h4 h5 where
    j: "randomIntInRange (fst (ps_jc p)) (snd (ps_jc p)) g = (Inr jc, h1)"
      "randomIntInRange (fst (ps_jmin p)) (snd (ps_jmin p)) h1 = (Inr jmin, h2)"
      "randomIntInRange (fst (ps_jmax_extra p)) (snd (ps_jmax_extra p)) h2 = (Inr ex, h3)"
    and s: "padding_values maxPaddingGenerationAttempts p h3 = (Inr (s1, s2, s3, s4), h4)"
    and hs: "generateHeaderValues (ps_hmin p) (ps_hmax p) h4 = (Inr hs, h5)"
    and yy: "y = \<lparr>gp_jc = jc, gp_jmin = jmin, gp_jmax = wrap64 (jmin + ex), gp_s1 = s1, gp_s2 = s2, gp_s3 = s3,
       gp_s4 = s4, gp_h1 = hs ! 0, gp_h2 = hs ! 1, gp_h3 = hs ! 2, gp_h4 = hs ! 3, gp_i = [[], [], [], [], []]\<rparr>"
    by (auto simp: generateNumericParams_def generatePaddingValues_def rnd_bind_Inr_iff rnd_lift_iff)
  have small: "small_range (ps_jc p)" "small_range (ps_jmin p)" "small_range (ps_jmax_extra p)" "small_range (ps_s1 p)"
    "small_range (ps_s2 p)" "small_range (ps_s3 p)" "small_range (ps_s4 p)" "0 \<le> ps_hmin p" "ps_hmax p < 2 ^ 31"
    using assms(1) by (simp_all add: preset_small_def)
  have width: "ps_hmin p + 3 \<le> ps_hmax p"
  proof -
    have "ps_hmin p \<le> ps_hmax p" "4 \<le> wrap64 (ps_hmax p - ps_hmin p + 1)"
      using val by (auto simp: validatePresetRanges_def rbind_Inr_iff fail_if_iff headerSegmentCount_def)
    moreover from this(1) have "wrap64 (ps_hmax p - ps_hmin p + 1) = ps_hmax p - ps_hmin p + 1"
      using small(8,9) by (intro wrap64_small) simp_all
    ultimately show ?thesis by simp
  qed
  have r: "in_range jc (ps_jc p)" "in_range jmin (ps_jmin p)" "in_range ex (ps_jmax_extra p)"
    using small(1-3) j by (auto simp: small_range_def in_range_def dest!: randomIntInRange_ok [rotated 2])
  have pad: "paddings_ok p (s1, s2, s3, s4)" by (rule padding_values_ok [OF s assms(1)])
  have hd: "headers_ok (ps_hmin p) (ps_hmax p) hs" by (rule generateHeaderValues_ok [OF small(8,9) width hs])
  then have list: "[hs ! 0, hs ! 1, hs ! 2, hs ! 3] = hs"
    by (auto simp: headers_ok_def numeral_eq_Suc length_Suc_conv)
  have mem: "hs ! i \<in> set hs" if "i < 4" for i using hd that by (simp add: headers_ok_def)
  have hb: "0 \<le> hs ! i \<and> hs ! i < 2 ^ 31" if "i < 4" for i
  proof -
    have "ps_hmin p \<le> hs ! i \<and> hs ! i \<le> ps_hmax p" using hd mem [OF that] by (simp add: headers_ok_def)
    then show ?thesis using small(8,9) by simp
  qed
  have jm: "wrap64 (jmin + ex) = jmin + ex"
    using r small(1-3) by (intro wrap64_small) (auto simp: in_range_def small_range_def)
  have b: "0 \<le> jc \<and> jc < 2 ^ 31" "0 \<le> jmin \<and> jmin < 2 ^ 31" "0 \<le> jmin + ex \<and> jmin + ex < 2 ^ 31"
    "0 \<le> s1 \<and> s1 < 2 ^ 31" "0 \<le> s2 \<and> s2 < 2 ^ 31" "0 \<le> s3 \<and> s3 < 2 ^ 31" "0 \<le> s4 \<and> s4 < 2 ^ 31"
    using r pad small(1-7) by (auto simp: in_range_def small_range_def paddings_ok_def)
  obtain i where x: "x = y\<lparr>gp_i := i\<rparr>" using x by blast
  have "ToProto (Some x) = x"
    using b hb [of 0] hb [of 1] hb [of 2] hb [of 3] unfolding x yy by (simp add: ToProto_def wrap32_id jm)
  then show ?thesis using r pad hd list unfolding x yy by (simp add: jm)
qed

lemma presets_facts:
  assumes "p \<in> set presets"
  shows "preset_small p" and "validatePresetRanges p = Inr ()" and "snd (ps_s3 p) \<le> 63" and "snd (ps_s4 p) \<le> 15"
proof -
  have "list_all (\<lambda>p. preset_small p \<and> validatePresetRanges p = Inr () \<and> snd (ps_s3 p) \<le> 63 \<and> snd (ps_s4 p) \<le> 15) presets"
    by code_simp
  with assms show "preset_small p" "validatePresetRanges p = Inr ()" "snd (ps_s3 p) \<le> 63" "snd (ps_s4 p) \<le> 15"
    by (simp_all only: list_all_iff)
qed

lemma GetPreset_builtin: "GetPreset name = Inr p \<Longrightarrow> p \<in> set presets"
  by (auto simp: GetPreset_def Let_def find_Some_iff split: if_splits option.splits)

lemma GenerateParams_sound_preset:
  assumes "p \<in> set presets" and "paddings_ok p (s1, s2, s3, s4)"
  shows "0 \<le> s3 \<and> s3 \<le> 63 \<and> 0 \<le> s4 \<and> s4 \<le> 15"
  using presets_facts [OF assms(1)] assms(2)
  by (auto simp: paddings_ok_def in_range_def preset_small_def small_range_def)

text \<open>The only way for the numeric part to fail on a valid small preset.\<close>

lemma range_total:
  "small_range r \<Longrightarrow> fst r \<le> snd r \<Longrightarrow> randomIntInRange (fst r) (snd r) g \<noteq> (Inl e, g')"
  by (rule randomIntInRange_total) (simp_all add: small_range_def)

lemma unique_s4_total: "small_range r \<Longrightarrow> fst r \<le> snd r \<Longrightarrow> unique_s4 n r s1 s2 s3 g \<noteq> (Inl e, g')"
  by (induction n arbitrary: g) (auto simp: rnd_simps range_total split: if_splits)

definition ranges_nonempty :: "preset \<Rightarrow> bool" where
  "ranges_nonempty p \<longleftrightarrow> list_all (\<lambda>r. fst r \<le> snd r) [ps_jc p, ps_jmin p, ps_jmax_extra p, ps_s1 p, ps_s2 p, ps_s3 p, ps_s4 p]
     \<and> ps_hmin p + 3 \<le> ps_hmax p"

lemma padding_values_error:
  assumes "preset_small p" and "ranges_nonempty p" and "padding_values n p g = (Inl e, g')"
  shows "e = PaddingExhausted"
  using assms(3)
proof (induction n arbitrary: g)
  case 0
  then show ?case by (simp add: rnd_lift_iff)
next
  case (Suc n)
  have t: "randomIntInRange (fst (ps_s1 p)) (snd (ps_s1 p)) h \<noteq> (Inl e', h')"
    "randomIntInRange (fst (ps_s2 p)) (snd (ps_s2 p)) h \<noteq> (Inl e', h')"
    "randomIntInRange (fst (ps_s3 p)) (snd (ps_s3 p)) h \<noteq> (Inl e', h')"
    "generateUniqueS4 (ps_s4 p) s1 s2 s3 h \<noteq> (Inl e', h')" for h e' h' s1 s2 s3
    using assms(1,2) unfolding generateUniqueS4_def
    by (auto simp: preset_small_def ranges_nonempty_def range_total unique_s4_total)
  have "\<exists>h. padding_values n p h = (Inl e, g')"
    using Suc.prems t by (auto simp: rnd_bind_Inl_iff rnd_lift_iff split: if_splits option.splits)
  then show ?case using Suc.IH by blast
qed

lemma generateHeaderValues_total:
  assumes "0 \<le> lo" and "hi < 2 ^ 31" and "lo + 3 \<le> hi"
  shows "generateHeaderValues lo hi g \<noteq> (Inl e, g')"
proof -
  obtain a b c where seg: "splitHeaderRange lo hi = [(lo, a), (a + 1, b), (b + 1, c), (c + 1, hi)]"
    and le: "lo \<le> a" "a + 1 \<le> b" "b + 1 \<le> c" "c + 1 \<le> hi"
    by (rule segments_explicit [OF assms])
  have t: "randomIntInRange x y h \<noteq> (Inl e', h')" if "(x, y) \<in> {(lo, a), (a + 1, b), (b + 1, c), (c + 1, hi)}" for x y h e' h'
    using that le assms by (intro randomIntInRange_total) auto
  show ?thesis
    unfolding generateHeaderValues_def seg using t
    by (auto simp: rnd_bind_Inl_iff rnd_lift_iff randomInt64InRange_eq case_prod_unfold)
qed

lemma generateNumericParams_error:
  assumes "preset_small p" and "ranges_nonempty p" and "generateNumericParams p g = (Inl e, g')"
  shows "e = PaddingExhausted"
proof -
  have t: "randomIntInRange (fst (ps_jc p)) (snd (ps_jc p)) h \<noteq> (Inl e', h')"
    "randomIntInRange (fst (ps_jmin p)) (snd (ps_jmin p)) h \<noteq> (Inl e', h')"
    "randomIntInRange (fst (ps_jmax_extra p)) (snd (ps_jmax_extra p)) h \<noteq> (Inl e', h')"
    "generateHeaderValues (ps_hmin p) (ps_hmax p) h \<noteq> (Inl e', h')" for h e' h'
    using assms(1,2)
    by (auto simp: preset_small_def ranges_nonempty_def range_total generateHeaderValues_total)
  have "\<exists>h. padding_values maxPaddingGenerationAttempts p h = (Inl e, g')"
    using assms(3) t
    by (auto simp: generateNumericParams_def generatePaddingValues_def rnd_bind_Inl_iff rnd_lift_iff split: prod.splits)
  then show ?thesis using padding_values_error [OF assms(1,2)] by blast
qed

lemma validate_nonempty:
  assumes "preset_small p" and "validatePresetRanges p = Inr ()"
  shows "ranges_nonempty p"
proof -
  have v: "ps_hmin p \<le> ps_hmax p" "4 \<le> wrap64 (ps_hmax p - ps_hmin p + 1)"
    "list_all (\<lambda>r. fst r \<le> snd r) [ps_jc p, ps_jmin p, ps_jmax_extra p, ps_s1 p, ps_s2 p, ps_s3 p, ps_s4 p]"
    using assms(2) by (auto simp: validatePresetRanges_def validateRange_def rbind_Inr_iff fail_if_iff headerSegmentCount_def)
  have "wrap64 (ps_hmax p - ps_hmin p + 1) = ps_hmax p - ps_hmin p + 1"
    using v(1) assms(1) by (intro wrap64_small) (simp_all add: preset_small_def)
  then show ?thesis using v by (simp add: ranges_nonempty_def)
qed

text \<open>
  C18. Generated parameters keep the rules of the preset. For every random source, a preset of non-negative ranges
  below the 31-bit limit yields, when generation succeeds, junk counts and sizes inside their ranges, four
  distinct paddings inside theirs such that the padded handshake, response and cookie packets have different
  sizes, four distinct headers inside the header range with one in each quarter of it, and parameters that the
  conversion to 32-bit protocol fields does not change.
\<close>

theorem GenerateParams_sound:
  assumes "preset_small p" and "GenerateParams (Some p) family g = (Inr x, g')"
  shows "in_range (gp_jc x) (ps_jc p) \<and> in_range (gp_jmin x) (ps_jmin p) \<and> in_range (gp_jmax x - gp_jmin x) (ps_jmax_extra p)
    \<and> paddings_ok p (gp_s1 x, gp_s2 x, gp_s3 x, gp_s4 x)
    \<and> headers_ok (ps_hmin p) (ps_hmax p) [gp_h1 x, gp_h2 x, gp_h3 x, gp_h4 x]
    \<and> ToProto (Some x) = x"
  by (rule GenerateParams_facts [OF assms])

theorem GenerateParams_sound_witness:
  "\<exists>x g'. GenerateParams (Some (presets ! 2)) None sample_source = (Inr x, g') \<and> preset_small (presets ! 2)
     \<and> headers_ok 800000000 1200000000 [gp_h1 x, gp_h2 x, gp_h3 x, gp_h4 x] \<and> ToProto (Some x) = x"
proof -
  let ?r = "GenerateParams (Some (presets ! 2)) None sample_source"
  have "is_ok (fst ?r)" by code_simp
  then obtain x g' where r: "?r = (Inr x, g')" by (cases ?r) (auto simp: is_ok_iff)
  have small: "preset_small (presets ! 2)" and h: "ps_hmin (presets ! 2) = 800000000" "ps_hmax (presets ! 2) = 1200000000"
    by code_simp+
  show ?thesis using GenerateParams_sound [OF small r] r small h by auto
qed

text \<open>
  C26. The built-in presets and families are usable. Generation with a preset and a family that are looked up by
  name, or without a family, fails only when 4096 attempts found no admissible paddings. When it succeeds the
  parameters fit every physical MTU that leaves 127 bytes beside the tunnel overhead, the decoy templates are
  those of the family exactly when the preset enables them, and each of those is a valid template.
\<close>

theorem builtin_params_usable:
  assumes "GetPreset name = Inr p" and "family = None \<or> (\<exists>fname f. GetFamily fname = Inr f \<and> family = Some f)"
    and "GenerateParams (Some p) family g = (r, g')"
    and "0 \<le> overhead" and "overhead + 127 \<le> mtu" and "mtu < 2 ^ 31"
  shows "case r of
      Inl e \<Rightarrow> e = PaddingExhausted
    | Inr x \<Rightarrow> ValidateMTU (Some x) mtu overhead = Inr ()
        \<and> gp_i x = (case family of Some f \<Rightarrow> if ps_ispec_enabled p then family_specs f else [[], [], [], [], []]
            | None \<Rightarrow> [[], [], [], [], []])
        \<and> validate_family 0 (gp_i x) = Inr ()"
proof -
  have p: "p \<in> set presets" by (rule GetPreset_builtin [OF assms(1)])
  note facts = presets_facts [OF p]
  have fam: "GenerateISpec family = Inr (family_specs f)" "validate_family 0 (family_specs f) = Inr ()" if "family = Some f" for f
    using assms(2) that GetFamily_builtin GenerateISpec_builtin builtin_family_valid by auto
  have gen: "r = Inl e \<Longrightarrow> generateNumericParams p g = (Inl e, g')"
    "r = Inr x \<Longrightarrow> \<exists>y. generateNumericParams p g = (Inr y, g') \<and> x = y\<lparr>gp_i := (case family of
        Some f \<Rightarrow> if ps_ispec_enabled p then family_specs f else gp_i y | None \<Rightarrow> gp_i y)\<rparr>" for e x
    using assms(3) facts(2) fam
    by (cases family; auto simp: GenerateParams_def rnd_simps split: if_splits)+
  have blank: "gp_i y = [[], [], [], [], []]" if "generateNumericParams p g = (Inr y, g')" for y
    using that by (auto simp: generateNumericParams_def rnd_simps)
  show ?thesis
  proof (cases r)
    case (Inl e)
    then show ?thesis
      using generateNumericParams_error [OF facts(1) validate_nonempty [OF facts(1,2)]] gen(1) by simp
  next
    case (Inr x)
    have "paddings_ok p (gp_s1 x, gp_s2 x, gp_s3 x, gp_s4 x)"
      using GenerateParams_facts [OF facts(1)] assms(3) Inr by blast
    from GenerateParams_sound_preset [OF p this] have s: "0 \<le> gp_s3 x" "gp_s3 x \<le> 63" "0 \<le> gp_s4 x" "gp_s4 x \<le> 15"
      by simp_all
    have "wrap64 (gp_s3 x + gp_s4 x + overhead) = gp_s3 x + gp_s4 x + overhead"
      "wrap64 (gp_s3 x + 64 + overhead) = gp_s3 x + 64 + overhead"
      using s assms(4-6) by (auto intro!: wrap64_small)
    then have "ValidateMTU (Some x) mtu overhead = Inr ()"
      using s assms(4-6) by (simp add: ValidateMTU_def)
    moreover have i: "gp_i x = (case family of Some f \<Rightarrow> if ps_ispec_enabled p then family_specs f else [[], [], [], [], []]
            | None \<Rightarrow> [[], [], [], [], []])"
      using gen(2) [OF Inr] blank by (auto split: option.split)
    moreover have "validate_family 0 [[], [], [], [], []] = Inr ()" by code_simp
    ultimately show ?thesis using Inr fam(2) by (simp split: option.split)
  qed
qed

theorem builtin_params_usable_witness:
  "\<exists>p f r g'. GetPreset '' minimal'' = Inr p \<and> GetFamily ''dnsquery'' = Inr f
     \<and> GenerateParams (Some p) (Some f) sample_source = (r, g')
     \<and> (\<exists>x. r = Inr x \<and> ValidateMTU (Some x) 1280 80 = Inr () \<and> gp_i x = [[], [], [], [], []])"
proof -
  have p: "GetPreset '' minimal'' = Inr (presets ! 2)" by code_simp
  have f: "GetFamily ''dnsquery'' = Inr (protocolFamilies ! 3)" by code_simp
  let ?r = "GenerateParams (Some (presets ! 2)) (Some (protocolFamilies ! 3)) sample_source"
  have "is_ok (fst ?r)" by code_simp
  then obtain x g' where r: "?r = (Inr x, g')" by (cases ?r) (auto simp: is_ok_iff)
  have "\<not> ps_ispec_enabled (presets ! 2)" by code_simp
  moreover have "\<exists>fname f. GetFamily fname = Inr f \<and> Some (protocolFamilies ! 3) = Some f" using f by blast
  ultimately show ?thesis
    using builtin_params_usable [OF p disjI2 r, of 80 1280] p f r by auto
qed

end
