(* ===== verification/Go_Encoding.thy ===== *)
theory Go_Encoding
  imports Go_Strconv
begin

text \<open>
  The \<open>encoding/base64\<close> package of Go's standard library, with and without padding.
\<close>

section \<open>Base64\<close>

text \<open>The alphabets of \<open>base64.StdEncoding\<close> and \<open>base64.RawURLEncoding\<close>.\<close>

definition b64_common :: string where
  "b64_common = ''ABCDEFGHIJKLMNOPQRSTUVWXYZabcdefghijklmnopqrstuvwxyz0123456789''"

definition b64_std :: string where "b64_std = b64_common @ ''+/''"
definition b64_url :: string where "b64_url = b64_common @ ''-_''"

definition b64_val :: "string \<Rightarrow> char \<Rightarrow> nat option" where
  "b64_val alpha c = find (\<lambda>i. alpha ! i = c) [0..<64]"

text \<open>\<open>EncodeToString\<close>; \<open>pad\<close> says whether the encoding is padded to a multiple of four.\<close>

fun b64_encode :: "string \<Rightarrow> bool \<Rightarrow> bytes \<Rightarrow> string" where
  "b64_encode alpha pad [] = []"
| "b64_encode alpha pad [a] =
     [alpha ! (byte_val a div 4), alpha ! (byte_val a mod 4 * 16)] @ (if pad then ''=='' else [])"
| "b64_encode alpha pad [a, b] =
     [alpha ! (byte_val a div 4), alpha ! (byte_val a mod 4 * 16 + byte_val b div 16), alpha ! (byte_val b mod 16 * 4)]
     @ (if pad then ''='' else [])"
| "b64_encode alpha pad (a # b # c # r) =
     [alpha ! (byte_val a div 4), alpha ! (byte_val a mod 4 * 16 + byte_val b div 16),
      alpha ! (byte_val b mod 16 * 4 + byte_val c div 64), alpha ! (byte_val c mod 64)] @ b64_encode alpha pad r"

definition b64_bytes :: "nat \<Rightarrow> nat \<Rightarrow> nat \<Rightarrow> nat \<Rightarrow> bytes" where
  "b64_bytes x y z w = [char_of (x * 4 + y div 16), char_of (y mod 16 * 16 + z div 4), char_of (z mod 4 * 64 + w)]"

text \<open>
  \<open>decodeQuantum\<close> on the input without its line breaks, which the decoder skips everywhere. Bits of the last
  character beyond the last byte are ignored.
\<close>

fun b64_quanta :: "string \<Rightarrow> bool \<Rightarrow> string \<Rightarrow> bytes option" where
  "b64_quanta alpha pad [] = Some []"
| "b64_quanta alpha pad [a] = None"
| "b64_quanta alpha pad [a, b] =
     (case (b64_val alpha a, b64_val alpha b) of
        (Some x, Some y) \<Rightarrow> if pad then None else Some (take 1 (b64_bytes x y 0 0))
      | _ \<Rightarrow> None)"
| "b64_quanta alpha pad [a, b, c] =
     (case (b64_val alpha a, b64_val alpha b, b64_val alpha c) of
        (Some x, Some y, Some z) \<Rightarrow> if pad then None else Some (take 2 (b64_bytes x y z 0))
      | _ \<Rightarrow> None)"
| "b64_quanta alpha pad (a # b # c # d # r) =
     (case (b64_val alpha a, b64_val alpha b) of
        (Some x, Some y) \<Rightarrow>
          (case b64_val alpha c of
             Some z \<Rightarrow>
               (case b64_val alpha d of
                  Some w \<Rightarrow> map_option (\<lambda>bs. b64_bytes x y z w @ bs) (b64_quanta alpha pad r)
                | None \<Rightarrow> if pad \<and> d = CHR ''='' \<and> r = [] then Some (take 2 (b64_bytes x y z 0)) else None)
           | None \<Rightarrow> if pad \<and> c = CHR ''='' \<and> d = CHR ''='' \<and> r = [] then Some (take 1 (b64_bytes x y 0 0)) else None)
      | _ \<Rightarrow> None)"

definition b64_decode :: "string \<Rightarrow> bool \<Rightarrow> string \<Rightarrow> bytes option" where
  "b64_decode alpha pad s = b64_quanta alpha pad (filter (\<lambda>c. c \<noteq> CHR 0x0A \<and> c \<noteq> CHR 0x0D) s)"

definition b64_alphabet :: "string \<Rightarrow> bool" where
  "b64_alphabet alpha \<longleftrightarrow> length alpha = 64 \<and> distinct alpha \<and> CHR ''='' \<notin> set alpha
     \<and> CHR 0x0A \<notin> set alpha \<and> CHR 0x0D \<notin> set alpha \<and> list_all plain_byte alpha"

lemma b64_alphabets [simp]: "b64_alphabet b64_std" "b64_alphabet b64_url"
  by code_simp+

lemma b64_val_char:
  assumes "b64_alphabet alpha" and "i < 64"
  shows "b64_val alpha (alpha ! i) = Some i"
proof -
  have "[0..<64] = [0..<i] @ i # [Suc i..<64]" using assms(2) upt_add_eq_append [of 0 i "64 - i"] by (simp add: upt_conv_Cons)
  moreover have "find (\<lambda>j. alpha ! j = alpha ! i) [0..<i] = None"
    using assms by (auto simp: find_None_iff b64_alphabet_def nth_eq_iff_index_eq)
  moreover have "find P (xs @ y # ys) = Some y" if "find P xs = None" "P y" for P :: "nat \<Rightarrow> bool" and xs y ys
    using that by (induction xs) (auto split: if_splits)
  ultimately show ?thesis unfolding b64_val_def by metis
qed

lemma b64_val_pad: "b64_alphabet alpha \<Longrightarrow> b64_val alpha CHR ''='' = None"
  by (auto simp: b64_val_def find_None_iff b64_alphabet_def) (metis nth_mem)

lemma byte_parts:
  "byte_val a div 4 < 64" "byte_val a mod 4 * 16 < 64" "byte_val a mod 4 * 16 + byte_val b div 16 < 64"
  "byte_val b mod 16 * 4 < 64" "byte_val b mod 16 * 4 + byte_val c div 64 < 64" "byte_val c mod 64 < 64"
proof -
  have lt: "byte_val x < 256" for x by simp
  have "byte_val b div 16 < 16" "byte_val c div 64 < 4" "byte_val a div 4 < 64"
    using lt [of a] lt [of b] lt [of c] by (simp_all only: less_mult_imp_div_less)
  moreover have "byte_val a mod 4 < 4" "byte_val b mod 16 < 16" "byte_val c mod 64 < 64" by simp_all
  ultimately show "byte_val a div 4 < 64" "byte_val a mod 4 * 16 < 64" "byte_val a mod 4 * 16 + byte_val b div 16 < 64"
    "byte_val b mod 16 * 4 < 64" "byte_val b mod 16 * 4 + byte_val c div 64 < 64" "byte_val c mod 64 < 64"
    by linarith+
qed

lemma b64_join:
  "b64_bytes (byte_val a div 4) (byte_val a mod 4 * 16 + byte_val b div 16)
     (byte_val b mod 16 * 4 + byte_val c div 64) (byte_val c mod 64) = [a, b, c]"
  "take 1 (b64_bytes (byte_val a div 4) (byte_val a mod 4 * 16) 0 0) = [a]"
  "take 2 (b64_bytes (byte_val a div 4) (byte_val a mod 4 * 16 + byte_val b div 16) (byte_val b mod 16 * 4) 0) = [a, b]"
proof -
  have q: "byte_val b div 16 < 16" "byte_val c div 64 < 4"
    using less_mult_imp_div_less [of "byte_val b" 16 16] less_mult_imp_div_less [of "byte_val c" 4 64] by simp_all
  then show "b64_bytes (byte_val a div 4) (byte_val a mod 4 * 16 + byte_val b div 16)
     (byte_val b mod 16 * 4 + byte_val c div 64) (byte_val c mod 64) = [a, b, c]"
    by (simp add: b64_bytes_def div_mult_mod_eq)
  show "take 1 (b64_bytes (byte_val a div 4) (byte_val a mod 4 * 16) 0 0) = [a]"
    by (simp add: b64_bytes_def div_mult_mod_eq)
  show "take 2 (b64_bytes (byte_val a div 4) (byte_val a mod 4 * 16 + byte_val b div 16) (byte_val b mod 16 * 4) 0) = [a, b]"
    using q by (simp add: b64_bytes_def div_mult_mod_eq)
qed

lemma b64_quanta_encode:
  "b64_alphabet alpha \<Longrightarrow> b64_quanta alpha pad (b64_encode alpha pad bs) = Some bs"
proof (induction alpha pad bs rule: b64_encode.induct)
  case (2 alpha pad a)
  then show ?case using byte_parts(1) [of a] byte_parts(2) [of a]
    by (simp add: b64_val_char b64_val_pad b64_join(2) [simplified])
next
  case (3 alpha pad a b)
  then show ?case using byte_parts(1) [of a] byte_parts(3) [of a b] byte_parts(4) [of b]
    by (simp add: b64_val_char b64_val_pad b64_join(3))
next
  case (4 alpha pad a b c r)
  then show ?case using byte_parts(1) [of a] byte_parts(3) [of a b] byte_parts(5) [of b c] byte_parts(6) [of c]
    by (simp add: b64_val_char b64_join(1))
qed simp

lemma b64_encode_chars:
  "b64_alphabet alpha \<Longrightarrow> set (b64_encode alpha pad bs) \<subseteq> insert CHR ''='' (set alpha)"
proof (induction alpha pad bs rule: b64_encode.induct)
  case (2 alpha pad a)
  then show ?case using byte_parts(1) [of a] byte_parts(2) [of a] by (auto simp: b64_alphabet_def)
next
  case (3 alpha pad a b)
  then show ?case using byte_parts(1) [of a] byte_parts(3) [of a b] byte_parts(4) [of b] by (auto simp: b64_alphabet_def)
next
  case (4 alpha pad a b c r)
  then show ?case using byte_parts(1) [of a] byte_parts(3) [of a b] byte_parts(5) [of b c] byte_parts(6) [of c]
    by (auto simp: b64_alphabet_def)
qed simp

lemma b64_decode_encode:
  assumes "b64_alphabet alpha"
  shows "b64_decode alpha pad (b64_encode alpha pad bs) = Some bs"
proof -
  have "c \<noteq> CHR 0x0A \<and> c \<noteq> CHR 0x0D" if "c \<in> set (b64_encode alpha pad bs)" for c
    using b64_encode_chars [OF assms, of pad bs] that assms by (auto simp: b64_alphabet_def)
  then have "filter (\<lambda>c. c \<noteq> CHR 0x0A \<and> c \<noteq> CHR 0x0D) (b64_encode alpha pad bs) = b64_encode alpha pad bs"
    by (simp add: filter_id_conv)
  then show ?thesis using b64_quanta_encode [OF assms] by (simp add: b64_decode_def)
qed

end
