(* ===== verification/Go_IO.thy ===== *)
theory Go_IO
  imports Go_Encoding
begin

text \<open>
  Text files and the file system as Go's standard library presents them: the lines of \<open>bufio.Scanner\<close>, the
  lexical functions of \<open>path/filepath\<close> on Unix, and the calls of package \<open>os\<close> on files.
\<close>

section \<open>Lines\<close>

text \<open>
  \<open>bufio.Scanner\<close> with its default split function: the lines without their line break and a trailing carriage
  return. A line that does not fit the buffer of 64 KiB ends the scan with an error; the second component says
  whether that happened.
\<close>

definition max_scan_token :: nat where "max_scan_token = 65536"

definition drop_cr :: "string \<Rightarrow> string" where
  "drop_cr l = (if l \<noteq> [] \<and> last l = CHR 0x0D then butlast l else l)"

definition raw_lines :: "string \<Rightarrow> string list" where
  "raw_lines s = (let ls = split_on CHR 0x0A s in if last ls = [] then butlast ls else ls)"

definition scan_lines :: "string \<Rightarrow> string list \<times> bool" where
  "scan_lines s =
     (let ls = raw_lines s; ok = takeWhile (\<lambda>l. length l < max_scan_token) ls
      in (map drop_cr ok, length ok < length ls))"

text \<open>A text made of whole lines.\<close>

definition unlines :: "string list \<Rightarrow> string" where
  "unlines ls = concat (map (\<lambda>l. l @ [CHR 0x0A]) ls)"

lemma unlines_simps [simp]:
  "unlines [] = []" "unlines (l # ls) = l @ CHR 0x0A # unlines ls" "unlines (ls @ ks) = unlines ls @ unlines ks"
  by (simp_all add: unlines_def)

definition line_ok :: "string \<Rightarrow> bool" where
  "line_ok l \<longleftrightarrow> CHR 0x0A \<notin> set l \<and> length l < max_scan_token \<and> (l = [] \<or> last l \<noteq> CHR 0x0D)"

lemma split_unlines: "\<forall>l \<in> set ls. CHR 0x0A \<notin> set l \<Longrightarrow> split_on CHR 0x0A (unlines ls) = ls @ [[]]"
  by (induction ls) (simp_all add: split_on_append_sep)

lemma raw_lines_unlines: "\<forall>l \<in> set ls. CHR 0x0A \<notin> set l \<Longrightarrow> raw_lines (unlines ls) = ls"
  by (simp add: raw_lines_def split_unlines)

lemma scan_unlines: "list_all line_ok ls \<Longrightarrow> scan_lines (unlines ls) = (ls, False)"
proof -
  assume ok: "list_all line_ok ls"
  have "takeWhile (\<lambda>l. length l < max_scan_token) ls = ls"
    using ok by (simp add: list_all_iff line_ok_def)
  moreover have "map drop_cr ls = ls"
    using ok by (auto simp: list_all_iff line_ok_def drop_cr_def intro!: map_idI)
  ultimately show ?thesis
    using ok by (simp add: scan_lines_def raw_lines_unlines list_all_iff line_ok_def Let_def del: takeWhile_eq_all_conv)
qed

section \<open>Paths\<close>

definition clean_step :: "bool \<Rightarrow> string \<Rightarrow> string list \<Rightarrow> string list" where
  "clean_step rooted c stack =
     (if c = [] \<or> c = ''.'' then stack
      else if c = ''..'' then
        (if stack \<noteq> [] \<and> last stack \<noteq> ''..'' then butlast stack
         else if rooted then stack else stack @ [''..''])
      else stack @ [c])"

definition path_clean :: "string \<Rightarrow> string" where
  "path_clean p =
     (if p = [] then ''.''
      else
        (let rooted = (hd p = CHR ''/'');
             body = join ''/'' (fold (clean_step rooted) (split_on CHR ''/'' p) [])
         in if rooted then CHR ''/'' # body else if body = [] then ''.'' else body))"

definition path_join :: "string list \<Rightarrow> string" where
  "path_join ps =
     (case dropWhile (\<lambda>p. p = []) ps of [] \<Rightarrow> [] | rest \<Rightarrow> path_clean (join ''/'' rest))"

definition path_dir :: "string \<Rightarrow> string" where
  "path_dir p = (case cut_last CHR ''/'' p of None \<Rightarrow> path_clean [] | Some (d, _) \<Rightarrow> path_clean (d @ ''/''))"

definition path_base :: "string \<Rightarrow> string" where
  "path_base p =
     (if p = [] then ''.''
      else
        (let s = rev (dropWhile (\<lambda>c. c = CHR ''/'') (rev p)) in
         if s = [] then ''/'' else rev (takeWhile (\<lambda>c. c \<noteq> CHR ''/'') (rev s))))"

definition path_ext :: "string \<Rightarrow> string" where
  "path_ext p =
     (let name = rev (takeWhile (\<lambda>c. c \<noteq> CHR ''/'') (rev p)) in
      case cut_last CHR ''.'' name of None \<Rightarrow> [] | Some (_, e) \<Rightarrow> CHR ''.'' # e)"

section \<open>Files\<close>

text \<open>
  A file system maps cleaned paths to files and directories. Whether a call fails for a reason that the map does
  not show, such as permissions, a missing parent directory or a full disk, is decided by a sequence of faults,
  one for each call; a statement for all sequences covers every run. A write that fails may leave the file with
  any prefix of the new contents.
\<close>

datatype fnode = FFile bytes | FDir

datatype io_error = ErrNotExist | ErrIsDir | ErrExist | ErrFault string

record filesys =
  fs_nodes :: "(string, fnode) gomap"
  fs_faults :: "nat \<Rightarrow> (string \<times> nat option) option"
  fs_suffixes :: "nat \<Rightarrow> nat"

type_synonym ('e, 'a) io = "filesys \<Rightarrow> ('e + 'a) \<times> filesys"

definition io_return :: "'a \<Rightarrow> ('e, 'a) io" where "io_return x w = (Inr x, w)"
definition io_fail :: "'e \<Rightarrow> ('e, 'a) io" where "io_fail e w = (Inl e, w)"

definition io_bind :: "('e, 'a) io \<Rightarrow> ('a \<Rightarrow> ('e, 'b) io) \<Rightarrow> ('e, 'b) io" where
  "io_bind m f w = (case m w of (Inl e, w') \<Rightarrow> (Inl e, w') | (Inr x, w') \<Rightarrow> f x w')"

text \<open>Go's \<open>_ = call()\<close>, and a call whose outcome is examined.\<close>

definition io_ignore :: "('e, 'a) io \<Rightarrow> ('f, unit) io" where
  "io_ignore m w = (Inr (), snd (m w))"

definition io_try :: "('e, 'a) io \<Rightarrow> ('f, 'e + 'a) io" where
  "io_try m w = (case m w of (r, w') \<Rightarrow> (Inr r, w'))"

named_theorems io_simps \<open>definitions of file computations\<close>
declare io_return_def [io_simps] io_fail_def [io_simps] io_bind_def [io_simps] io_ignore_def [io_simps] io_try_def [io_simps]

definition fs_get :: "filesys \<Rightarrow> string \<Rightarrow> fnode option" where
  "fs_get w p = gm_get (fs_nodes w) (path_clean p)"

definition fs_put :: "string \<Rightarrow> fnode \<Rightarrow> filesys \<Rightarrow> filesys" where
  "fs_put p n w = w\<lparr>fs_nodes := gm_put (path_clean p) n (fs_nodes w)\<rparr>"

definition fs_del :: "string \<Rightarrow> filesys \<Rightarrow> filesys" where
  "fs_del p w = w\<lparr>fs_nodes := gm_del (path_clean p) (fs_nodes w)\<rparr>"

text \<open>One call: the fault of this call, and the system with the faults of the calls that follow.\<close>

definition fs_fault :: "filesys \<Rightarrow> (string \<times> nat option) option \<times> filesys" where
  "fs_fault w = (fs_faults w 0, w\<lparr>fs_faults := \<lambda>i. fs_faults w (Suc i)\<rparr>)"

definition os_call :: "(filesys \<Rightarrow> (io_error + 'a) \<times> filesys) \<Rightarrow> (io_error, 'a) io" where
  "os_call f w = (case fs_fault w of (Some (e, _), w') \<Rightarrow> (Inl (ErrFault e), w') | (None, w') \<Rightarrow> f w')"

definition os_Stat :: "string \<Rightarrow> (io_error, fnode) io" where
  "os_Stat p = os_call (\<lambda>w. case fs_get w p of None \<Rightarrow> (Inl ErrNotExist, w) | Some n \<Rightarrow> (Inr n, w))"

definition os_ReadFile :: "string \<Rightarrow> (io_error, bytes) io" where
  "os_ReadFile p = os_call (\<lambda>w.
     case fs_get w p of
       None \<Rightarrow> (Inl ErrNotExist, w) | Some FDir \<Rightarrow> (Inl ErrIsDir, w) | Some (FFile b) \<Rightarrow> (Inr b, w))"

definition os_WriteFile :: "string \<Rightarrow> bytes \<Rightarrow> (io_error, unit) io" where
  "os_WriteFile p b w =
     (case fs_get w p of
        Some FDir \<Rightarrow> (Inl ErrIsDir, snd (fs_fault w))
      | _ \<Rightarrow>
          (case fs_fault w of
             (Some (e, None), w') \<Rightarrow> (Inl (ErrFault e), w')
           | (Some (e, Some n), w') \<Rightarrow> (Inl (ErrFault e), fs_put p (FFile (take n b)) w')
           | (None, w') \<Rightarrow> (Inr (), fs_put p (FFile b) w')))"

text \<open>\<open>os.Rename\<close> on files; directories are never renamed.\<close>

definition os_Rename :: "string \<Rightarrow> string \<Rightarrow> (io_error, unit) io" where
  "os_Rename a b = os_call (\<lambda>w.
     case fs_get w a of
       None \<Rightarrow> (Inl ErrNotExist, w)
     | Some FDir \<Rightarrow> (Inl ErrIsDir, w)
     | Some (FFile c) \<Rightarrow>
         if fs_get w b = Some FDir then (Inl ErrExist, w) else (Inr (), fs_put b (FFile c) (fs_del a w)))"

definition os_Remove :: "string \<Rightarrow> (io_error, unit) io" where
  "os_Remove p = os_call (\<lambda>w. case fs_get w p of None \<Rightarrow> (Inl ErrNotExist, w) | Some _ \<Rightarrow> (Inr (), fs_del p w))"

definition os_MkdirAll :: "string \<Rightarrow> (io_error, unit) io" where
  "os_MkdirAll p = os_call (\<lambda>w. (Inr (), w))"

text \<open>Calls that change neither names nor contents: \<open>Chmod\<close> and \<open>Close\<close> of a file.\<close>

definition os_Other :: "(io_error, unit) io" where
  "os_Other = os_call (\<lambda>w. (Inr (), w))"

text \<open>
  \<open>os.CreateTemp(dir, prefix + "*" + suffix)\<close>: the first of 10000 random decimal names that does not exist, as an empty
  file.
\<close>

fun fresh_name :: "nat \<Rightarrow> string \<Rightarrow> string \<Rightarrow> filesys \<Rightarrow> string option \<times> filesys" where
  "fresh_name 0 pre suf w = (None, w)"
| "fresh_name (Suc n) pre suf w =
     (let p = pre @ nat_str (fs_suffixes w 0) @ suf; w' = w\<lparr>fs_suffixes := \<lambda>i. fs_suffixes w (Suc i)\<rparr> in
      if fs_get w p = None then (Some p, w') else fresh_name n pre suf w')"

definition joinPath :: "string \<Rightarrow> string \<Rightarrow> string" where
  "joinPath dir name = (if dir \<noteq> [] \<and> last dir = CHR ''/'' then dir @ name else dir @ CHR ''/'' # name)"

definition os_CreateTemp :: "string \<Rightarrow> string \<Rightarrow> string \<Rightarrow> (io_error, string) io" where
  "os_CreateTemp dir pre suf = os_call (\<lambda>w.
     case fresh_name 10000 (joinPath dir pre) suf w of
       (None, w') \<Rightarrow> (Inl ErrExist, w') | (Some p, w') \<Rightarrow> (Inr p, fs_put p (FFile []) w'))"

lemma fs_get_put [simp]: "fs_get (fs_put p n w) q = (if path_clean q = path_clean p then Some n else fs_get w q)"
  by (auto simp: fs_get_def fs_put_def gm_simps)

lemma fs_get_del [simp]: "fs_get (fs_del p w) q = (if path_clean q = path_clean p then None else fs_get w q)"
  by (auto simp: fs_get_def fs_del_def gm_simps)

lemma fs_get_fault [simp]: "fs_get (snd (fs_fault w)) p = fs_get w p"
  by (simp add: fs_get_def fs_fault_def)

lemma fs_get_suffixes [simp]: "fs_get (w\<lparr>fs_suffixes := s\<rparr>) p = fs_get w p"
  by (simp add: fs_get_def)

lemma fresh_name_facts:
  "fresh_name n pre suf w = (r, w') \<Longrightarrow>
     fs_get w' q = fs_get w q \<and> (\<forall>p. r = Some p \<longrightarrow> fs_get w p = None \<and> (\<exists>m. p = pre @ nat_str m @ suf))"
proof (induction n arbitrary: w)
  case (Suc n)
  let ?w = "w\<lparr>fs_suffixes := \<lambda>i. fs_suffixes w (Suc i)\<rparr>"
  show ?case
  proof (cases "fs_get w (pre @ nat_str (fs_suffixes w 0) @ suf) = None")
    case True
    then show ?thesis using Suc.prems by (auto simp: Let_def)
  next
    case False
    then have "fresh_name n pre suf ?w = (r, w')" using Suc.prems by (auto simp: Let_def)
    from Suc.IH [OF this] show ?thesis by simp
  qed
qed simp

text \<open>What a call does to the files, whatever the faults.\<close>

lemma os_Stat_files: "os_Stat p w = (r, w') \<Longrightarrow>
    fs_get w' q = fs_get w q \<and> (\<forall>n. r = Inr n \<longrightarrow> fs_get w p = Some n) \<and> (r = Inl ErrNotExist \<longrightarrow> fs_get w p = None)"
  by (auto simp: os_Stat_def os_call_def fs_get_def fs_fault_def split: option.splits prod.splits)

lemma os_ReadFile_files: "os_ReadFile p w = (r, w') \<Longrightarrow>
    fs_get w' q = fs_get w q \<and> (\<forall>b. r = Inr b \<longrightarrow> fs_get w p = Some (FFile b)) \<and> (r = Inl ErrNotExist \<longrightarrow> fs_get w p = None)"
  by (auto simp: os_ReadFile_def os_call_def fs_get_def fs_fault_def split: option.splits prod.splits fnode.splits)

lemma os_Rename_files: "os_Rename a b w = (r, w') \<Longrightarrow>
    (case r of
       Inl _ \<Rightarrow> fs_get w' q = fs_get w q
     | Inr _ \<Rightarrow> fs_get w a \<noteq> None \<and>
         fs_get w' q = (if path_clean q = path_clean b then fs_get w a
                        else if path_clean q = path_clean a then None else fs_get w q))"
proof -
  assume run: "os_Rename a b w = (r, w')"
  obtain f w1 where f: "fs_fault w = (f, w1)" by (cases "fs_fault w") simp
  then have g: "fs_get w1 q = fs_get w q" for q using fs_get_fault [of w q] by simp
  show ?thesis
    using run f g by (auto simp: os_Rename_def os_call_def split: option.splits fnode.splits if_splits)
qed

lemma os_Remove_files: "os_Remove p w = (r, w') \<Longrightarrow>
    (path_clean q \<noteq> path_clean p \<longrightarrow> fs_get w' q = fs_get w q) \<and>
    (fs_get w' p = fs_get w p \<or> fs_get w' p = None) \<and> (r = Inr () \<longrightarrow> fs_get w' p = None)"
  by (auto simp: os_Remove_def os_call_def fs_fault_def split: option.splits prod.splits) (simp_all add: fs_get_def fs_del_def gm_simps)

lemma os_WriteFile_files: "os_WriteFile p b w = (r, w') \<Longrightarrow>
    (path_clean q \<noteq> path_clean p \<longrightarrow> fs_get w' q = fs_get w q) \<and> (r = Inr () \<longrightarrow> fs_get w' p = Some (FFile b))"
  by (auto simp: os_WriteFile_def fs_fault_def split: option.splits prod.splits fnode.splits)
    (simp_all add: fs_get_def fs_put_def gm_simps)

lemma os_MkdirAll_files: "os_MkdirAll p w = (r, w') \<Longrightarrow> fs_get w' q = fs_get w q"
  by (auto simp: os_MkdirAll_def os_call_def fs_get_def fs_fault_def split: option.splits prod.splits)

lemma os_Other_files: "os_Other w = (r, w') \<Longrightarrow> fs_get w' q = fs_get w q"
  by (auto simp: os_Other_def os_call_def fs_get_def fs_fault_def split: option.splits prod.splits)

lemma os_CreateTemp_files: "os_CreateTemp dir pre suf w = (r, w') \<Longrightarrow>
    (case r of
       Inl _ \<Rightarrow> fs_get w' q = fs_get w q
     | Inr p \<Rightarrow> fs_get w p = None \<and> (\<exists>m. p = joinPath dir pre @ nat_str m @ suf)
         \<and> fs_get w' q = (if path_clean q = path_clean p then Some (FFile []) else fs_get w q))"
proof -
  assume run: "os_CreateTemp dir pre suf w = (r, w')"
  obtain f w1 where f: "fs_fault w = (f, w1)" by (cases "fs_fault w") simp
  then have g: "fs_get w1 q = fs_get w q" for q using fs_get_fault [of w q] by simp
  obtain x w2 where n: "fresh_name 10000 (joinPath dir pre) suf w1 = (x, w2)" by (meson surj_pair)
  show ?thesis
    using run f g fresh_name_facts [OF n]
    by (cases f; cases x) (auto simp: os_CreateTemp_def os_call_def n [simplified] simp del: fresh_name.simps)
qed

lemmas os_files = os_Stat_files os_ReadFile_files os_Rename_files os_Remove_files os_WriteFile_files
  os_MkdirAll_files os_Other_files os_CreateTemp_files

end
