(* ===== verification/Go_Float.thy ===== *)
theory Go_Float
  imports Prelude Complex_Main "HOL-Library.Log_Nat"
begin

text \<open>
  Go's \<open>float64\<close> arithmetic on finite values: a value is a rational number, and the result of an operation is the
  exact one rounded to 53 significant bits, ties to even. Exponents are unbounded: overflow and subnormal numbers
  do not occur in the programs below. \<open>Duration.Seconds\<close> and conversions to \<open>int\<close> are stated on top of it.
\<close>

definition pow2 :: "int \<Rightarrow> rat" where
  "pow2 k = (if 0 \<le> k then 2 ^ nat k else 1 / 2 ^ nat (- k))"

definition round_half_even :: "rat \<Rightarrow> int" where
  "round_half_even x =
     (let n = \<lfloor>x\<rfloor>; r = x - of_int n in
      if r < 1 / 2 then n else if r > 1 / 2 then n + 1 else if even n then n else n + 1)"

text \<open>The exponent of the leading bit.\<close>

definition lead_exp :: "rat \<Rightarrow> int" where
  "lead_exp x =
     (case quotient_of \<bar>x\<bar> of (a, b) \<Rightarrow>
        (let k = bitlen a - bitlen b in if pow2 k \<le> \<bar>x\<bar> then k else k - 1))"

definition f64 :: "rat \<Rightarrow> rat" where
  "f64 x =
     (if x = 0 then 0
      else (let q = pow2 (lead_exp x - 52) in of_int (round_half_even (x / q)) * q))"

text \<open>Conversion to an integer drops the fraction.\<close>

definition f64_to_int :: "rat \<Rightarrow> int" where
  "f64_to_int x = (if x < 0 then \<lceil>x\<rceil> else \<lfloor>x\<rfloor>)"

definition duration_seconds :: "duration \<Rightarrow> rat" where
  "duration_seconds d = f64 (of_int (go_div d 1000000000) + f64 (of_int (go_rem d 1000000000) / 1000000000))"

lemma round_half_even_int [simp]: "round_half_even (of_int n) = n"
  by (simp add: round_half_even_def)

lemma pow2_pos [simp]: "0 < pow2 k" "pow2 k \<noteq> 0"
  by (simp_all add: pow2_def)

lemma lead_exp_int:
  assumes "n \<noteq> 0"
  shows "lead_exp (of_int n) = bitlen \<bar>n\<bar> - 1"
proof -
  have q: "quotient_of \<bar>rat_of_int n\<bar> = (\<bar>n\<bar>, 1)" using quotient_of_rat_of_int [of "\<bar>n\<bar>"] by simp
  have b1: "bitlen 1 = 1" by (simp add: bitlen_def floorlog_def)
  have pos: "0 < \<bar>n\<bar>" using assms by simp
  then have k: "0 \<le> bitlen \<bar>n\<bar> - 1" using bitlen_nonneg [of "\<bar>n\<bar>"] bitlen_eq_zero_iff [of "\<bar>n\<bar>"] by linarith
  have "2 ^ nat (bitlen \<bar>n\<bar> - 1) \<le> \<bar>n\<bar>" using bitlen_bounds [OF pos] by (rule conjunct1)
  then have "rat_of_int (2 ^ nat (bitlen \<bar>n\<bar> - 1)) \<le> rat_of_int \<bar>n\<bar>" by (simp only: of_int_le_iff)
  then have "pow2 (bitlen \<bar>n\<bar> - 1) \<le> \<bar>rat_of_int n\<bar>" using k by (simp add: pow2_def)
  then show ?thesis by (simp add: lead_exp_def q b1 Let_def)
qed

lemma f64_int:
  assumes "\<bar>n\<bar> \<le> 2 ^ 53"
  shows "f64 (of_int n) = of_int n"
proof (cases "n = 0")
  case False
  let ?k = "bitlen \<bar>n\<bar> - 1"
  have pos: "0 < \<bar>n\<bar>" using False by simp
  have low: "2 ^ nat ?k \<le> \<bar>n\<bar>" using bitlen_bounds [OF pos] by (rule conjunct1)
  have e: "lead_exp (of_int n) = ?k" by (rule lead_exp_int [OF False])
  have "\<exists>m. rat_of_int n / pow2 (?k - 52) = of_int m"
  proof (cases "?k \<le> 52")
    case True
    then have "rat_of_int n / pow2 (?k - 52) = of_int (n * 2 ^ nat (52 - ?k))" by (auto simp: pow2_def)
    then show ?thesis by blast
  next
    case gt: False
    have "\<not> 54 \<le> nat ?k"
    proof
      assume "54 \<le> nat ?k"
      then have "(2::int) ^ 54 \<le> 2 ^ nat ?k" by (rule power_increasing) simp
      then show False using low assms by simp
    qed
    then have k: "?k = 53" using gt by linarith
    then have "2 ^ 53 \<le> \<bar>n\<bar>" using low by simp
    then have "n = 2 ^ 53 \<or> n = - (2 ^ 53)" using assms by linarith
    then have "rat_of_int n / pow2 (?k - 52) = of_int (n div 2)" unfolding k by (auto simp: pow2_def)
    then show ?thesis by blast
  qed
  then obtain m where m: "rat_of_int n / pow2 (?k - 52) = of_int m" by blast
  then have "f64 (of_int n) = of_int m * pow2 (?k - 52)" using False by (simp add: f64_def e Let_def)
  also have "\<dots> = of_int n" using m [symmetric] by simp
  finally show ?thesis .
qed (simp add: f64_def)

text \<open>Whole seconds survive.\<close>

lemma duration_seconds_whole:
  assumes "0 \<le> s" and "s \<le> 2 ^ 53"
  shows "f64_to_int (duration_seconds (s * 1000000000)) = s"
proof -
  have "go_div (s * 1000000000) 1000000000 = s" "go_rem (s * 1000000000) 1000000000 = 0"
    using assms(1) by (simp_all add: go_div_nonneg go_rem_nonneg)
  then have "duration_seconds (s * 1000000000) = of_int s"
    using assms f64_int [of s] by (simp add: duration_seconds_def f64_def [of 0])
  then show ?thesis using assms(1) by (simp add: f64_to_int_def)
qed

end
