(* ===== verification/WG_Config.thy ===== *)
theory WG_Config
  imports Go_Net Go_Rand Go_IO Go_Float
begin

unbundle bit_operations_syntax

text \<open>
  \<open>pkg/wg/types.go\<close>, \<open>keygen.go\<close>, \<open>interface_name.go\<close>, \<open>transport.go\<close> and \<open>config.go\<close>: keys, the configuration
  of a device and of its peers, and the INI form in which configurations are stored. A key is a list of 32
  bytes. Resolving a host name and multiplying on the curve are parameters.
\<close>

section \<open>Keys\<close>

type_synonym key = bytes

datatype wg_error =
    KeyBase64
  | KeyHex
  | KeyLength nat
  | RandomFailed string
  | NameRequired
  | NameTooLong string
  | NameDotDot string
  | NameBadChar string
  | PathRequired
  | OpenFailed string
  | InvalidLine string
  | UnknownSection string
  | OutsidePeer string
  | FieldInvalid string string
  | KeyInvalid string wg_error
  | ScanFailed string
  | ScanTooLong

definition zero_key :: key where "zero_key = replicate 32 CHR 0x00"

definition NewKey :: "bytes \<Rightarrow> wg_error + key" where
  "NewKey b = (if length b \<noteq> 32 then Inl (KeyLength (length b)) else Inr b)"

definition ParseKey :: "string \<Rightarrow> wg_error + key" where
  "ParseKey s = (case b64_decode b64_std True s of None \<Rightarrow> Inl KeyBase64 | Some b \<Rightarrow> NewKey b)"

definition Key_String :: "key \<Rightarrow> string" where
  "Key_String k = b64_encode b64_std True k"

definition Key_IsZero :: "key \<Rightarrow> bool" where
  "Key_IsZero k = list_all (\<lambda>b. b = CHR 0x00) k"

definition MarshalText :: "key \<Rightarrow> string" where "MarshalText k = Key_String k"

definition UnmarshalText :: "string \<Rightarrow> wg_error + key" where
  "UnmarshalText s = map_err (KeyInvalid ''text'') (ParseKey s)"

definition GenerateKey :: "(wg_error, key) random" where
  "GenerateKey g =
     (case rs_crypto_error g of
        Some e \<Rightarrow> (Inl (RandomFailed e), g)
      | None \<Rightarrow> (case rand_many 256 32 g of (ds, g') \<Rightarrow> (Inr (map char_of ds), g')))"

definition clamp :: "key \<Rightarrow> key" where
  "clamp k =
     (let k1 = k[0 := char_of (byte_val (k ! 0) AND 248)];
          k2 = k1[31 := char_of (byte_val (k1 ! 31) AND 127)]
      in k2[31 := char_of (byte_val (k2 ! 31) OR 64)])"

definition GeneratePrivateKey :: "(wg_error, key) random" where
  "GeneratePrivateKey = rnd_bind GenerateKey (\<lambda>k. rnd_return (clamp k))"

section \<open>Interface names\<close>

definition maxInterfaceNameLength :: nat where "maxInterfaceNameLength = 15"

fun containsDotDot :: "string \<Rightarrow> bool" where
  "containsDotDot (a # b # s) = (a = CHR ''.'' \<and> b = CHR ''.'' \<or> containsDotDot (b # s))"
| "containsDotDot _ = False"

definition name_char :: "char \<Rightarrow> bool" where
  "name_char c \<longleftrightarrow> is_upper c \<or> is_lower c \<or> is_digit c \<or> c = CHR ''_'' \<or> c = CHR ''.'' \<or> c = CHR ''-''"

definition ValidateInterfaceName :: "string \<Rightarrow> wg_error + unit" where
  "ValidateInterfaceName name =
     (if name = [] then Inl NameRequired
      else if length name > maxInterfaceNameLength then Inl (NameTooLong name)
      else if containsDotDot name then Inl (NameDotDot name)
      else if list_all name_char name then Inr () else Inl (NameBadChar name))"

section \<open>Configurations\<close>

definition ProtocolVanilla :: string where "ProtocolVanilla = ''vanilla-wg''"
definition ProtocolAmneziaWG :: string where "ProtocolAmneziaWG = ''amneziawg''"

text \<open>\<open>net.UDPAddr\<close> with its text form; the address is in the 16-byte form.\<close>

record udp_addr =
  ua_ip :: "128 word option"
  ua_port :: int
  ua_zone :: string

definition join_host_port :: "string \<Rightarrow> string \<Rightarrow> string" where
  "join_host_port host port =
     (if CHR '':'' \<in> set host then ''['' @ host @ '']:'' @ port else host @ '':'' @ port)"

definition udp_str :: "udp_addr \<Rightarrow> string" where
  "udp_str a =
     (let ip = (case ua_ip a of None \<Rightarrow> [] | Some w \<Rightarrow> ip_str w) in
      join_host_port (if ua_zone a \<noteq> [] then ip @ ''%'' @ ua_zone a else ip) (itoa (ua_port a)))"

type_synonym udp_resolver = "string \<Rightarrow> udp_addr option"

record peer_config =
  pc_public_key :: key
  pc_remove :: bool
  pc_update_only :: bool
  pc_preshared_key :: "key option"
  pc_endpoint :: "udp_addr option"
  pc_keepalive :: "duration option"
  pc_replace_allowed_ips :: bool
  pc_allowed_ips :: "ipnet list"

definition empty_peer :: peer_config where
  "empty_peer =
     \<lparr>pc_public_key = zero_key, pc_remove = False, pc_update_only = False, pc_preshared_key = None,
      pc_endpoint = None, pc_keepalive = None, pc_replace_allowed_ips = False, pc_allowed_ips = []\<rparr>"

record wg_config =
  wc_private_key :: "key option"
  wc_listen_port :: "int option"
  wc_firewall_mark :: "int option"
  wc_replace_peers :: bool
  wc_peers :: "peer_config list"
  wc_jc :: "int option"
  wc_jmin :: "int option"
  wc_jmax :: "int option"
  wc_s1 :: "int option"
  wc_s2 :: "int option"
  wc_s3 :: "int option"
  wc_s4 :: "int option"
  wc_h1 :: "string option"
  wc_h2 :: "string option"
  wc_h3 :: "string option"
  wc_h4 :: "string option"
  wc_i1 :: "string option"
  wc_i2 :: "string option"
  wc_i3 :: "string option"
  wc_i4 :: "string option"
  wc_i5 :: "string option"

definition empty_config :: wg_config where
  "empty_config =
     \<lparr>wc_private_key = None, wc_listen_port = None, wc_firewall_mark = None, wc_replace_peers = False, wc_peers = [],
      wc_jc = None, wc_jmin = None, wc_jmax = None, wc_s1 = None, wc_s2 = None, wc_s3 = None, wc_s4 = None,
      wc_h1 = None, wc_h2 = None, wc_h3 = None, wc_h4 = None,
      wc_i1 = None, wc_i2 = None, wc_i3 = None, wc_i4 = None, wc_i5 = None\<rparr>"

section \<open>Writing configurations\<close>

text \<open>The settings as lines: none when the value is absent.\<close>

definition setting :: "string \<Rightarrow> string \<Rightarrow> string" where
  "setting name v = name @ '' = '' @ v"

definition appendStringSetting :: "string \<Rightarrow> string option \<Rightarrow> string list" where
  "appendStringSetting name v = (case v of None \<Rightarrow> [] | Some s \<Rightarrow> [setting name s])"

definition appendIntSetting :: "string \<Rightarrow> int option \<Rightarrow> string list" where
  "appendIntSetting name v = (case v of None \<Rightarrow> [] | Some n \<Rightarrow> [setting name (itoa n)])"

definition peer_lines :: "peer_config \<Rightarrow> string list" where
  "peer_lines p =
     [[], ''[Peer]'', setting ''PublicKey'' (Key_String (pc_public_key p))]
     @ (case pc_preshared_key p of None \<Rightarrow> [] | Some k \<Rightarrow> [setting ''PresharedKey'' (Key_String k)])
     @ (case pc_endpoint p of None \<Rightarrow> [] | Some a \<Rightarrow> [setting ''Endpoint'' (udp_str a)])
     @ (case pc_keepalive p of None \<Rightarrow> [] | Some d \<Rightarrow>
          [setting ''PersistentKeepalive'' (itoa (f64_to_int (duration_seconds d)))])
     @ (if pc_allowed_ips p = [] then []
        else [setting ''AllowedIPs'' (join '', '' (map net_str (pc_allowed_ips p)))])"

definition GenerateConfig :: "wg_config \<Rightarrow> peer_config list \<Rightarrow> string" where
  "GenerateConfig cfg peers = unlines (
     [''[Interface]'']
     @ (case wc_private_key cfg of None \<Rightarrow> [] | Some k \<Rightarrow> [setting ''PrivateKey'' (Key_String k)])
     @ (case wc_listen_port cfg of None \<Rightarrow> [] | Some n \<Rightarrow> [setting ''ListenPort'' (itoa n)])
     @ appendIntSetting ''Jc'' (wc_jc cfg) @ appendIntSetting ''Jmin'' (wc_jmin cfg) @ appendIntSetting ''Jmax'' (wc_jmax cfg)
     @ appendIntSetting ''S1'' (wc_s1 cfg) @ appendIntSetting ''S2'' (wc_s2 cfg)
     @ appendIntSetting ''S3'' (wc_s3 cfg) @ appendIntSetting ''S4'' (wc_s4 cfg)
     @ appendStringSetting ''H1'' (wc_h1 cfg) @ appendStringSetting ''H2'' (wc_h2 cfg)
     @ appendStringSetting ''H3'' (wc_h3 cfg) @ appendStringSetting ''H4'' (wc_h4 cfg)
     @ appendStringSetting ''I1'' (wc_i1 cfg) @ appendStringSetting ''I2'' (wc_i2 cfg) @ appendStringSetting ''I3'' (wc_i3 cfg)
     @ appendStringSetting ''I4'' (wc_i4 cfg) @ appendStringSetting ''I5'' (wc_i5 cfg)
     @ concat (map peer_lines peers))"

section \<open>Reading configurations\<close>

definition parseIntField :: "string \<Rightarrow> string \<Rightarrow> wg_error + int" where
  "parseIntField v fieldName = (case atoi v of None \<Rightarrow> Inl (FieldInvalid fieldName v) | Some n \<Rightarrow> Inr n)"

definition parseInterfaceKV :: "wg_config \<Rightarrow> string \<Rightarrow> string \<Rightarrow> wg_error + wg_config" where
  "parseInterfaceKV cfg k v =
     (if k = ''privatekey'' then rbind (map_err (KeyInvalid ''Interface PrivateKey'') (ParseKey v)) (\<lambda>x. Inr (cfg\<lparr>wc_private_key := Some x\<rparr>))
      else if k = ''listenport'' then rbind (parseIntField v ''Interface ListenPort'') (\<lambda>n. Inr (cfg\<lparr>wc_listen_port := Some n\<rparr>))
      else if k = ''fwmark'' then rbind (parseIntField v ''Interface FwMark'') (\<lambda>n. Inr (cfg\<lparr>wc_firewall_mark := Some n\<rparr>))
      else if k = ''jc'' then rbind (parseIntField v ''Interface Jc'') (\<lambda>n. Inr (cfg\<lparr>wc_jc := Some n\<rparr>))
      else if k = ''jmin'' then rbind (parseIntField v ''Interface Jmin'') (\<lambda>n. Inr (cfg\<lparr>wc_jmin := Some n\<rparr>))
      else if k = ''jmax'' then rbind (parseIntField v ''Interface Jmax'') (\<lambda>n. Inr (cfg\<lparr>wc_jmax := Some n\<rparr>))
      else if k = ''s1'' then rbind (parseIntField v ''Interface S1'') (\<lambda>n. Inr (cfg\<lparr>wc_s1 := Some n\<rparr>))
      else if k = ''s2'' then rbind (parseIntField v ''Interface S2'') (\<lambda>n. Inr (cfg\<lparr>wc_s2 := Some n\<rparr>))
      else if k = ''s3'' then rbind (parseIntField v ''Interface S3'') (\<lambda>n. Inr (cfg\<lparr>wc_s3 := Some n\<rparr>))
      else if k = ''s4'' then rbind (parseIntField v ''Interface S4'') (\<lambda>n. Inr (cfg\<lparr>wc_s4 := Some n\<rparr>))
      else if k = ''h1'' then Inr (cfg\<lparr>wc_h1 := Some v\<rparr>)
      else if k = ''h2'' then Inr (cfg\<lparr>wc_h2 := Some v\<rparr>)
      else if k = ''h3'' then Inr (cfg\<lparr>wc_h3 := Some v\<rparr>)
      else if k = ''h4'' then Inr (cfg\<lparr>wc_h4 := Some v\<rparr>)
      else if k = ''i1'' then Inr (cfg\<lparr>wc_i1 := Some v\<rparr>)
      else if k = ''i2'' then Inr (cfg\<lparr>wc_i2 := Some v\<rparr>)
      else if k = ''i3'' then Inr (cfg\<lparr>wc_i3 := Some v\<rparr>)
      else if k = ''i4'' then Inr (cfg\<lparr>wc_i4 := Some v\<rparr>)
      else if k = ''i5'' then Inr (cfg\<lparr>wc_i5 := Some v\<rparr>)
      else Inr cfg)"

fun parse_cidrs :: "string list \<Rightarrow> wg_error + ipnet list" where
  "parse_cidrs [] = Inr []"
| "parse_cidrs (c # cs) =
     (let trimmed = trim_space c in
      if trimmed = [] then parse_cidrs cs
      else case parse_cidr trimmed of
        None \<Rightarrow> Inl (FieldInvalid ''Peer AllowedIPs'' trimmed)
      | Some (_, net) \<Rightarrow> rbind (parse_cidrs cs) (\<lambda>ns. Inr (net # ns)))"

definition parsePeerKV :: "udp_resolver \<Rightarrow> peer_config \<Rightarrow> string \<Rightarrow> string \<Rightarrow> wg_error + peer_config" where
  "parsePeerKV resolve peer k v =
     (if k = ''publickey'' then rbind (map_err (KeyInvalid ''Peer PublicKey'') (ParseKey v)) (\<lambda>x. Inr (peer\<lparr>pc_public_key := x\<rparr>))
      else if k = ''presharedkey'' then
        rbind (map_err (KeyInvalid ''Peer PresharedKey'') (ParseKey v)) (\<lambda>x. Inr (peer\<lparr>pc_preshared_key := Some x\<rparr>))
      else if k = ''endpoint'' then
        (case resolve v of
           None \<Rightarrow> Inl (FieldInvalid ''Peer Endpoint'' v)
         | Some a \<Rightarrow> Inr (peer\<lparr>pc_endpoint := Some a\<rparr>))
      else if k = ''persistentkeepalive'' then
        rbind (parseIntField v ''Peer PersistentKeepalive'') (\<lambda>seconds.
          Inr (peer\<lparr>pc_keepalive := Some (wrap64 (seconds * 1000000000))\<rparr>))
      else if k = ''allowedips'' then
        rbind (parse_cidrs (split_on CHR '','' v)) (\<lambda>ns. Inr (peer\<lparr>pc_allowed_ips := ns\<rparr>))
      else Inr peer)"

record parse_state =
  st_cfg :: wg_config
  st_peers :: "peer_config list"
  st_section :: string
  st_current :: "peer_config option"

definition flushPeer :: "parse_state \<Rightarrow> parse_state" where
  "flushPeer st =
     (case st_current st of None \<Rightarrow> st | Some p \<Rightarrow> st\<lparr>st_peers := st_peers st @ [p], st_current := None\<rparr>)"

definition parse_line :: "udp_resolver \<Rightarrow> string \<Rightarrow> parse_state \<Rightarrow> wg_error + parse_state" where
  "parse_line resolve text st =
     (let line = trim_space text in
      if line = [] \<or> hd line = CHR ''#'' \<or> hd line = CHR '';'' then Inr st
      else if hd line = CHR ''['' \<and> last line = CHR '']'' then
        (let section = to_lower (trim_space (tl (butlast line)));
             st1 = (flushPeer st)\<lparr>st_section := section\<rparr>
         in Inr (if section = ''peer'' then st1\<lparr>st_current := Some empty_peer\<rparr> else st1))
      else case cut CHR ''='' line of
        None \<Rightarrow> Inl (InvalidLine line)
      | Some (k, v) \<Rightarrow>
          (let k = to_lower (trim_space k); v = trim_space v in
           if st_section st = ''interface'' then rbind (parseInterfaceKV (st_cfg st) k v) (\<lambda>c. Inr (st\<lparr>st_cfg := c\<rparr>))
           else if st_section st = ''peer'' then
             (case st_current st of
                None \<Rightarrow> Inl (OutsidePeer k)
              | Some p \<Rightarrow> rbind (parsePeerKV resolve p k v) (\<lambda>p. Inr (st\<lparr>st_current := Some p\<rparr>)))
           else Inl (UnknownSection k)))"

fun parse_all :: "udp_resolver \<Rightarrow> string list \<Rightarrow> parse_state \<Rightarrow> wg_error + parse_state" where
  "parse_all resolve [] st = Inr st"
| "parse_all resolve (l # ls) st = rbind (parse_line resolve l st) (parse_all resolve ls)"

definition initial_state :: parse_state where
  "initial_state = \<lparr>st_cfg = empty_config, st_peers = [], st_section = [], st_current = None\<rparr>"

text \<open>
  \<open>ParseConfigFile\<close>: opening the file gives an error, or the bytes that can be read and the error that ends the
  reading, if any.
\<close>

definition ParseConfigFile ::
  "(string \<Rightarrow> string + string \<times> string option) \<Rightarrow> udp_resolver \<Rightarrow> string \<Rightarrow> wg_error + (wg_config \<times> peer_config list)" where
  "ParseConfigFile open_file resolve path =
     (if trim_space path = [] then Inl PathRequired
      else case open_file path of
        Inl e \<Rightarrow> Inl (OpenFailed e)
      | Inr (content, read_error) \<Rightarrow>
          (case scan_lines content of (lines, too_long) \<Rightarrow>
             rbind (parse_all resolve lines initial_state) (\<lambda>st.
               if too_long then Inl ScanTooLong
               else case read_error of
                 Some e \<Rightarrow> Inl (ScanFailed e)
               | None \<Rightarrow> (let peers = st_peers (flushPeer st) in Inr ((st_cfg st)\<lparr>wc_peers := peers\<rparr>, peers)))))"

section \<open>Clamped keys\<close>

lemma GenerateKey_length: "GenerateKey g = (Inr k, g') \<Longrightarrow> length k = 32"
  by (auto simp: GenerateKey_def dest: rand_many_facts split: option.splits prod.splits)

text \<open>A private key is a valid scalar: a multiple of eight with the second highest bit set and the highest clear.\<close>

lemma clamp_bits:
  fixes n :: nat
  assumes "n < 256"
  shows "8 dvd (n AND 248) \<and> n AND 248 < 256 \<and> n AND 127 < 256 \<and> 64 \<le> ((n AND 127) OR 64) \<and> ((n AND 127) OR 64) < 128"
proof -
  have "take_bit 3 (n AND 248) = take_bit 3 n AND take_bit 3 (248 :: nat)" by (rule take_bit_and)
  also have "take_bit 3 (248 :: nat) = 0" by (simp add: take_bit_eq_mod)
  finally have 1: "8 dvd (n AND 248)" by (simp add: take_bit_eq_mod dvd_eq_mod_eq_0)
  have "take_bit 8 (n AND 248) = n AND 248"
    using assms by (simp add: take_bit_nat_eq_self)
  then have 2: "n AND 248 < 256" using take_bit_nat_less_exp [of 8 "n AND 248"] by simp
  have m: "n AND 127 = take_bit 7 n" using take_bit_eq_mask [of 7 n] by (simp add: mask_eq_exp_minus_1)
  then have 3: "n AND 127 < 128" using take_bit_nat_less_exp [of 7 n] by simp
  have "(n AND 127) OR 64 = take_bit 7 (n OR 64)" by (simp add: m take_bit_or take_bit_eq_mod [of 7 64])
  then have 4: "(n AND 127) OR 64 < 128" using take_bit_nat_less_exp [of 7 "n OR 64"] by simp
  have "(64 :: int) \<le> 64 OR int (n AND 127)" by (rule or_greater_eq) simp
  also have "\<dots> = int ((n AND 127) OR 64)" using of_nat_or_eq [of "n AND 127" 64, where ?'a = int] by (simp add: or.commute)
  finally have 5: "64 \<le> ((n AND 127) OR 64)" by simp
  show ?thesis using 1 2 3 4 5 by linarith
qed

lemma GeneratePrivateKey_clamped:
  assumes "GeneratePrivateKey g = (Inr k, g')"
  shows "length k = 32 \<and> 8 dvd byte_val (k ! 0) \<and> 64 \<le> byte_val (k ! 31) \<and> byte_val (k ! 31) < 128"
proof -
  obtain k0 where k: "length k0 = 32" "k = clamp k0"
    using assms by (auto simp: GeneratePrivateKey_def rnd_simps dest: GenerateKey_length)
  have bits: "8 dvd (byte_val c AND 248) \<and> byte_val c AND 248 < 256 \<and> byte_val c AND 127 < 256
     \<and> 64 \<le> ((byte_val c AND 127) OR 64) \<and> ((byte_val c AND 127) OR 64) < 128" for c
    by (rule clamp_bits) simp
  have "k ! 0 = char_of (byte_val (k0 ! 0) AND 248)"
    "k ! 31 = char_of (((byte_val (k0 ! 31) AND 127) mod 256) OR 64)" "length k = 32"
    using k by (simp_all add: clamp_def Let_def)
  then show ?thesis using bits [of "k0 ! 0"] bits [of "k0 ! 31"] by simp
qed

section \<open>Round trip\<close>

text \<open>One-line texts without white space at their ends.\<close>

definition value_ok :: "string \<Rightarrow> bool" where
  "value_ok v \<longleftrightarrow> v \<noteq> [] \<and> plain_byte (hd v) \<and> plain_byte (last v) \<and> CHR 0x0A \<notin> set v"

definition name_ok :: "string \<Rightarrow> bool" where
  "name_ok n \<longleftrightarrow> value_ok n \<and> CHR ''='' \<notin> set n \<and> hd n \<noteq> CHR ''['' \<and> hd n \<noteq> CHR ''#'' \<and> hd n \<noteq> CHR '';''"

lemma strip_space: "strip_toks go_spaces (CHR '' '' # s) = strip_toks go_spaces s"
  by (subst strip_toks.simps) (simp add: go_spaces_def)

lemma strip_space_rev: "strip_toks (map rev go_spaces) (CHR '' '' # s) = strip_toks (map rev go_spaces) s"
  by (subst strip_toks.simps) (simp add: go_spaces_def)

lemma trim_space_left: "trim_space (CHR '' '' # s) = trim_space s"
  by (simp add: trim_space_def strip_space)

lemma strip_plain: "s \<noteq> [] \<Longrightarrow> plain_byte (hd s) \<Longrightarrow> strip_toks go_spaces s = s"
  using go_spaces_nonempty by (intro strip_toks_id) (auto simp: plain_byte_def prefix_def)

lemma strip_plain_rev: "s \<noteq> [] \<Longrightarrow> plain_byte (last s) \<Longrightarrow> strip_toks (map rev go_spaces) (rev s) = rev s"
proof (intro strip_toks_id)
  fix t assume s: "s \<noteq> []" "plain_byte (last s)" and t: "t \<in> set (map rev go_spaces)" "t \<noteq> []"
  show "\<not> prefix t (rev s)"
  proof
    assume "prefix t (rev s)"
    then have "hd t = last s" using s t(2) by (auto simp: prefix_def hd_append hd_rev [symmetric])
    moreover have "hd t = last (rev t)" using t(2) by (simp add: last_rev)
    ultimately show False using s(2) t(1) by (auto simp: plain_byte_def)
  qed
qed

lemma trim_space_plain: "value_ok v \<Longrightarrow> trim_space v = v"
  by (simp add: trim_space_def value_ok_def strip_plain strip_plain_rev)

lemma trim_space_right: "value_ok v \<Longrightarrow> trim_space (v @ '' '') = v"
  by (simp add: trim_space_def value_ok_def strip_plain strip_plain_rev strip_space_rev)

lemma setting_line_ok: "name_ok n \<Longrightarrow> value_ok v \<Longrightarrow> value_ok (setting n v)"
  by (auto simp: setting_def name_ok_def value_ok_def)

text \<open>Settings of the two sections.\<close>

lemma parse_line_setting:
  assumes n: "name_ok n" and v: "value_ok v"
  shows "parse_line r (setting n v) st =
     (if st_section st = ''interface'' then rbind (parseInterfaceKV (st_cfg st) (to_lower n) v) (\<lambda>c. Inr (st\<lparr>st_cfg := c\<rparr>))
      else if st_section st = ''peer'' then
        (case st_current st of
           None \<Rightarrow> Inl (OutsidePeer (to_lower n))
         | Some p \<Rightarrow> rbind (parsePeerKV r p (to_lower n) v) (\<lambda>p. Inr (st\<lparr>st_current := Some p\<rparr>)))
      else Inl (UnknownSection (to_lower n)))"
proof -
  have line: "trim_space (setting n v) = setting n v"
    by (rule trim_space_plain [OF setting_line_ok [OF n v]])
  have ne: "n \<noteq> []" and hd: "hd (setting n v) = hd n" "setting n v \<noteq> []"
    using n by (auto simp: setting_def name_ok_def value_ok_def)
  have "CHR ''='' \<notin> set (n @ '' '')" using n by (simp add: name_ok_def)
  from cut_append [OF this, of "CHR '' '' # v"]
  have c: "cut CHR ''='' (setting n v) = Some (n @ '' '', CHR '' '' # v)" by (simp add: setting_def)
  have nv: "value_ok n" using n by (simp add: name_ok_def)
  show ?thesis
    unfolding parse_line_def line Let_def hd(1) c
    using n hd(2) by (simp add: name_ok_def trim_space_left trim_space_plain [OF v] trim_space_right [OF nv, simplified]
        cong: option.case_cong)
qed

lemma plain_bytes [simp]: "plain_byte CHR ''-''" "plain_byte CHR ''=''"
  by code_simp+

lemma digit_plain: "is_digit c \<Longrightarrow> plain_byte c \<and> c \<noteq> CHR 0x0A"
  by (auto simp: plain_byte_def go_spaces_def is_digit_def less_eq_char_def)

lemma itoa_value [simp]: "value_ok (itoa n)"
  using itoa_bytes [of "hd (itoa n)" n] itoa_bytes [of "last (itoa n)" n] itoa_bytes [of "CHR 0x0A" n]
  by (auto simp: value_ok_def digit_plain) (auto simp: is_digit_def less_eq_char_def)

lemma b64_value:
  assumes "length k = 32"
  shows "value_ok (Key_String k)"
proof -
  have "k \<noteq> []" using assms by auto
  then have ne: "Key_String k \<noteq> []" unfolding Key_String_def
    by (cases "(b64_std, True, k)" rule: b64_encode.cases) auto
  have "c \<in> set b64_std \<or> c = CHR ''=''" if "c \<in> set (Key_String k)" for c
    using b64_encode_chars [OF b64_alphabets(1), of True k] that by (auto simp: Key_String_def)
  moreover have "plain_byte c \<and> c \<noteq> CHR 0x0A" if "c \<in> set b64_std" for c
    using b64_alphabets(1) that by (auto simp: b64_alphabet_def list_all_iff)
  ultimately have "plain_byte c \<and> c \<noteq> CHR 0x0A" if "c \<in> set (Key_String k)" for c
    using that by fastforce
  with ne show ?thesis by (auto simp: value_ok_def)
qed

lemma ParseKey_String: "length k = 32 \<Longrightarrow> ParseKey (Key_String k) = Inr k"
  by (simp add: ParseKey_def Key_String_def b64_decode_encode NewKey_def)

lemma parseIntField_itoa: "int64_range n \<Longrightarrow> parseIntField (itoa n) f = Inr n"
  by (simp add: parseIntField_def atoi_itoa)

text \<open>The state after the settings of the interface.\<close>

abbreviation iface_state :: "wg_config \<Rightarrow> parse_state" where
  "iface_state c \<equiv> \<lparr>st_cfg = c, st_peers = [], st_section = ''interface'', st_current = None\<rparr>"

definition setting_names :: "string list" where
  "setting_names =
     [''PrivateKey'', ''ListenPort'', ''Jc'', ''Jmin'', ''Jmax'', ''S1'', ''S2'', ''S3'', ''S4'', ''H1'', ''H2'',
     ''H3'', ''H4'', ''I1'', ''I2'', ''I3'', ''I4'', ''I5'', ''PublicKey'', ''PresharedKey'', ''Endpoint'',
     ''PersistentKeepalive'', ''AllowedIPs'']"

lemma setting_names_facts:
  "list_all name_ok setting_names"
  "map to_lower setting_names =
     [''privatekey'', ''listenport'', ''jc'', ''jmin'', ''jmax'', ''s1'', ''s2'', ''s3'', ''s4'', ''h1'', ''h2'',
     ''h3'', ''h4'', ''i1'', ''i2'', ''i3'', ''i4'', ''i5'', ''publickey'', ''presharedkey'', ''endpoint'',
     ''persistentkeepalive'', ''allowedips'']"
  by code_simp+

lemma names_ok:
  "name_ok ''PrivateKey''" "name_ok ''ListenPort''" "name_ok ''Jc''" "name_ok ''Jmin''" "name_ok ''Jmax''"
  "name_ok ''S1''" "name_ok ''S2''" "name_ok ''S3''" "name_ok ''S4''" "name_ok ''H1''" "name_ok ''H2''"
  "name_ok ''H3''" "name_ok ''H4''" "name_ok ''I1''" "name_ok ''I2''" "name_ok ''I3''" "name_ok ''I4''"
  "name_ok ''I5''" "name_ok ''PublicKey''" "name_ok ''PresharedKey''" "name_ok ''Endpoint''"
  "name_ok ''PersistentKeepalive''" "name_ok ''AllowedIPs''"
  using setting_names_facts(1) by (simp_all add: setting_names_def)

lemma lower_names:
  "to_lower ''PrivateKey'' = ''privatekey''" "to_lower ''ListenPort'' = ''listenport''" "to_lower ''Jc'' = ''jc''"
  "to_lower ''Jmin'' = ''jmin''" "to_lower ''Jmax'' = ''jmax''" "to_lower ''S1'' = ''s1''"
  "to_lower ''S2'' = ''s2''" "to_lower ''S3'' = ''s3''" "to_lower ''S4'' = ''s4''" "to_lower ''H1'' = ''h1''"
  "to_lower ''H2'' = ''h2''" "to_lower ''H3'' = ''h3''" "to_lower ''H4'' = ''h4''" "to_lower ''I1'' = ''i1''"
  "to_lower ''I2'' = ''i2''" "to_lower ''I3'' = ''i3''" "to_lower ''I4'' = ''i4''" "to_lower ''I5'' = ''i5''"
  "to_lower ''PublicKey'' = ''publickey''" "to_lower ''PresharedKey'' = ''presharedkey''"
  "to_lower ''Endpoint'' = ''endpoint''" "to_lower ''PersistentKeepalive'' = ''persistentkeepalive''"
  "to_lower ''AllowedIPs'' = ''allowedips''"
  using setting_names_facts(2) unfolding setting_names_def list.map list.inject by blast+

definition int_ok :: "int option \<Rightarrow> bool" where "int_ok x \<longleftrightarrow> (\<forall>n. x = Some n \<longrightarrow> int64_range n)"
definition str_ok :: "string option \<Rightarrow> bool" where "str_ok x \<longleftrightarrow> (\<forall>v. x = Some v \<longrightarrow> value_ok v)"
definition key_ok :: "key option \<Rightarrow> bool" where "key_ok x \<longleftrightarrow> (\<forall>k. x = Some k \<longrightarrow> length k = 32)"

text \<open>What a file keeps: everything but the firewall mark and the flags for changing a running device.\<close>

definition iface_ok :: "wg_config \<Rightarrow> bool" where
  "iface_ok c \<longleftrightarrow> key_ok (wc_private_key c) \<and> int_ok (wc_listen_port c)
     \<and> list_all int_ok [wc_jc c, wc_jmin c, wc_jmax c, wc_s1 c, wc_s2 c, wc_s3 c, wc_s4 c]
     \<and> list_all str_ok [wc_h1 c, wc_h2 c, wc_h3 c, wc_h4 c, wc_i1 c, wc_i2 c, wc_i3 c, wc_i4 c, wc_i5 c]"

fun net4_ok :: "ipnet \<Rightarrow> bool" where
  "net4_ok (IPNet4 w n) = (n \<le> 32 \<and> hi_bits (32 - n) w = w)"
| "net4_ok (IPNet6 _ _) = False"

definition peer_ok :: "udp_resolver \<Rightarrow> peer_config \<Rightarrow> bool" where
  "peer_ok r p \<longleftrightarrow> length (pc_public_key p) = 32 \<and> key_ok (pc_preshared_key p)
     \<and> (\<forall>a. pc_endpoint p = Some a \<longrightarrow> value_ok (udp_str a) \<and> r (udp_str a) = Some a)
     \<and> (\<forall>d. pc_keepalive p = Some d \<longrightarrow> (\<exists>s. 0 \<le> s \<and> d = s * 1000000000) \<and> int64_range d)
     \<and> list_all net4_ok (pc_allowed_ips p)
     \<and> \<not> pc_remove p \<and> \<not> pc_update_only p \<and> \<not> pc_replace_allowed_ips p"

definition iface_lines :: "wg_config \<Rightarrow> string list" where
  "iface_lines cfg =
     (case wc_private_key cfg of None \<Rightarrow> [] | Some k \<Rightarrow> [setting ''PrivateKey'' (Key_String k)])
     @ (case wc_listen_port cfg of None \<Rightarrow> [] | Some n \<Rightarrow> [setting ''ListenPort'' (itoa n)])
     @ appendIntSetting ''Jc'' (wc_jc cfg) @ appendIntSetting ''Jmin'' (wc_jmin cfg) @ appendIntSetting ''Jmax'' (wc_jmax cfg)
     @ appendIntSetting ''S1'' (wc_s1 cfg) @ appendIntSetting ''S2'' (wc_s2 cfg)
     @ appendIntSetting ''S3'' (wc_s3 cfg) @ appendIntSetting ''S4'' (wc_s4 cfg)
     @ appendStringSetting ''H1'' (wc_h1 cfg) @ appendStringSetting ''H2'' (wc_h2 cfg)
     @ appendStringSetting ''H3'' (wc_h3 cfg) @ appendStringSetting ''H4'' (wc_h4 cfg)
     @ appendStringSetting ''I1'' (wc_i1 cfg) @ appendStringSetting ''I2'' (wc_i2 cfg) @ appendStringSetting ''I3'' (wc_i3 cfg)
     @ appendStringSetting ''I4'' (wc_i4 cfg) @ appendStringSetting ''I5'' (wc_i5 cfg)"

lemma GenerateConfig_lines:
  "GenerateConfig cfg peers = unlines (''[Interface]'' # iface_lines cfg @ concat (map peer_lines peers))"
  by (simp add: GenerateConfig_def iface_lines_def)

declare to_lower.simps [simp del]

lemma wc_same:
  "wc_private_key c = None \<Longrightarrow> c\<lparr>wc_private_key := None\<rparr> = c"
  "wc_listen_port c = None \<Longrightarrow> c\<lparr>wc_listen_port := None\<rparr> = c"
  "wc_jc c = None \<Longrightarrow> c\<lparr>wc_jc := None\<rparr> = c"
  "wc_jmin c = None \<Longrightarrow> c\<lparr>wc_jmin := None\<rparr> = c"
  "wc_jmax c = None \<Longrightarrow> c\<lparr>wc_jmax := None\<rparr> = c"
  "wc_s1 c = None \<Longrightarrow> c\<lparr>wc_s1 := None\<rparr> = c"
  "wc_s2 c = None \<Longrightarrow> c\<lparr>wc_s2 := None\<rparr> = c"
  "wc_s3 c = None \<Longrightarrow> c\<lparr>wc_s3 := None\<rparr> = c"
  "wc_s4 c = None \<Longrightarrow> c\<lparr>wc_s4 := None\<rparr> = c"
  "wc_h1 c = None \<Longrightarrow> c\<lparr>wc_h1 := None\<rparr> = c"
  "wc_h2 c = None \<Longrightarrow> c\<lparr>wc_h2 := None\<rparr> = c"
  "wc_h3 c = None \<Longrightarrow> c\<lparr>wc_h3 := None\<rparr> = c"
  "wc_h4 c = None \<Longrightarrow> c\<lparr>wc_h4 := None\<rparr> = c"
  "wc_i1 c = None \<Longrightarrow> c\<lparr>wc_i1 := None\<rparr> = c"
  "wc_i2 c = None \<Longrightarrow> c\<lparr>wc_i2 := None\<rparr> = c"
  "wc_i3 c = None \<Longrightarrow> c\<lparr>wc_i3 := None\<rparr> = c"
  "wc_i4 c = None \<Longrightarrow> c\<lparr>wc_i4 := None\<rparr> = c"
  "wc_i5 c = None \<Longrightarrow> c\<lparr>wc_i5 := None\<rparr> = c"
  by (cases c, simp)+

lemma parse_key_setting:
  assumes "key_ok x" and "wc_private_key c = None"
  shows "parse_all r ((case x of None \<Rightarrow> [] | Some k \<Rightarrow> [setting ''PrivateKey'' (Key_String k)]) @ ls) (iface_state c)
     = parse_all r ls (iface_state (c\<lparr>wc_private_key := x\<rparr>))"
  using assms by (cases x)
    (simp_all add: key_ok_def wc_same parse_line_setting names_ok lower_names b64_value parseInterfaceKV_def ParseKey_String)

lemma parse_port_setting:
  assumes "int_ok x" and "wc_listen_port c = None"
  shows "parse_all r ((case x of None \<Rightarrow> [] | Some n \<Rightarrow> [setting ''ListenPort'' (itoa n)]) @ ls) (iface_state c)
     = parse_all r ls (iface_state (c\<lparr>wc_listen_port := x\<rparr>))"
  using assms by (cases x)
    (simp_all add: int_ok_def wc_same parse_line_setting names_ok lower_names parseInterfaceKV_def parseIntField_itoa)

lemma parse_int_fields:
  assumes "int_ok x"
  shows "wc_jc c = None \<Longrightarrow> parse_all r (appendIntSetting ''Jc'' x @ ls) (iface_state c) = parse_all r ls (iface_state (c\<lparr>wc_jc := x\<rparr>))"
    and "wc_jmin c = None \<Longrightarrow> parse_all r (appendIntSetting ''Jmin'' x @ ls) (iface_state c) = parse_all r ls (iface_state (c\<lparr>wc_jmin := x\<rparr>))"
    and "wc_jmax c = None \<Longrightarrow> parse_all r (appendIntSetting ''Jmax'' x @ ls) (iface_state c) = parse_all r ls (iface_state (c\<lparr>wc_jmax := x\<rparr>))"
    and "wc_s1 c = None \<Longrightarrow> parse_all r (appendIntSetting ''S1'' x @ ls) (iface_state c) = parse_all r ls (iface_state (c\<lparr>wc_s1 := x\<rparr>))"
    and "wc_s2 c = None \<Longrightarrow> parse_all r (appendIntSetting ''S2'' x @ ls) (iface_state c) = parse_all r ls (iface_state (c\<lparr>wc_s2 := x\<rparr>))"
    and "wc_s3 c = None \<Longrightarrow> parse_all r (appendIntSetting ''S3'' x @ ls) (iface_state c) = parse_all r ls (iface_state (c\<lparr>wc_s3 := x\<rparr>))"
    and "wc_s4 c = None \<Longrightarrow> parse_all r (appendIntSetting ''S4'' x @ ls) (iface_state c) = parse_all r ls (iface_state (c\<lparr>wc_s4 := x\<rparr>))"
  using assms by (cases x, simp_all add: appendIntSetting_def int_ok_def wc_same parse_line_setting names_ok lower_names
      parseInterfaceKV_def parseIntField_itoa)+

lemma parse_str_fields:
  assumes "str_ok x"
  shows "wc_h1 c = None \<Longrightarrow> parse_all r (appendStringSetting ''H1'' x @ ls) (iface_state c) = parse_all r ls (iface_state (c\<lparr>wc_h1 := x\<rparr>))"
    and "wc_h2 c = None \<Longrightarrow> parse_all r (appendStringSetting ''H2'' x @ ls) (iface_state c) = parse_all r ls (iface_state (c\<lparr>wc_h2 := x\<rparr>))"
    and "wc_h3 c = None \<Longrightarrow> parse_all r (appendStringSetting ''H3'' x @ ls) (iface_state c) = parse_all r ls (iface_state (c\<lparr>wc_h3 := x\<rparr>))"
    and "wc_h4 c = None \<Longrightarrow> parse_all r (appendStringSetting ''H4'' x @ ls) (iface_state c) = parse_all r ls (iface_state (c\<lparr>wc_h4 := x\<rparr>))"
    and "wc_i1 c = None \<Longrightarrow> parse_all r (appendStringSetting ''I1'' x @ ls) (iface_state c) = parse_all r ls (iface_state (c\<lparr>wc_i1 := x\<rparr>))"
    and "wc_i2 c = None \<Longrightarrow> parse_all r (appendStringSetting ''I2'' x @ ls) (iface_state c) = parse_all r ls (iface_state (c\<lparr>wc_i2 := x\<rparr>))"
    and "wc_i3 c = None \<Longrightarrow> parse_all r (appendStringSetting ''I3'' x @ ls) (iface_state c) = parse_all r ls (iface_state (c\<lparr>wc_i3 := x\<rparr>))"
    and "wc_i4 c = None \<Longrightarrow> parse_all r (appendStringSetting ''I4'' x @ ls) (iface_state c) = parse_all r ls (iface_state (c\<lparr>wc_i4 := x\<rparr>))"
    and "wc_i5 c = None \<Longrightarrow> parse_all r (appendStringSetting ''I5'' x @ ls) (iface_state c) = parse_all r ls (iface_state (c\<lparr>wc_i5 := x\<rparr>))"
  using assms by (cases x, simp_all add: appendStringSetting_def str_ok_def wc_same parse_line_setting names_ok lower_names
      parseInterfaceKV_def)+

lemma parse_iface:
  assumes "iface_ok cfg"
  shows "parse_all r (iface_lines cfg @ ls) (iface_state empty_config)
     = parse_all r ls (iface_state (cfg\<lparr>wc_firewall_mark := None, wc_replace_peers := False, wc_peers := []\<rparr>))"
proof -
  have "parse_all r (iface_lines cfg @ ls) (iface_state empty_config) = parse_all r ls (iface_state
      \<lparr>wc_private_key = wc_private_key cfg, wc_listen_port = wc_listen_port cfg, wc_firewall_mark = None, wc_replace_peers = False,
       wc_peers = [], wc_jc = wc_jc cfg, wc_jmin = wc_jmin cfg, wc_jmax = wc_jmax cfg, wc_s1 = wc_s1 cfg, wc_s2 = wc_s2 cfg,
       wc_s3 = wc_s3 cfg, wc_s4 = wc_s4 cfg, wc_h1 = wc_h1 cfg, wc_h2 = wc_h2 cfg, wc_h3 = wc_h3 cfg, wc_h4 = wc_h4 cfg,
       wc_i1 = wc_i1 cfg, wc_i2 = wc_i2 cfg, wc_i3 = wc_i3 cfg, wc_i4 = wc_i4 cfg, wc_i5 = wc_i5 cfg\<rparr>)"
    using assms unfolding iface_lines_def append_assoc empty_config_def
    by (simp add: iface_ok_def parse_key_setting parse_port_setting parse_int_fields parse_str_fields)
  then show ?thesis by (cases cfg) simp
qed

abbreviation peer_state :: "parse_state \<Rightarrow> peer_config \<Rightarrow> parse_state" where
  "peer_state st p \<equiv> st\<lparr>st_section := ''peer'', st_current := Some p\<rparr>"

lemma parse_peer_header:
  "parse_all r ([] # ''[Peer]'' # ls) st = parse_all r ls (peer_state (flushPeer st) empty_peer)"
proof -
  have "trim_space ''[Peer]'' = ''[Peer]''" "to_lower (trim_space ''Peer'') = ''peer''" by code_simp+
  then show ?thesis by (simp add: parse_line_def)
qed

lemma net4_value:
  assumes "net4_ok n"
  shows "value_ok (net_str n) \<and> CHR '','' \<notin> set (net_str n) \<and> (\<exists>ip. parse_cidr (net_str n) = Some (ip, n))"
proof -
  obtain w k where n: "n = IPNet4 w k" "k \<le> 32" "hi_bits (32 - k) w = w" using assms by (cases n) auto
  have str: "net_str n = v4_str w @ CHR ''/'' # nat_str k" by (simp add: net_str_def norm_net_def n)
  have chars: "is_digit c \<or> c = CHR ''.'' \<or> c = CHR ''/''" if "c \<in> set (net_str n)" for c
    using that v4_str_chars [of c w] nat_str_digits [of c k] by (auto simp: str)
  have plain: "plain_byte c \<and> c \<noteq> CHR 0x0A \<and> c \<noteq> CHR '',''" if "c \<in> set (net_str n)" for c
  proof -
    have "plain_byte CHR ''.''" "plain_byte CHR ''/''" by code_simp+
    then show ?thesis using chars [OF that] digit_plain [of c] by (auto simp: is_digit_def less_eq_char_def)
  qed
  have "net_str n \<noteq> []" by (simp add: str)
  then have "value_ok (net_str n)" using plain hd_in_set last_in_set unfolding value_ok_def by metis
  moreover have "CHR '','' \<notin> set (net_str n)" using plain by blast
  moreover have "parse_cidr (net_str n) = Some (v4_in_6 w, n)" using parse_cidr_v4_str [OF n(2), of w] n(1,3) unfolding str by simp
  ultimately show ?thesis by blast
qed

lemma split_on_Cons_other: "c \<noteq> x \<Longrightarrow> split_on c (x # s) = (x # hd (split_on c s)) # tl (split_on c s)"
  by (cases "split_on c s") simp_all

lemma parse_cidrs_pad: "parse_cidrs (split_on CHR '','' (CHR '' '' # s)) = parse_cidrs (split_on CHR '','' s)"
proof -
  obtain x xs where x: "split_on CHR '','' s = x # xs" by (cases "split_on CHR '','' s") simp_all
  then have "split_on CHR '','' (CHR '' '' # s) = (CHR '' '' # x) # xs" by (simp add: split_on_Cons_other)
  then show ?thesis by (simp add: x trim_space_left)
qed

lemma parse_cidrs_join:
  "list_all net4_ok ns \<Longrightarrow> parse_cidrs (split_on CHR '','' (join '', '' (map net_str ns))) = Inr ns"
proof (induction ns)
  case (Cons n ns)
  then have n: "value_ok (net_str n)" "CHR '','' \<notin> set (net_str n)" and "\<exists>ip. parse_cidr (net_str n) = Some (ip, n)"
    using net4_value [of n] by simp_all
  then obtain ip where c: "parse_cidr (net_str n) = Some (ip, n)" by blast
  have ne: "net_str n \<noteq> []" using n(1) by (simp add: value_ok_def)
  show ?case
  proof (cases ns)
    case Nil
    then show ?thesis using n c ne by (simp add: split_on_no_occ trim_space_plain)
  next
    case (Cons m ms)
    then have "join '', '' (map net_str (n # ns)) = net_str n @ CHR '','' # CHR '' '' # join '', '' (map net_str ns)" by simp
    then show ?thesis
      using Cons.IH Cons.prems n c ne by (simp add: split_on_append_sep parse_cidrs_pad trim_space_plain del: split_on.simps)
  qed
qed simp

lemma join_value:
  assumes "list_all net4_ok ns" and "ns \<noteq> []"
  shows "value_ok (join '', '' (map net_str ns))"
  using assms
proof (induction ns)
  case (Cons n ns)
  then have n: "value_ok (net_str n)" using net4_value [of n] by simp
  show ?case
  proof (cases ns)
    case (Cons m ms)
    then have j: "join '', '' (map net_str (n # ns)) = net_str n @ CHR '','' # CHR '' '' # join '', '' (map net_str ns)" by simp
    have "value_ok (join '', '' (map net_str ns))" using Cons.IH Cons.prems Cons by simp
    then show ?thesis unfolding j using n by (auto simp: value_ok_def)
  qed (use n in simp)
qed simp

lemma keepalive_whole:
  assumes "0 \<le> s" and "int64_range (s * 1000000000)"
  shows "f64_to_int (duration_seconds (s * 1000000000)) = s \<and> int64_range s"
proof -
  have "s \<le> 2 ^ 53" using assms by (simp add: int64_range_def max_int64_def)
  then show ?thesis using duration_seconds_whole [of s] assms by (auto simp: int64_range_def max_int64_def min_int64_def)
qed

lemma pc_same:
  "pc_preshared_key p = None \<Longrightarrow> p\<lparr>pc_preshared_key := None\<rparr> = p"
  "pc_endpoint p = None \<Longrightarrow> p\<lparr>pc_endpoint := None\<rparr> = p"
  "pc_keepalive p = None \<Longrightarrow> p\<lparr>pc_keepalive := None\<rparr> = p"
  "pc_allowed_ips p = [] \<Longrightarrow> p\<lparr>pc_allowed_ips := []\<rparr> = p"
  by (cases p, simp)+

lemma parse_public_key:
  "length k = 32 \<Longrightarrow> parse_all r (setting ''PublicKey'' (Key_String k) # ls) (peer_state st p)
     = parse_all r ls (peer_state st (p\<lparr>pc_public_key := k\<rparr>))"
  by (simp add: parse_line_setting names_ok lower_names parsePeerKV_def b64_value ParseKey_String)

lemma parse_psk:
  assumes "key_ok x" and "pc_preshared_key p = None"
  shows "parse_all r ((case x of None \<Rightarrow> [] | Some k \<Rightarrow> [setting ''PresharedKey'' (Key_String k)]) @ ls) (peer_state st p)
     = parse_all r ls (peer_state st (p\<lparr>pc_preshared_key := x\<rparr>))"
  using assms by (cases x)
    (simp_all add: pc_same key_ok_def parse_line_setting names_ok lower_names parsePeerKV_def b64_value ParseKey_String)

lemma parse_endpoint:
  assumes "\<And>a. x = Some a \<Longrightarrow> value_ok (udp_str a) \<and> r (udp_str a) = Some a" and "pc_endpoint p = None"
  shows "parse_all r ((case x of None \<Rightarrow> [] | Some a \<Rightarrow> [setting ''Endpoint'' (udp_str a)]) @ ls) (peer_state st p)
     = parse_all r ls (peer_state st (p\<lparr>pc_endpoint := x\<rparr>))"
  using assms by (cases x) (simp_all add: pc_same parse_line_setting names_ok lower_names parsePeerKV_def)

lemma parse_keepalive:
  assumes "\<And>d. x = Some d \<Longrightarrow> (\<exists>s. 0 \<le> s \<and> d = s * 1000000000) \<and> int64_range d" and "pc_keepalive p = None"
  shows "parse_all r ((case x of None \<Rightarrow> [] | Some d \<Rightarrow>
        [setting ''PersistentKeepalive'' (itoa (f64_to_int (duration_seconds d)))]) @ ls) (peer_state st p)
     = parse_all r ls (peer_state st (p\<lparr>pc_keepalive := x\<rparr>))"
proof (cases x)
  case (Some d)
  then obtain s where s: "0 \<le> s" "d = s * 1000000000" "int64_range (s * 1000000000)" using assms(1) by blast
  then show ?thesis using keepalive_whole [of s] Some
    by (simp add: parse_line_setting names_ok lower_names parsePeerKV_def parseIntField_itoa wrap64_id)
qed (simp add: pc_same assms(2))

lemma parse_allowed_ips:
  assumes "list_all net4_ok x" and "pc_allowed_ips p = []"
  shows "parse_all r ((if x = [] then [] else [setting ''AllowedIPs'' (join '', '' (map net_str x))]) @ ls) (peer_state st p)
     = parse_all r ls (peer_state st (p\<lparr>pc_allowed_ips := x\<rparr>))"
  using assms by (cases "x = []")
    (simp_all add: pc_same parse_line_setting names_ok lower_names parsePeerKV_def join_value parse_cidrs_join)

lemma parse_peer:
  assumes "peer_ok r p"
  shows "parse_all r (peer_lines p @ ls) st = parse_all r ls (peer_state (flushPeer st) p)"
proof -
  have f: "length (pc_public_key p) = 32" "key_ok (pc_preshared_key p)"
    "\<And>a. pc_endpoint p = Some a \<Longrightarrow> value_ok (udp_str a) \<and> r (udp_str a) = Some a"
    "\<And>d. pc_keepalive p = Some d \<Longrightarrow> (\<exists>s. 0 \<le> s \<and> d = s * 1000000000) \<and> int64_range d"
    "list_all net4_ok (pc_allowed_ips p)"
    using assms unfolding peer_ok_def by blast+
  have "parse_all r (peer_lines p @ ls) st = parse_all r ls (peer_state (flushPeer st)
      (empty_peer\<lparr>pc_public_key := pc_public_key p, pc_preshared_key := pc_preshared_key p, pc_endpoint := pc_endpoint p,
        pc_keepalive := pc_keepalive p, pc_allowed_ips := pc_allowed_ips p\<rparr>))"
    unfolding peer_lines_def append_Cons append_Nil parse_peer_header append_assoc parse_public_key [OF f(1)]
    by (simp add: parse_psk [OF f(2)] parse_endpoint [OF f(3)] parse_keepalive [OF f(4)] parse_allowed_ips [OF f(5)]
        empty_peer_def)
  also have "empty_peer\<lparr>pc_public_key := pc_public_key p, pc_preshared_key := pc_preshared_key p, pc_endpoint := pc_endpoint p,
        pc_keepalive := pc_keepalive p, pc_allowed_ips := pc_allowed_ips p\<rparr> = p"
    using assms by (cases p) (simp add: empty_peer_def peer_ok_def)
  finally show ?thesis .
qed

lemma parse_peers:
  assumes "list_all (peer_ok r) peers"
  shows "\<exists>st'. parse_all r (concat (map peer_lines peers)) st = Inr st' \<and> st_cfg st' = st_cfg st
    \<and> st_peers (flushPeer st') = st_peers (flushPeer st) @ peers"
  using assms
proof (induction peers arbitrary: st)
  case (Cons p ps)
  let ?st = "peer_state (flushPeer st) p"
  obtain st' where st': "parse_all r (concat (map peer_lines ps)) ?st = Inr st'" "st_cfg st' = st_cfg ?st"
      "st_peers (flushPeer st') = st_peers (flushPeer ?st) @ ps"
    using Cons.IH [of ?st] Cons.prems by auto
  moreover have "st_peers (flushPeer ?st) = st_peers (flushPeer st) @ [p]" "st_cfg ?st = st_cfg st"
    by (auto simp: flushPeer_def split: option.splits)
  moreover have "parse_all r (concat (map peer_lines (p # ps))) st = parse_all r (concat (map peer_lines ps)) ?st"
    using parse_peer [of r p "concat (map peer_lines ps)" st] Cons.prems by simp
  ultimately show ?case by (intro exI [of _ st']) simp
qed simp


definition text_line :: "string \<Rightarrow> bool" where "text_line l \<longleftrightarrow> l = [] \<or> value_ok l"

lemma text_line_ok: "text_line l \<Longrightarrow> length l < max_scan_token \<Longrightarrow> line_ok l"
  by (auto simp: text_line_def line_ok_def value_ok_def plain_byte_def go_spaces_def)

lemma text_line_nl: "text_line l \<Longrightarrow> CHR 0x0A \<notin> set l"
  by (auto simp: text_line_def value_ok_def)

lemma setting_text: "name_ok n \<Longrightarrow> value_ok v \<Longrightarrow> text_line (setting n v)"
  by (simp add: text_line_def setting_line_ok)

lemma setting_texts:
  "int_ok x \<Longrightarrow> name_ok n \<Longrightarrow> list_all text_line (appendIntSetting n x)"
  "str_ok y \<Longrightarrow> name_ok n \<Longrightarrow> list_all text_line (appendStringSetting n y)"
  by (auto simp: appendIntSetting_def appendStringSetting_def str_ok_def setting_text split: option.splits)

lemma iface_texts: "iface_ok cfg \<Longrightarrow> list_all text_line (iface_lines cfg)"
  by (auto simp: iface_ok_def iface_lines_def key_ok_def setting_texts names_ok setting_text b64_value split: option.splits)

lemma peer_texts: "peer_ok r p \<Longrightarrow> list_all text_line (peer_lines p)"
proof -
  assume p: "peer_ok r p"
  have "text_line []" "text_line ''[Peer]''" by code_simp+
  with p show ?thesis unfolding peer_lines_def peer_ok_def key_ok_def
    by (auto simp: setting_text names_ok b64_value join_value split: option.splits)
qed


definition sample_endpoint :: udp_addr where
  "sample_endpoint = \<lparr>ua_ip = Some (v4_in_6 0x0A000001), ua_port = 51820, ua_zone = []\<rparr>"

definition sample_wg :: wg_config where
  "sample_wg = empty_config\<lparr>wc_private_key := Some (replicate 32 CHR ''k''), wc_listen_port := Some 51820, wc_jc := Some 4,
     wc_h1 := Some ''1-5''\<rparr>"

definition sample_wg_peer :: peer_config where
  "sample_wg_peer = empty_peer\<lparr>pc_public_key := replicate 32 CHR ''p'', pc_endpoint := Some sample_endpoint,
     pc_keepalive := Some 25000000000, pc_allowed_ips := [IPNet4 0x0A640001 32, IPNet4 0x0A640000 24]\<rparr>"


end
