(* ===== verification/WG_UAPI.thy ===== *)
theory WG_UAPI
  imports WG_Config
begin

text \<open>
  \<open>pkg/wg/uapi.go\<close>: the text protocol that configures a device and reads its state back. Sockets are parameters: what can be written to a connection
  before it fails, and what is read from it. The TUN device and the protocol engine behind the socket belong to
  the driver library.
\<close>

section \<open>Writing\<close>

datatype uapi_error =
    UapiName wg_error
  | UapiDial string
  | UapiWrite string
  | UapiPeerKey nat
  | UapiErrno int
  | UapiErrnoInvalid string
  | UapiLine string
  | UapiField string wg_error
  | UapiRead string
  | UapiTooLong
  | UapiNoErrno

text \<open>A connection: the number of writes that still succeed, if bounded, and the text sent so far.\<close>

record uapi_conn =
  uc_writes :: "nat option"
  uc_sent :: string

definition writeString :: "string \<Rightarrow> string \<Rightarrow> uapi_conn \<Rightarrow> (uapi_error + unit) \<times> uapi_conn" where
  "writeString what s c =
     (case uc_writes c of
        Some 0 \<Rightarrow> (Inl (UapiWrite what), c)
      | Some (Suc n) \<Rightarrow> (Inr (), c\<lparr>uc_writes := Some n, uc_sent := uc_sent c @ s\<rparr>)
      | None \<Rightarrow> (Inr (), c\<lparr>uc_sent := uc_sent c @ s\<rparr>))"

definition writeKV :: "string \<Rightarrow> string \<Rightarrow> uapi_conn \<Rightarrow> (uapi_error + unit) \<times> uapi_conn" where
  "writeKV k v = writeString k (k @ ''='' @ v @ [CHR 0x0A])"

definition hexKey :: "key \<Rightarrow> string" where "hexKey k = hex_encode k"

fun write_all :: "(string \<times> string) list \<Rightarrow> uapi_conn \<Rightarrow> (uapi_error + unit) \<times> uapi_conn" where
  "write_all [] c = (Inr (), c)"
| "write_all ((k, v) # kvs) c = (case writeKV k v c of (Inl e, c') \<Rightarrow> (Inl e, c') | (Inr _, c') \<Rightarrow> write_all kvs c')"

definition opt_setting :: "string \<Rightarrow> string option \<Rightarrow> (string \<times> string) list" where
  "opt_setting k v = (case v of None \<Rightarrow> [] | Some s \<Rightarrow> [(k, s)])"

definition flag_setting :: "string \<Rightarrow> bool \<Rightarrow> (string \<times> string) list" where
  "flag_setting k b = (if b then [(k, ''true'')] else [])"

text \<open>The settings of the device: the third and fourth padding are never sent, since the driver refuses them.\<close>

definition device_settings :: "wg_config \<Rightarrow> (string \<times> string) list" where
  "device_settings cfg =
     opt_setting ''private_key'' (map_option hexKey (wc_private_key cfg))
     @ opt_setting ''listen_port'' (map_option itoa (wc_listen_port cfg))
     @ opt_setting ''fwmark'' (map_option itoa (wc_firewall_mark cfg))
     @ flag_setting ''replace_peers'' (wc_replace_peers cfg)
     @ concat (map (\<lambda>(k, v). opt_setting k (map_option itoa v))
         [(''jc'', wc_jc cfg), (''jmin'', wc_jmin cfg), (''jmax'', wc_jmax cfg), (''s1'', wc_s1 cfg), (''s2'', wc_s2 cfg)])
     @ concat (map (\<lambda>(k, v). opt_setting k v)
         [(''h1'', wc_h1 cfg), (''h2'', wc_h2 cfg), (''h3'', wc_h3 cfg), (''h4'', wc_h4 cfg),
          (''i1'', wc_i1 cfg), (''i2'', wc_i2 cfg), (''i3'', wc_i3 cfg), (''i4'', wc_i4 cfg), (''i5'', wc_i5 cfg)])"

definition peer_settings :: "peer_config \<Rightarrow> (string \<times> string) list" where
  "peer_settings p =
     [(''public_key'', hexKey (pc_public_key p))]
     @ flag_setting ''remove'' (pc_remove p)
     @ flag_setting ''update_only'' (pc_update_only p)
     @ opt_setting ''preshared_key'' (map_option hexKey (pc_preshared_key p))
     @ opt_setting ''endpoint'' (map_option udp_str (pc_endpoint p))
     @ opt_setting ''persistent_keepalive_interval''
         (map_option (\<lambda>d. itoa (f64_to_int (duration_seconds d))) (pc_keepalive p))
     @ flag_setting ''replace_allowed_ips'' (pc_replace_allowed_ips p)
     @ map (\<lambda>n. (''allowed_ip'', net_str n)) (pc_allowed_ips p)"

fun write_peers :: "nat \<Rightarrow> peer_config list \<Rightarrow> uapi_conn \<Rightarrow> (uapi_error + unit) \<times> uapi_conn" where
  "write_peers i [] c = (Inr (), c)"
| "write_peers i (p # ps) c =
     (if Key_IsZero (pc_public_key p) then (Inl (UapiPeerKey i), c)
      else case write_all (peer_settings p) c of
        (Inl e, c') \<Rightarrow> (Inl e, c')
      | (Inr _, c') \<Rightarrow> write_peers (Suc i) ps c')"

definition writeConfig :: "wg_config \<Rightarrow> uapi_conn \<Rightarrow> (uapi_error + unit) \<times> uapi_conn" where
  "writeConfig cfg c =
     (case write_all (device_settings cfg) c of
        (Inl e, c') \<Rightarrow> (Inl e, c')
      | (Inr _, c') \<Rightarrow> write_peers 0 (wc_peers cfg) c')"

section \<open>Reading\<close>

text \<open>A reply: the bytes that arrive and the error that ends the reading, if any.\<close>

type_synonym reply = "string \<times> string option"

definition cut_prefix :: "string \<Rightarrow> string \<Rightarrow> string option" where
  "cut_prefix pre s = (if prefix pre s then Some (drop (length pre) s) else None)"

fun errno_from :: "string list \<Rightarrow> (uapi_error + unit) option" where
  "errno_from [] = None"
| "errno_from (l # ls) =
     (let line = trim_space l in
      if line = [] then errno_from ls
      else case cut_prefix ''errno='' line of
        None \<Rightarrow> errno_from ls
      | Some t \<Rightarrow>
          (case atoi t of
             None \<Rightarrow> Some (Inl (UapiErrnoInvalid line))
           | Some n \<Rightarrow> Some (if n \<noteq> 0 then Inl (UapiErrno n) else Inr ())))"

definition scan_end :: "bool \<Rightarrow> string option \<Rightarrow> uapi_error" where
  "scan_end too_long err = (if too_long then UapiTooLong else case err of Some e \<Rightarrow> UapiRead e | None \<Rightarrow> UapiNoErrno)"

definition readErrno :: "reply \<Rightarrow> uapi_error + unit" where
  "readErrno rep =
     (case rep of (content, err) \<Rightarrow>
        (case scan_lines content of (ls, too_long) \<Rightarrow>
           (case errno_from ls of Some r \<Rightarrow> r | None \<Rightarrow> Inl (scan_end too_long err))))"

record wg_peer =
  pr_public_key :: key
  pr_preshared_key :: key
  pr_endpoint :: "udp_addr option"
  pr_keepalive :: duration
  pr_last_handshake :: gotime
  pr_receive_bytes :: int
  pr_transmit_bytes :: int
  pr_allowed_ips :: "ipnet list"
  pr_protocol_version :: int

record device =
  dv_name :: string
  dv_private_key :: key
  dv_public_key :: key
  dv_listen_port :: int
  dv_firewall_mark :: int
  dv_is_amnezia :: bool
  dv_peers :: "wg_peer list"

record device_state =
  ds_device :: device
  ds_current :: "wg_peer option"
  ds_sec :: int
  ds_nsec :: int

definition new_peer :: "key \<Rightarrow> wg_peer" where
  "new_peer k =
     \<lparr>pr_public_key = k, pr_preshared_key = zero_key, pr_endpoint = None, pr_keepalive = 0, pr_last_handshake = time_zero,
      pr_receive_bytes = 0, pr_transmit_bytes = 0, pr_allowed_ips = [], pr_protocol_version = 0\<rparr>"

definition new_device_state :: device_state where
  "new_device_state =
     \<lparr>ds_device = \<lparr>dv_name = [], dv_private_key = zero_key, dv_public_key = zero_key, dv_listen_port = 0, dv_firewall_mark = 0,
        dv_is_amnezia = False, dv_peers = []\<rparr>, ds_current = None, ds_sec = 0, ds_nsec = 0\<rparr>"

definition commitPeer :: "device_state \<Rightarrow> device_state" where
  "commitPeer st =
     (case ds_current st of
        None \<Rightarrow> st
      | Some p \<Rightarrow>
          (let p' = (if ds_sec st \<noteq> 0 \<or> ds_nsec st \<noteq> 0
                     then p\<lparr>pr_last_handshake := time_of_unix (ds_sec st) + ds_nsec st\<rparr> else p)
           in \<lparr>ds_device = (ds_device st)\<lparr>dv_peers := dv_peers (ds_device st) @ [p']\<rparr>,
               ds_current = None, ds_sec = 0, ds_nsec = 0\<rparr>))"

definition parseHexKey :: "string \<Rightarrow> wg_error + key" where
  "parseHexKey s = (case hex_decode (trim_space s) of None \<Rightarrow> Inl KeyHex | Some raw \<Rightarrow> NewKey raw)"

definition on_peer :: "device_state \<Rightarrow> (wg_peer \<Rightarrow> uapi_error + device_state) \<Rightarrow> uapi_error + device_state" where
  "on_peer st f = (case ds_current st of None \<Rightarrow> Inr st | Some p \<Rightarrow> f p)"

definition int_field :: "string \<Rightarrow> string \<Rightarrow> uapi_error + int" where
  "int_field k v = (case atoi v of None \<Rightarrow> Inl (UapiField k (FieldInvalid k v)) | Some n \<Rightarrow> Inr n)"

definition awg_fields :: "string list" where
  "awg_fields = [''jc'', ''jmin'', ''jmax'', ''s1'', ''s2'', ''s3'', ''s4'', ''h1'', ''h2'', ''h3'', ''h4'',
     ''i1'', ''i2'', ''i3'', ''i4'', ''i5'']"

definition device_field :: "udp_resolver \<Rightarrow> string \<Rightarrow> string \<Rightarrow> device_state \<Rightarrow> uapi_error + device_state" where
  "device_field resolve k v st =
     (let d = ds_device st; set_peer = (\<lambda>p. Inr (st\<lparr>ds_current := Some p\<rparr>)) in
      if k = ''private_key'' then rbind (map_err (UapiField k) (parseHexKey v)) (\<lambda>x. Inr (st\<lparr>ds_device := d\<lparr>dv_private_key := x\<rparr>\<rparr>))
      else if k = ''public_key'' then
        rbind (map_err (UapiField k) (parseHexKey v)) (\<lambda>x. Inr ((commitPeer st)\<lparr>ds_current := Some (new_peer x)\<rparr>))
      else if k = ''listen_port'' then rbind (int_field k v) (\<lambda>n. Inr (st\<lparr>ds_device := d\<lparr>dv_listen_port := n\<rparr>\<rparr>))
      else if k = ''fwmark'' then rbind (int_field k v) (\<lambda>n. Inr (st\<lparr>ds_device := d\<lparr>dv_firewall_mark := n\<rparr>\<rparr>))
      else if k = ''protocol_version'' then
        on_peer st (\<lambda>p. rbind (int_field k v) (\<lambda>n. set_peer (p\<lparr>pr_protocol_version := n\<rparr>)))
      else if k = ''endpoint'' then
        on_peer st (\<lambda>p. case resolve v of
            None \<Rightarrow> Inl (UapiField k (FieldInvalid k v)) | Some a \<Rightarrow> set_peer (p\<lparr>pr_endpoint := Some a\<rparr>))
      else if k = ''persistent_keepalive_interval'' then
        on_peer st (\<lambda>p. rbind (int_field k v) (\<lambda>n. set_peer (p\<lparr>pr_keepalive := wrap64 (n * 1000000000)\<rparr>)))
      else if k = ''last_handshake_time_sec'' then
        on_peer st (\<lambda>p. rbind (int_field k v) (\<lambda>n. Inr (st\<lparr>ds_sec := n\<rparr>)))
      else if k = ''last_handshake_time_nsec'' then
        on_peer st (\<lambda>p. rbind (int_field k v) (\<lambda>n. Inr (st\<lparr>ds_nsec := n\<rparr>)))
      else if k = ''rx_bytes'' then
        on_peer st (\<lambda>p. rbind (int_field k v) (\<lambda>n. set_peer (p\<lparr>pr_receive_bytes := n\<rparr>)))
      else if k = ''tx_bytes'' then
        on_peer st (\<lambda>p. rbind (int_field k v) (\<lambda>n. set_peer (p\<lparr>pr_transmit_bytes := n\<rparr>)))
      else if k = ''allowed_ip'' then
        on_peer st (\<lambda>p. case parse_cidr v of
            None \<Rightarrow> Inl (UapiField k (FieldInvalid k v))
          | Some (_, n) \<Rightarrow> set_peer (p\<lparr>pr_allowed_ips := pr_allowed_ips p @ [n]\<rparr>))
      else if k = ''preshared_key'' then
        on_peer st (\<lambda>p. rbind (map_err (UapiField k) (parseHexKey v)) (\<lambda>x. set_peer (p\<lparr>pr_preshared_key := x\<rparr>)))
      else if k \<in> set awg_fields then Inr (st\<lparr>ds_device := d\<lparr>dv_is_amnezia := True\<rparr>\<rparr>)
      else Inr st)"

text \<open>
  The loop of \<open>parseDevice\<close>. \<open>Inr None\<close> means that the lines ended before the error number; the public key of the
  device is computed from its private key by the curve library.
\<close>

fun device_loop ::
  "udp_resolver \<Rightarrow> (key \<Rightarrow> key) \<Rightarrow> string list \<Rightarrow> device_state \<Rightarrow> uapi_error + device option" where
  "device_loop resolve curve [] st = Inr None"
| "device_loop resolve curve (l # ls) st =
     (let line = trim_space l in
      if line = [] then device_loop resolve curve ls st
      else case cut_prefix ''errno='' line of
        Some t \<Rightarrow>
          (case atoi t of
             None \<Rightarrow> Inl (UapiErrnoInvalid line)
           | Some n \<Rightarrow>
               if n \<noteq> 0 then Inl (UapiErrno n)
               else (let d = ds_device (commitPeer st) in
                     Inr (Some (if Key_IsZero (dv_private_key d) then d
                                else d\<lparr>dv_public_key := curve (dv_private_key d)\<rparr>))))
      | None \<Rightarrow>
          (case cut CHR ''='' line of
             None \<Rightarrow> Inl (UapiLine line)
           | Some (k, v) \<Rightarrow> rbind (device_field resolve k v st) (device_loop resolve curve ls)))"

definition parseDevice :: "udp_resolver \<Rightarrow> (key \<Rightarrow> key) \<Rightarrow> reply \<Rightarrow> uapi_error + device" where
  "parseDevice resolve curve rep =
     (case rep of (content, err) \<Rightarrow>
        (case scan_lines content of (ls, too_long) \<Rightarrow>
           rbind (device_loop resolve curve ls new_device_state) (\<lambda>r.
             case r of Some d \<Rightarrow> Inr d | None \<Rightarrow> Inl (scan_end too_long err))))"

section \<open>Client\<close>

definition defaultUAPISocketDir :: string where "defaultUAPISocketDir = ''/var/run/amneziawg''"

text \<open>Dialling a socket gives an error, or a connection with the reply that will be read from it.\<close>

type_synonym dialer = "string \<Rightarrow> string + uapi_conn \<times> reply"

definition socket_path :: "string \<Rightarrow> string \<Rightarrow> string" where
  "socket_path dir name = path_join [dir, name @ ''.sock'']"

definition ConfigureDevice ::
  "dialer \<Rightarrow> string \<Rightarrow> string \<Rightarrow> wg_config \<Rightarrow> (uapi_error + unit) \<times> string" where
  "ConfigureDevice dial dir name cfg =
     (case ValidateInterfaceName name of
        Inl e \<Rightarrow> (Inl (UapiName e), [])
      | Inr _ \<Rightarrow>
          (case dial (socket_path dir name) of
             Inl e \<Rightarrow> (Inl (UapiDial e), [])
           | Inr (c, rep) \<Rightarrow>
               (case writeString ''set'' (''set=1'' @ [CHR 0x0A]) c of
                  (Inl e, c1) \<Rightarrow> (Inl e, uc_sent c1)
                | (Inr _, c1) \<Rightarrow>
                    (case writeConfig cfg c1 of
                       (Inl e, c2) \<Rightarrow> (Inl e, uc_sent c2)
                     | (Inr _, c2) \<Rightarrow>
                         (case writeString ''terminator'' [CHR 0x0A] c2 of
                            (Inl e, c3) \<Rightarrow> (Inl e, uc_sent c3)
                          | (Inr _, c3) \<Rightarrow> (readErrno rep, uc_sent c3))))))"

definition Device :: "udp_resolver \<Rightarrow> (key \<Rightarrow> key) \<Rightarrow> dialer \<Rightarrow> string \<Rightarrow> string \<Rightarrow> uapi_error + device" where
  "Device resolve curve dial dir name =
     (case ValidateInterfaceName name of
        Inl e \<Rightarrow> Inl (UapiName e)
      | Inr _ \<Rightarrow>
          (case dial (socket_path dir name) of
             Inl e \<Rightarrow> Inl (UapiDial e)
           | Inr (c, rep) \<Rightarrow>
               (case writeString ''get'' (''get=1'' @ [CHR 0x0A, CHR 0x0A]) c of
                  (Inl e, _) \<Rightarrow> Inl e
                | (Inr _, _) \<Rightarrow> rbind (parseDevice resolve curve rep) (\<lambda>d. Inr (d\<lparr>dv_name := name\<rparr>)))))"

section \<open>What is sent\<close>

definition kv_line :: "string \<times> string \<Rightarrow> string" where "kv_line kv = fst kv @ ''='' @ snd kv"

lemma writeString_ok: "writeString w s c = (Inr (), c') \<Longrightarrow> uc_sent c' = uc_sent c @ s"
  by (auto simp: writeString_def split: option.splits nat.splits)

lemma write_all_ok: "write_all kvs c = (Inr (), c') \<Longrightarrow> uc_sent c' = uc_sent c @ unlines (map kv_line kvs)"
proof (induction kvs arbitrary: c)
  case (Cons kv kvs)
  obtain k v where kv: "kv = (k, v)" by (cases kv)
  obtain c1 where "writeKV k v c = (Inr (), c1)" "write_all kvs c1 = (Inr (), c')"
    using Cons.prems kv by (auto split: prod.splits sum.splits)
  then show ?case using Cons.IH [of c1] writeString_ok [of k _ c c1] by (simp add: writeKV_def kv kv_line_def)
qed simp

lemma write_peers_ok:
  "write_peers i ps c = (Inr (), c') \<Longrightarrow>
     uc_sent c' = uc_sent c @ unlines (map kv_line (concat (map peer_settings ps)))
     \<and> list_all (\<lambda>p. \<not> Key_IsZero (pc_public_key p)) ps"
proof (induction ps arbitrary: i c)
  case (Cons p ps)
  obtain c1 where c1: "write_all (peer_settings p) c = (Inr (), c1)" "write_peers (Suc i) ps c1 = (Inr (), c')"
    and "\<not> Key_IsZero (pc_public_key p)"
    using Cons.prems by (auto split: prod.splits sum.splits if_splits)
  then show ?case using Cons.IH [OF c1(2)] write_all_ok [OF c1(1)] by simp
qed simp

lemma ConfigureDevice_sent:
  assumes "ConfigureDevice dial dir name cfg = (Inr (), sent)" and "dial (socket_path dir name) = Inr (c, rep)"
  shows "sent = uc_sent c @ unlines ([''set=1''] @ map kv_line (device_settings cfg @ concat (map peer_settings (wc_peers cfg))) @ [[]])
    \<and> list_all (\<lambda>p. \<not> Key_IsZero (pc_public_key p)) (wc_peers cfg) \<and> readErrno rep = Inr ()"
proof -
  obtain c1 c2 c3 c4 where w: "writeString ''set'' (''set=1'' @ [CHR 0x0A]) c = (Inr (), c1)"
      "write_all (device_settings cfg) c1 = (Inr (), c2)" "write_peers 0 (wc_peers cfg) c2 = (Inr (), c3)"
      "writeString ''terminator'' [CHR 0x0A] c3 = (Inr (), c4)" "readErrno rep = Inr ()" "sent = uc_sent c4"
    using assms by (auto simp: ConfigureDevice_def writeConfig_def split: sum.splits prod.splits)
  show ?thesis
    using writeString_ok [OF w(1)] write_all_ok [OF w(2)] write_peers_ok [OF w(3)] writeString_ok [OF w(4)] w(5,6) by simp
qed

section \<open>What is read\<close>

text \<open>
  The settings before the error number, cut into the block of each peer: the value of its \<open>public_key\<close> line and the
  settings up to the next such line.
\<close>

fun reply_settings :: "string list \<Rightarrow> (string \<times> string) list" where
  "reply_settings [] = []"
| "reply_settings (l # ls) =
     (let line = trim_space l in
      if line = [] then reply_settings ls
      else if prefix ''errno='' line then []
      else case cut CHR ''='' line of None \<Rightarrow> reply_settings ls | Some kv \<Rightarrow> kv # reply_settings ls)"

abbreviation inner :: "string \<times> string \<Rightarrow> bool" where "inner kv \<equiv> fst kv \<noteq> ''public_key''"

function peer_blocks :: "(string \<times> string) list \<Rightarrow> (string \<times> (string \<times> string) list) list" where
  "peer_blocks kvs =
     (case dropWhile inner kvs of [] \<Rightarrow> [] | kv # rest \<Rightarrow> (snd kv, takeWhile inner rest) # peer_blocks rest)"
  by pat_completeness auto
termination
proof (relation "measure length", goal_cases)
  case (2 kvs kv rest)
  then show ?case using length_dropWhile_le [of inner kvs] by simp
qed simp

declare peer_blocks.simps [simp del]

lemma peer_blocks_simps [simp]:
  "peer_blocks [] = []"
  "inner kv \<Longrightarrow> peer_blocks (kv # kvs) = peer_blocks kvs"
  "\<not> inner kv \<Longrightarrow> peer_blocks (kv # kvs) = (snd kv, takeWhile inner kvs) # peer_blocks kvs"
  by (simp_all add: peer_blocks.simps [of "[]"] peer_blocks.simps [of "kv # kvs"] peer_blocks.simps [of kvs])

definition ip_values :: "(string \<times> string) list \<Rightarrow> ipnet option list" where
  "ip_values kvs = map (\<lambda>kv. map_option snd (parse_cidr (snd kv))) (filter (\<lambda>kv. fst kv = ''allowed_ip'') kvs)"

definition peer_ext :: "wg_peer \<Rightarrow> (string \<times> string) list \<Rightarrow> wg_peer \<Rightarrow> bool" where
  "peer_ext p kvs q \<longleftrightarrow> pr_public_key q = pr_public_key p
     \<and> map Some (pr_allowed_ips q) = map Some (pr_allowed_ips p) @ ip_values kvs"

definition peer_of_block :: "string \<times> (string \<times> string) list \<Rightarrow> wg_peer \<Rightarrow> bool" where
  "peer_of_block b q \<longleftrightarrow> parseHexKey (fst b) = Inr (pr_public_key q) \<and> map Some (pr_allowed_ips q) = ip_values (snd b)"

definition committed :: "wg_peer option \<Rightarrow> wg_peer list \<Rightarrow> bool" where
  "committed c qs \<longleftrightarrow> (case c of None \<Rightarrow> qs = [] | Some p \<Rightarrow> \<exists>q. qs = [q] \<and> peer_ext p [] q)"

lemma commitPeer_peers: "\<exists>qs. dv_peers (ds_device (commitPeer st)) = dv_peers (ds_device st) @ qs \<and> committed (ds_current st) qs"
  by (auto simp: commitPeer_def committed_def peer_ext_def ip_values_def Let_def split: option.split)

lemma device_field_public:
  assumes "device_field r ''public_key'' v st = Inr st'"
  shows "\<exists>x qs. parseHexKey v = Inr x \<and> ds_current st' = Some (new_peer x)
    \<and> dv_peers (ds_device st') = dv_peers (ds_device st) @ qs \<and> committed (ds_current st) qs"
proof -
  obtain x where "parseHexKey v = Inr x" "st' = (commitPeer st)\<lparr>ds_current := Some (new_peer x)\<rparr>"
    using assms by (auto simp: device_field_def res_simps)
  then show ?thesis using commitPeer_peers [of st] by auto
qed

lemma device_field_inner:
  assumes "device_field r k v st = Inr st'" and "k \<noteq> ''public_key''"
  shows "dv_peers (ds_device st') = dv_peers (ds_device st)
    \<and> (case ds_current st of None \<Rightarrow> ds_current st' = None | Some p \<Rightarrow> \<exists>q. ds_current st' = Some q \<and> peer_ext p [(k, v)] q)"
  using assms unfolding device_field_def Let_def on_peer_def
  by (cases "ds_current st")
    (auto simp: res_simps peer_ext_def ip_values_def split: if_splits option.splits)

lemma peer_ext_trans: "peer_ext p a q \<Longrightarrow> peer_ext q b t \<Longrightarrow> peer_ext p (a @ b) t"
  by (simp add: peer_ext_def ip_values_def)

lemma device_loop_peers:
  assumes "device_loop r curve ls st = Inr (Some d)"
  shows "\<exists>cs qs. dv_peers d = dv_peers (ds_device st) @ cs @ qs
    \<and> (case ds_current st of None \<Rightarrow> cs = [] | Some p \<Rightarrow> \<exists>q. cs = [q] \<and> peer_ext p (takeWhile inner (reply_settings ls)) q)
    \<and> list_all2 peer_of_block (peer_blocks (reply_settings ls)) qs"
  using assms
proof (induction ls arbitrary: st)
  case (Cons l ls)
  let ?line = "trim_space l"
  consider (empty) "?line = []" | (errno) "?line \<noteq> []" "prefix ''errno='' ?line"
    | (field) k v st' where "?line \<noteq> []" "\<not> prefix ''errno='' ?line" "cut CHR ''='' ?line = Some (k, v)"
        "device_field r k v st = Inr st'" "device_loop r curve ls st' = Inr (Some d)"
    using Cons.prems by (auto simp: cut_prefix_def Let_def res_simps split: if_splits option.splits)
  then show ?case
  proof cases
    case empty
    then have same: "reply_settings (l # ls) = reply_settings ls" "device_loop r curve (l # ls) st = device_loop r curve ls st"
      by simp_all
    show ?thesis unfolding same(1) by (rule Cons.IH) (use Cons.prems same(2) in simp)
  next
    case errno
    then have "dv_peers d = dv_peers (ds_device (commitPeer st))"
      using Cons.prems by (auto simp: cut_prefix_def Let_def split: if_splits option.splits)
    then show ?thesis using commitPeer_peers [of st] errno by (auto simp: committed_def split: option.splits)
  next
    case field
    have settings: "reply_settings (l # ls) = (k, v) # reply_settings ls" using field(1-3) by simp
    note ih = Cons.IH [OF field(5)]
    show ?thesis
    proof (cases "k = ''public_key''")
      case True
      obtain x cs where x: "parseHexKey v = Inr x" "ds_current st' = Some (new_peer x)"
          "dv_peers (ds_device st') = dv_peers (ds_device st) @ cs" "committed (ds_current st) cs"
        using device_field_public [OF field(4) [unfolded True]] by blast
      obtain q qs where q: "dv_peers d = dv_peers (ds_device st') @ q # qs"
          "peer_ext (new_peer x) (takeWhile inner (reply_settings ls)) q"
          "list_all2 peer_of_block (peer_blocks (reply_settings ls)) qs"
        using ih x(2) by auto
      have "peer_of_block (v, takeWhile inner (reply_settings ls)) q"
        using q(2) x(1) by (simp add: peer_ext_def peer_of_block_def new_peer_def)
      then show ?thesis
        unfolding settings using q x(3,4) True
        by (intro exI [of _ cs] exI [of _ "q # qs"]) (auto simp: committed_def split: option.splits)
    next
      case False
      note inner = device_field_inner [OF field(4) False]
      show ?thesis
      proof (cases "ds_current st")
        case None
        then show ?thesis using ih inner False unfolding settings by auto
      next
        case (Some p)
        then obtain p' where p': "ds_current st' = Some p'" "peer_ext p [(k, v)] p'" using inner by auto
        then obtain q qs where "dv_peers d = dv_peers (ds_device st) @ q # qs"
            "peer_ext p' (takeWhile inner (reply_settings ls)) q"
            "list_all2 peer_of_block (peer_blocks (reply_settings ls)) qs"
          using ih inner by auto
        then show ?thesis
          unfolding settings using peer_ext_trans [OF p'(2)] False Some
          by (intro exI [of _ "[q]"] exI [of _ qs]) fastforce
      qed
    qed
  qed
qed simp

text \<open>
  C20. Every peer of a device is read, and read separately. When a reply is accepted, its settings before the error
  number fall into one block per \<open>public_key\<close> line, and the peers are, in this order, exactly one for each
  block: with the key of that line, and with the networks of the \<open>allowed_ip\<close> lines of its own block.
\<close>

theorem parseDevice_peers:
  assumes "parseDevice resolve curve (content, err) = Inr d"
  shows "list_all2 peer_of_block (peer_blocks (reply_settings (fst (scan_lines content)))) (dv_peers d)"
proof -
  obtain ls too_long where ls: "scan_lines content = (ls, too_long)" by (cases "scan_lines content")
  have "device_loop resolve curve ls new_device_state = Inr (Some d)"
    using assms by (auto simp: parseDevice_def ls res_simps split: option.splits)
  from device_loop_peers [OF this] show ?thesis by (simp add: ls new_device_state_def)
qed

definition sample_reply :: string where
  "sample_reply = unlines [''private_key='' @ hex_encode (replicate 32 CHR ''k''), ''listen_port=51820'', ''jc=4'',
     ''public_key='' @ hex_encode (replicate 32 CHR ''p''), ''allowed_ip=10.100.0.1/32'', ''allowed_ip=10.100.1.0/24'',
     ''public_key='' @ hex_encode (replicate 32 CHR ''q''), ''allowed_ip=10.100.0.2/32'', ''errno=0'']"

theorem parseDevice_peers_witness:
  "\<exists>d. parseDevice (\<lambda>_. None) id (sample_reply, None) = Inr d
    \<and> list_all2 peer_of_block (peer_blocks (reply_settings (fst (scan_lines sample_reply)))) (dv_peers d)
    \<and> length (dv_peers d) = 2"
proof -
  have "case parseDevice (\<lambda>_. None) id (sample_reply, None) of Inl _ \<Rightarrow> False | Inr d \<Rightarrow> length (dv_peers d) = 2"
    by code_simp
  then obtain d where "parseDevice (\<lambda>_. None) id (sample_reply, None) = Inr d" "length (dv_peers d) = 2"
    by (auto split: sum.splits)
  then show ?thesis using parseDevice_peers [of "\<lambda>_. None" id sample_reply None d] by blast
qed

end
