(* ===== verification/WG_Listener.thy ===== *)
theory WG_Listener
  imports WG_UAPI
begin

text \<open>
  \<open>pkg/wg/dual_listener.go\<close>: the two listeners of a master, plain WireGuard for clients and AmneziaWG for the mesh.
  The transports behind them are operating system resources: the factories, the configuration and the closing
  of a transport are parameters, and the list of the transports that are open is part of the state.
\<close>

section \<open>Configuration\<close>

definition DefaultClientInterfaceName :: string where "DefaultClientInterfaceName = ''wg-clients''"
definition DefaultMeshInterfaceName :: string where "DefaultMeshInterfaceName = ''wg-mesh''"
definition DefaultClientListenPort :: int where "DefaultClientListenPort = 51820"
definition DefaultMeshListenPort :: int where "DefaultMeshListenPort = 51821"

text \<open>A factory fails, returns no transport, or a transport that reports its protocol.\<close>

type_synonym factory = "string \<Rightarrow> string + string option"

record dual_config =
  dl_client_interface :: string
  dl_mesh_interface :: string
  dl_client_port :: int
  dl_mesh_port :: int
  dl_client_key :: "key option"
  dl_mesh_key :: "key option"
  dl_client_peers :: "peer_config list"
  dl_vanilla_factory :: "factory option"
  dl_awg_factory :: "factory option"

datatype dual_error =
    VanillaFactoryRequired
  | AwgFactoryRequired
  | ClientInterfaceInvalid wg_error
  | MeshInterfaceInvalid wg_error
  | InterfacesEqual string
  | PortInvalid string int
  | PortsEqual int
  | ContextDone
  | CreateFailed string string
  | NilTransport string
  | WrongProtocol string string
  | KeyZero string
  | KeyFailed string wg_error
  | ConfigureFailed string string
  | CloseFailed "string list"
  | NotStarted
  | DeviceFailed string

definition DefaultDualListenerConfig :: "factory \<Rightarrow> factory \<Rightarrow> dual_config" where
  "DefaultDualListenerConfig vanilla awg =
     \<lparr>dl_client_interface = DefaultClientInterfaceName, dl_mesh_interface = DefaultMeshInterfaceName,
      dl_client_port = DefaultClientListenPort, dl_mesh_port = DefaultMeshListenPort, dl_client_key = None,
      dl_mesh_key = None, dl_client_peers = [], dl_vanilla_factory = Some vanilla, dl_awg_factory = Some awg\<rparr>"

definition normalizeDualListenerConfig :: "dual_config \<Rightarrow> dual_config" where
  "normalizeDualListenerConfig cfg =
     cfg\<lparr>dl_client_interface := (if dl_client_interface cfg = [] then DefaultClientInterfaceName else dl_client_interface cfg),
         dl_mesh_interface := (if dl_mesh_interface cfg = [] then DefaultMeshInterfaceName else dl_mesh_interface cfg),
         dl_client_port := (if dl_client_port cfg = 0 then DefaultClientListenPort else dl_client_port cfg),
         dl_mesh_port := (if dl_mesh_port cfg = 0 then DefaultMeshListenPort else dl_mesh_port cfg)\<rparr>"

definition validateListenPort :: "string \<Rightarrow> int \<Rightarrow> dual_error + unit" where
  "validateListenPort name port = fail_if (port < 1 \<or> port > 65535) (PortInvalid name port)"

definition validateDualListenerConfig :: "dual_config \<Rightarrow> dual_error + unit" where
  "validateDualListenerConfig cfg =
     rbind (fail_if (dl_vanilla_factory cfg = None) VanillaFactoryRequired) (\<lambda>_.
     rbind (fail_if (dl_awg_factory cfg = None) AwgFactoryRequired) (\<lambda>_.
     rbind (map_err ClientInterfaceInvalid (ValidateInterfaceName (dl_client_interface cfg))) (\<lambda>_.
     rbind (map_err MeshInterfaceInvalid (ValidateInterfaceName (dl_mesh_interface cfg))) (\<lambda>_.
     rbind (fail_if (dl_client_interface cfg = dl_mesh_interface cfg) (InterfacesEqual (dl_client_interface cfg))) (\<lambda>_.
     rbind (validateListenPort ''client listen port'' (dl_client_port cfg)) (\<lambda>_.
     rbind (validateListenPort ''mesh listen port'' (dl_mesh_port cfg)) (\<lambda>_.
     fail_if (dl_client_port cfg = dl_mesh_port cfg) (PortsEqual (dl_client_port cfg)))))))))"

section \<open>The listener\<close>

record dual_listener =
  dl_cfg :: dual_config
  dl_client :: "string option"
  dl_mesh :: "string option"
  dl_started :: bool

text \<open>
  The resources: the names of the open transports, and what the operating system answers when one is configured,
  closed or asked for its state.
\<close>

record transports =
  tr_open :: "string list"
  tr_configure :: "string \<Rightarrow> wg_config \<Rightarrow> string option"
  tr_close :: "string \<Rightarrow> string option"
  tr_stats :: "string \<Rightarrow> string + device"

definition NewDualListener :: "dual_config \<Rightarrow> dual_error + dual_listener" where
  "NewDualListener cfg =
     (let normalized = normalizeDualListenerConfig cfg in
      rbind (validateDualListenerConfig normalized) (\<lambda>_.
        Inr \<lparr>dl_cfg = normalized, dl_client = None, dl_mesh = None, dl_started = False\<rparr>))"

definition open_transport :: "string \<Rightarrow> transports \<Rightarrow> transports" where
  "open_transport n w = w\<lparr>tr_open := n # tr_open w\<rparr>"

definition close_transport :: "string \<Rightarrow> transports \<Rightarrow> transports" where
  "close_transport n w = w\<lparr>tr_open := remove1 n (tr_open w)\<rparr>"

definition listenerPrivateKey :: "string \<Rightarrow> key option \<Rightarrow> (dual_error, key) random" where
  "listenerPrivateKey who key =
     (case key of
        Some k \<Rightarrow> if Key_IsZero k then rnd_fail (KeyZero who) else rnd_return k
      | None \<Rightarrow> (\<lambda>g. case GeneratePrivateKey g of (Inl e, g') \<Rightarrow> (Inl (KeyFailed who e), g') | (Inr k, g') \<Rightarrow> (Inr k, g')))"

definition clientListenerConfig :: "dual_config \<Rightarrow> (dual_error, wg_config) random" where
  "clientListenerConfig cfg =
     rnd_bind (listenerPrivateKey ''client'' (dl_client_key cfg)) (\<lambda>k.
       rnd_return (empty_config\<lparr>wc_private_key := Some k, wc_listen_port := Some (dl_client_port cfg),
         wc_replace_peers := True, wc_peers := dl_client_peers cfg\<rparr>))"

text \<open>The mesh listener starts without obfuscation parameters (\<open>meshBootstrapConfig\<close>).\<close>

definition meshBootstrapConfig :: wg_config where "meshBootstrapConfig = empty_config"

definition meshListenerConfig :: "dual_config \<Rightarrow> (dual_error, wg_config) random" where
  "meshListenerConfig cfg =
     rnd_bind (listenerPrivateKey ''mesh'' (dl_mesh_key cfg)) (\<lambda>k.
       rnd_return (meshBootstrapConfig\<lparr>wc_private_key := Some k, wc_listen_port := Some (dl_mesh_port cfg),
         wc_replace_peers := True\<rparr>))"

text \<open>
  Creating and configuring one transport, as \<open>Start\<close> does it for both. On every error after the transport exists
  it is closed again.
\<close>

definition start_transport ::
  "factory option \<Rightarrow> string \<Rightarrow> string \<Rightarrow> (dual_error, wg_config) random \<Rightarrow> transports \<Rightarrow> rand_source \<Rightarrow>
     (dual_error + unit) \<times> transports \<times> rand_source" where
  "start_transport fac name protocol config w g =
     (case fac of
        None \<Rightarrow> (Inl (NilTransport name), w, g)
      | Some mk \<Rightarrow>
          (case mk name of
             Inl e \<Rightarrow> (Inl (CreateFailed name e), w, g)
           | Inr None \<Rightarrow> (Inl (NilTransport name), w, g)
           | Inr (Some got) \<Rightarrow>
               (let w1 = open_transport name w in
                if got \<noteq> protocol then (Inl (WrongProtocol name got), close_transport name w1, g)
                else case config g of
                  (Inl e, g') \<Rightarrow> (Inl e, close_transport name w1, g')
                | (Inr cfg, g') \<Rightarrow>
                    (case tr_configure w1 name cfg of
                       Some e \<Rightarrow> (Inl (ConfigureFailed name e), close_transport name w1, g')
                     | None \<Rightarrow> (Inr (), w1, g')))))"

definition DualListener_Start ::
  "bool \<Rightarrow> dual_listener \<Rightarrow> transports \<Rightarrow> rand_source \<Rightarrow>
     (dual_error + unit) \<times> dual_listener \<times> transports \<times> rand_source" where
  "DualListener_Start ctx_done l w g =
     (if ctx_done then (Inl ContextDone, l, w, g)
      else if dl_started l then (Inr (), l, w, g)
      else
        (let cfg = dl_cfg l in
         case start_transport (dl_vanilla_factory cfg) (dl_client_interface cfg) ProtocolVanilla (clientListenerConfig cfg) w g of
           (Inl e, w1, g1) \<Rightarrow> (Inl e, l, w1, g1)
         | (Inr _, w1, g1) \<Rightarrow>
             (case start_transport (dl_awg_factory cfg) (dl_mesh_interface cfg) ProtocolAmneziaWG (meshListenerConfig cfg) w1 g1 of
                (Inl e, w2, g2) \<Rightarrow> (Inl e, l, close_transport (dl_client_interface cfg) w2, g2)
              | (Inr _, w2, g2) \<Rightarrow>
                  (Inr (), l\<lparr>dl_client := Some (dl_client_interface cfg), dl_mesh := Some (dl_mesh_interface cfg),
                     dl_started := True\<rparr>, w2, g2))))"

definition close_opt :: "string option \<Rightarrow> transports \<Rightarrow> string list \<times> transports" where
  "close_opt t w =
     (case t of
        None \<Rightarrow> ([], w)
      | Some n \<Rightarrow> ((case tr_close w n of None \<Rightarrow> [] | Some e \<Rightarrow> [e]), close_transport n w))"

definition DualListener_Close :: "dual_listener \<Rightarrow> transports \<Rightarrow> (dual_error + unit) \<times> dual_listener \<times> transports" where
  "DualListener_Close l w =
     (case close_opt (dl_mesh l) w of (e1, w1) \<Rightarrow>
        (case close_opt (dl_client l) w1 of (e2, w2) \<Rightarrow>
           ((if e1 @ e2 = [] then Inr () else Inl (CloseFailed (e1 @ e2))),
            l\<lparr>dl_mesh := None, dl_client := None, dl_started := False\<rparr>, w2)))"

definition MeshPublicKey :: "dual_listener \<Rightarrow> transports \<Rightarrow> dual_error + key" where
  "MeshPublicKey l w =
     (case dl_mesh l of
        None \<Rightarrow> Inl NotStarted
      | Some n \<Rightarrow> (case tr_stats w n of Inl e \<Rightarrow> Inl (DeviceFailed e) | Inr d \<Rightarrow> Inr (dv_public_key d)))"

text \<open>\<open>AddPeer\<close> of a transport: one peer, without replacing the others.\<close>

definition add_peer_config :: "peer_config \<Rightarrow> wg_config" where
  "add_peer_config p = empty_config\<lparr>wc_peers := [p]\<rparr>"

definition remove_peer_config :: "key \<Rightarrow> wg_config" where
  "remove_peer_config k = empty_config\<lparr>wc_peers := [empty_peer\<lparr>pc_public_key := k, pc_remove := True\<rparr>]\<rparr>"

definition AddMeshPeer :: "dual_listener \<Rightarrow> transports \<Rightarrow> peer_config \<Rightarrow> dual_error + unit" where
  "AddMeshPeer l w p =
     (case dl_mesh l of
        None \<Rightarrow> Inl NotStarted
      | Some n \<Rightarrow> (case tr_configure w n (add_peer_config p) of None \<Rightarrow> Inr () | Some e \<Rightarrow> Inl (ConfigureFailed n e)))"

record dual_snapshot =
  sn_client_interface :: string
  sn_mesh_interface :: string
  sn_client_port :: int
  sn_mesh_port :: int
  sn_client_protocol :: string
  sn_mesh_protocol :: string
  sn_started :: bool

definition DualListener_Snapshot :: "dual_listener \<Rightarrow> dual_snapshot" where
  "DualListener_Snapshot l =
     \<lparr>sn_client_interface = dl_client_interface (dl_cfg l), sn_mesh_interface = dl_mesh_interface (dl_cfg l),
      sn_client_port = dl_client_port (dl_cfg l), sn_mesh_port = dl_mesh_port (dl_cfg l),
      sn_client_protocol = ProtocolVanilla, sn_mesh_protocol = ProtocolAmneziaWG, sn_started = dl_started l\<rparr>"

section \<open>No listener is leaked\<close>

definition held :: "dual_listener \<Rightarrow> string list" where
  "held l = (case dl_mesh l of None \<Rightarrow> [] | Some n \<Rightarrow> [n]) @ (case dl_client l of None \<Rightarrow> [] | Some n \<Rightarrow> [n])"

definition listener_ok :: "dual_listener \<Rightarrow> transports \<Rightarrow> string list \<Rightarrow> bool" where
  "listener_ok l w others \<longleftrightarrow> tr_open w = held l @ others
     \<and> dl_client_interface (dl_cfg l) \<noteq> dl_mesh_interface (dl_cfg l)
     \<and> (if dl_started l then held l = [dl_mesh_interface (dl_cfg l), dl_client_interface (dl_cfg l)] else held l = [])"

lemma start_transport_open:
  "start_transport f n p c w g = (r, w', g') \<Longrightarrow>
     tr_open w' = (case r of Inl _ \<Rightarrow> tr_open w | Inr _ \<Rightarrow> n # tr_open w)"
  by (auto simp: start_transport_def open_transport_def close_transport_def Let_def
      split: option.splits sum.splits if_splits prod.splits)

datatype listener_op = OpStart bool rand_source | OpClose

fun listener_step :: "listener_op \<Rightarrow> dual_listener \<times> transports \<Rightarrow> dual_listener \<times> transports" where
  "listener_step (OpStart ctx_done g) (l, w) = (case DualListener_Start ctx_done l w g of (_, l', w', _) \<Rightarrow> (l', w'))"
| "listener_step OpClose (l, w) = (case DualListener_Close l w of (_, l', w') \<Rightarrow> (l', w'))"

lemma Start_ok:
  assumes "listener_ok l w others" and "DualListener_Start ctx_done l w g = (r, l', w', g')"
  shows "listener_ok l' w' others \<and> (dl_started l' \<longleftrightarrow> dl_started l \<or> r = Inr ())"
proof (cases "ctx_done \<or> dl_started l")
  case True
  then show ?thesis using assms by (auto simp: DualListener_Start_def split: if_splits)
next
  case False
  let ?cfg = "dl_cfg l"
  have o: "tr_open w = others" "held l = []" using assms(1) False by (auto simp: listener_ok_def)
  obtain r1 w1 g1 where s1: "start_transport (dl_vanilla_factory ?cfg) (dl_client_interface ?cfg) ProtocolVanilla
      (clientListenerConfig ?cfg) w g = (r1, w1, g1)" by (metis prod_cases3)
  obtain r2 w2 g2 where s2: "start_transport (dl_awg_factory ?cfg) (dl_mesh_interface ?cfg) ProtocolAmneziaWG
      (meshListenerConfig ?cfg) w1 g1 = (r2, w2, g2)" by (metis prod_cases3)
  note open1 = start_transport_open [OF s1] and open2 = start_transport_open [OF s2]
  show ?thesis
  proof (cases r1)
    case (Inl e)
    then show ?thesis using assms False o open1 by (auto simp: DualListener_Start_def s1 Let_def listener_ok_def)
  next
    case r1: (Inr u)
    show ?thesis
    proof (cases r2)
      case (Inl e)
      then show ?thesis using assms False o open1 open2 r1
        by (auto simp: DualListener_Start_def s1 s2 Let_def listener_ok_def close_transport_def)
    next
      case (Inr v)
      then show ?thesis using assms False o open1 open2 r1
        by (auto simp: DualListener_Start_def s1 s2 Let_def listener_ok_def held_def)
    qed
  qed
qed

lemma Close_ok:
  assumes "listener_ok l w others"
  shows "case DualListener_Close l w of (_, l', w') \<Rightarrow> listener_ok l' w' others \<and> \<not> dl_started l'"
  using assms by (auto simp: DualListener_Close_def close_opt_def close_transport_def listener_ok_def held_def
      split: option.splits if_splits)

lemma listener_step_ok:
  assumes "listener_ok (fst s) (snd s) others"
  shows "listener_ok (fst (listener_step op s)) (snd (listener_step op s)) others"
proof -
  obtain l w where s: "s = (l, w)" by (cases s)
  show ?thesis
  proof (cases op)
    case (OpStart d g)
    obtain r l' w' g' where run: "DualListener_Start d l w g = (r, l', w', g')" by (metis prod_cases4)
    show ?thesis using Start_ok [OF _ run, of others] assms by (simp add: s OpStart run)
  next
    case OpClose
    obtain r l' w' where run: "DualListener_Close l w = (r, l', w')" by (metis prod_cases3)
    show ?thesis using Close_ok [of l w others] assms by (simp add: s OpClose run)
  qed
qed

text \<open>
  C22. Starting and stopping a master's listeners leaks nothing. Take a listener that was built from a valid
  configuration and any sequence of starts, with any outcome of the factories, of key generation and of
  configuring, and of stops. The open transports are always those that were open before together with both
  transports of the listener when it is started, and no transport of the listener when it is not.
\<close>

theorem DualListener_no_leak:
  assumes "NewDualListener cfg = Inr l" and "fold listener_step ops (l, w) = (l', w')"
  shows "tr_open w' = (if dl_started l' then [dl_mesh_interface (dl_cfg l'), dl_client_interface (dl_cfg l')] else []) @ tr_open w"
proof -
  have "listener_ok (fst (fold listener_step ops s)) (snd (fold listener_step ops s)) others"
    if "listener_ok (fst s) (snd s) others" for s others
    using that by (induction ops arbitrary: s) (simp_all add: listener_step_ok)
  moreover have "listener_ok l w (tr_open w)"
    using assms(1) by (auto simp: NewDualListener_def validateDualListenerConfig_def res_simps listener_ok_def held_def Let_def)
  ultimately have "listener_ok l' w' (tr_open w)" using assms(2) by (metis fst_conv snd_conv)
  then show ?thesis by (auto simp: listener_ok_def)
qed

definition sample_dual :: dual_config where
  "sample_dual = (DefaultDualListenerConfig (\<lambda>_. Inr (Some ProtocolVanilla)) (\<lambda>_. Inr (Some ProtocolAmneziaWG)))
     \<lparr>dl_client_key := Some (replicate 32 CHR ''c''), dl_mesh_key := Some (replicate 32 CHR ''m'')\<rparr>"

definition sample_transports :: transports where
  "sample_transports = \<lparr>tr_open = [''eth9''], tr_configure = \<lambda>_ _. None, tr_close = \<lambda>_. None, tr_stats = \<lambda>_. Inl ''no device''\<rparr>"

definition sample_rand :: rand_source where
  "sample_rand = \<lparr>rs_draws = \<lambda>i. i, rs_crypto_error = None\<rparr>"

theorem DualListener_no_leak_witness:
  "\<exists>l l' w'. NewDualListener sample_dual = Inr l
    \<and> fold listener_step [OpStart False sample_rand] (l, sample_transports) = (l', w')
    \<and> tr_open w' = (if dl_started l' then [dl_mesh_interface (dl_cfg l'), dl_client_interface (dl_cfg l')] else []) @ [''eth9'']
    \<and> dl_started l'"
proof -
  have "case NewDualListener sample_dual of Inl _ \<Rightarrow> False
      | Inr l \<Rightarrow> dl_started (fst (fold listener_step [OpStart False sample_rand] (l, sample_transports)))"
    by code_simp
  then obtain l where l: "NewDualListener sample_dual = Inr l"
      "dl_started (fst (fold listener_step [OpStart False sample_rand] (l, sample_transports)))"
    by (auto split: sum.splits)
  obtain l' w' where r: "fold listener_step [OpStart False sample_rand] (l, sample_transports) = (l', w')"
    by (metis surj_pair)
  have "tr_open sample_transports = [''eth9'']" by (simp add: sample_transports_def)
  then show ?thesis using DualListener_no_leak [OF l(1) r] l r by auto
qed

end
