(* ===== verification/Go_Json.thy ===== *)
theory Go_Json
  imports Go_Encoding Go_Strconv
begin

text \<open>
  What the code uses of \<open>unicode/utf8\<close> and \<open>encoding/json\<close>: the decoding of a rune, the text of a value with
  indentation as \<open>json.MarshalIndent\<close> writes it, and the reading of a text into a value, as \<open>json.Unmarshal\<close>
  scans it. Numbers are kept as their literal, and the nesting is limited to 10000 as in Go. A duplicated key of an
  object is read as if only the last one were there.
\<close>

section \<open>Runes\<close>

definition cont_byte :: "nat \<Rightarrow> bool" where "cont_byte b \<longleftrightarrow> 128 \<le> b \<and> b < 192"

text \<open>\<open>utf8.DecodeRune\<close>: the rune and its size; an invalid encoding is U+FFFD of size 1.\<close>

fun decode_rune :: "nat list \<Rightarrow> nat \<times> nat" where
  "decode_rune [] = (65533, 0)"
| "decode_rune (a # s) =
     (if a < 128 then (a, 1)
      else case s of
        [] \<Rightarrow> (65533, 1)
      | b # s2 \<Rightarrow>
          if 194 \<le> a \<and> a < 224 then (if cont_byte b then ((a - 192) * 64 + (b - 128), 2) else (65533, 1))
          else case s2 of
            [] \<Rightarrow> (65533, 1)
          | c # s3 \<Rightarrow>
              if 224 \<le> a \<and> a < 240 then
                (if cont_byte b \<and> (a = 224 \<longrightarrow> 160 \<le> b) \<and> (a = 237 \<longrightarrow> b < 160) \<and> cont_byte c
                 then ((a - 224) * 4096 + (b - 128) * 64 + (c - 128), 3) else (65533, 1))
              else case s3 of
                [] \<Rightarrow> (65533, 1)
              | d # _ \<Rightarrow>
                  if 240 \<le> a \<and> a < 245 \<and> cont_byte b \<and> (a = 240 \<longrightarrow> 144 \<le> b) \<and> (a = 244 \<longrightarrow> b < 144)
                    \<and> cont_byte c \<and> cont_byte d
                  then ((a - 240) * 262144 + (b - 128) * 4096 + (c - 128) * 64 + (d - 128), 4) else (65533, 1))"

definition surrogate :: "nat \<Rightarrow> bool" where "surrogate r \<longleftrightarrow> 55296 \<le> r \<and> r < 57344"

definition encode_rune :: "nat \<Rightarrow> bytes" where
  "encode_rune r0 =
     (let r = (if surrogate r0 \<or> r0 > 1114111 then 65533 else r0) in
      map char_of
        (if r < 128 then [r]
         else if r < 2048 then [192 + r div 64, 128 + r mod 64]
         else if r < 65536 then [224 + r div 4096, 128 + r div 64 mod 64, 128 + r mod 64]
         else [240 + r div 262144, 128 + r div 4096 mod 64, 128 + r div 64 mod 64, 128 + r mod 64]))"

section \<open>Strings\<close>

definition escape_byte :: "nat \<Rightarrow> string" where
  "escape_byte b =
     (if b = 34 \<or> b = 92 then [CHR 0x5C, char_of b]
      else if b = 8 then [CHR 0x5C, CHR ''b'']
      else if b = 12 then [CHR 0x5C, CHR ''f'']
      else if b = 10 then [CHR 0x5C, CHR ''n'']
      else if b = 13 then [CHR 0x5C, CHR ''r'']
      else if b = 9 then [CHR 0x5C, CHR ''t'']
      else if b < 32 \<or> b = 60 \<or> b = 62 \<or> b = 38 then [CHR 0x5C, CHR ''u'', CHR ''0'', CHR ''0'', hex_digit (b div 16), hex_digit (b mod 16)]
      else [char_of b])"

text \<open>The body of a quoted string, with the characters of HTML escaped.\<close>

function escape_string :: "bytes \<Rightarrow> string" where
  "escape_string [] = []"
| "escape_string (c # s) =
     (let (r, n) = decode_rune (map byte_val (c # s)) in
      if byte_val c < 128 then escape_byte (byte_val c) @ escape_string s
      else if r = 65533 \<and> n = 1 then (CHR 0x5C # ''ufffd'') @ escape_string s
      else if r = 8232 \<or> r = 8233 then (CHR 0x5C # ''u202'') @ hex_digit (r mod 16) # escape_string (drop (n - 1) s)
      else c # take (n - 1) s @ escape_string (drop (n - 1) s))"
  by pat_completeness auto
termination by (relation "measure length") auto

definition hex4 :: "char \<Rightarrow> char \<Rightarrow> char \<Rightarrow> char \<Rightarrow> nat option" where
  "hex4 a b c d =
     (case (hex_val a, hex_val b, hex_val c, hex_val d) of
        (Some w, Some x, Some y, Some z) \<Rightarrow> Some (w * 4096 + x * 256 + y * 16 + z)
      | _ \<Rightarrow> None)"

definition prepend :: "'a list \<Rightarrow> ('a list \<times> 'b) option \<Rightarrow> ('a list \<times> 'b) option" where
  "prepend x r = map_option (\<lambda>(y, s). (x @ y, s)) r"

definition simple_escape :: "char \<Rightarrow> char option" where
  "simple_escape e =
     (if e = CHR 0x22 \<or> e = CHR 0x5C \<or> e = CHR ''/'' then Some e
      else if e = CHR ''b'' then Some CHR 0x08
      else if e = CHR ''f'' then Some CHR 0x0C
      else if e = CHR ''n'' then Some CHR 0x0A
      else if e = CHR ''r'' then Some CHR 0x0D
      else if e = CHR ''t'' then Some CHR 0x09
      else None)"

text \<open>The low half of a surrogate pair, when the text goes on with one.\<close>

definition low_half :: "string \<Rightarrow> nat option" where
  "low_half s =
     (case s of
        k # u # a # b # c # d # _ \<Rightarrow>
          if k = CHR 0x5C \<and> u = CHR ''u'' then
            (case hex4 a b c d of Some r \<Rightarrow> if 56320 \<le> r \<and> r < 57344 then Some r else None | None \<Rightarrow> None)
          else None
      | _ \<Rightarrow> None)"

text \<open>The string after an opening quote, and what follows the closing one.\<close>

function read_string :: "string \<Rightarrow> (bytes \<times> string) option" where
  "read_string [] = None"
| "read_string (c # s) =
     (if c = CHR 0x22 then Some ([], s)
      else if byte_val c < 32 then None
      else if c = CHR 0x5C then
        (case s of
           [] \<Rightarrow> None
         | e # t \<Rightarrow>
             (case simple_escape e of
                Some x \<Rightarrow> prepend [x] (read_string t)
              | None \<Rightarrow>
                  if e \<noteq> CHR ''u'' then None
                  else case t of
                    a # b # x # d # t' \<Rightarrow>
                      (case hex4 a b x d of
                         None \<Rightarrow> None
                       | Some r \<Rightarrow>
                           if 55296 \<le> r \<and> r < 56320 then
                             (case low_half t' of
                                Some l \<Rightarrow> prepend (encode_rune ((r - 55296) * 1024 + (l - 56320) + 65536)) (read_string (drop 6 t'))
                              | None \<Rightarrow> prepend (encode_rune r) (read_string t'))
                           else prepend (encode_rune r) (read_string t'))
                  | _ \<Rightarrow> None))
      else if byte_val c < 128 then prepend [c] (read_string s)
      else (let (r, n) = decode_rune (map byte_val (c # s)) in prepend (encode_rune r) (read_string (drop (n - 1) s))))"
  by pat_completeness auto
termination by (relation "measure length") auto

lemma prepend_Some: "prepend x r = Some (y, s) \<longleftrightarrow> (\<exists>z. r = Some (z, s) \<and> y = x @ z)"
  by (auto simp: prepend_def)

lemma read_string_shorter: "read_string s = Some (x, r) \<Longrightarrow> length r < length s"
proof (induction "length s" arbitrary: s x r rule: less_induct)
  case less
  obtain c t where s: "s = c # t" using less.prems by (cases s) auto
  have "r = t \<or> (\<exists>u y. read_string u = Some (y, r) \<and> length u \<le> length t)"
    using less.prems unfolding s
    by (auto simp: prepend_Some Let_def split: if_splits option.splits list.splits prod.splits
        simp del: decode_rune.simps; (intro exI conjI, assumption, simp))
  then show ?case
  proof (elim disjE exE conjE)
    fix u y assume u: "read_string u = Some (y, r)" "length u \<le> length t"
    then have "length u < length s" using s by simp
    from less.hyps [OF this u(1)] u(2) s show ?thesis by simp
  qed (simp add: s)
qed

section \<open>Tokens\<close>

datatype tok = TLBrace | TRBrace | TLBrack | TRBrack | TComma | TColon | TStr bytes | TNum string | TTrue | TFalse | TNull

text \<open>The number at the front: an optional sign, digits without a leading zero, a fraction and an exponent.\<close>

definition digits_of :: "string \<Rightarrow> string" where "digits_of = takeWhile is_digit"

definition read_frac :: "string \<Rightarrow> string option" where
  "read_frac s =
     (case s of
        d # r \<Rightarrow> if d = CHR ''.'' then (if digits_of r = [] then None else Some (d # digits_of r)) else Some []
      | [] \<Rightarrow> Some [])"

definition read_exp :: "string \<Rightarrow> string option" where
  "read_exp s =
     (case s of
        e # r \<Rightarrow>
          if e = CHR ''e'' \<or> e = CHR ''E'' then
            (let sign = (case r of g # _ \<Rightarrow> if g = CHR ''+'' \<or> g = CHR ''-'' then [g] else [] | [] \<Rightarrow> []);
                 ds = digits_of (drop (length sign) r)
             in if ds = [] then None else Some (e # sign @ ds))
          else Some []
      | [] \<Rightarrow> Some [])"

definition read_number :: "string \<Rightarrow> string option" where
  "read_number s =
     (let sign = (case s of c # _ \<Rightarrow> if c = CHR ''-'' then [c] else [] | [] \<Rightarrow> []);
          body = drop (length sign) s;
          whole = (case body of c # _ \<Rightarrow> if c = CHR ''0'' then [c] else digits_of body | [] \<Rightarrow> [])
      in if whole = [] then None
         else case read_frac (drop (length whole) body) of
           None \<Rightarrow> None
         | Some frac \<Rightarrow>
             map_option (\<lambda>exp. sign @ whole @ frac @ exp) (read_exp (drop (length whole + length frac) body)))"

definition punctuation :: "char \<Rightarrow> tok option" where
  "punctuation c = map_of [(CHR 0x7B, TLBrace), (CHR 0x7D, TRBrace), (CHR ''['', TLBrack), (CHR '']'', TRBrack),
     (CHR '','', TComma), (CHR '':'', TColon)] c"

definition json_space :: "char \<Rightarrow> bool" where
  "json_space c \<longleftrightarrow> c = CHR '' '' \<or> c = CHR 0x09 \<or> c = CHR 0x0A \<or> c = CHR 0x0D"

definition literals :: "(string \<times> tok) list" where
  "literals = [(''true'', TTrue), (''false'', TFalse), (''null'', TNull)]"

definition literal_at :: "string \<Rightarrow> (string \<times> tok) option" where
  "literal_at s = find (\<lambda>(w, _). prefix w s) literals"

text \<open>One token, and the rest.\<close>

definition next_tok :: "char \<Rightarrow> string \<Rightarrow> (tok \<times> string) option" where
  "next_tok c s =
     (case punctuation c of
        Some t \<Rightarrow> Some (t, s)
      | None \<Rightarrow>
          if c = CHR 0x22 then map_option (\<lambda>(x, r). (TStr x, r)) (read_string s)
          else case literal_at (c # s) of
            Some (w, t) \<Rightarrow> Some (t, drop (length w - 1) s)
          | None \<Rightarrow> map_option (\<lambda>n. (TNum n, drop (length n - 1) s)) (read_number (c # s)))"

lemma next_tok_shorter: "next_tok c s = Some (t, r) \<Longrightarrow> length r \<le> length s"
  using read_string_shorter [of s] by (fastforce simp: next_tok_def split: option.splits if_splits)

function tokens :: "string \<Rightarrow> tok list option" where
  "tokens [] = Some []"
| "tokens (c # s) =
     (if json_space c then tokens s
      else case next_tok c s of None \<Rightarrow> None | Some (t, r) \<Rightarrow> map_option (Cons t) (tokens r))"
  by pat_completeness auto
termination by (relation "measure length") (auto simp: less_Suc_eq_le next_tok_shorter)

section \<open>Values\<close>

datatype json = JNull | JBool bool | JNum string | JStr bytes | JArr "json list" | JObj "(bytes \<times> json) list"

definition maxNestingDepth :: nat where "maxNestingDepth = 10000"

text \<open>
  A value at the front of the tokens, the elements of an array after its bracket, and the members of an object
  after its brace, with the nesting that is still allowed. Every call consumes a token, which the guards on the
  lengths make visible.
\<close>

function read_value :: "nat \<Rightarrow> tok list \<Rightarrow> (json \<times> tok list) option"
  and read_elems :: "nat \<Rightarrow> tok list \<Rightarrow> (json list \<times> tok list) option"
  and read_members :: "nat \<Rightarrow> tok list \<Rightarrow> ((bytes \<times> json) list \<times> tok list) option" where
  "read_value d [] = None"
| "read_value d (t # ts) =
     (case t of
        TNull \<Rightarrow> Some (JNull, ts)
      | TTrue \<Rightarrow> Some (JBool True, ts)
      | TFalse \<Rightarrow> Some (JBool False, ts)
      | TNum n \<Rightarrow> Some (JNum n, ts)
      | TStr x \<Rightarrow> Some (JStr x, ts)
      | TLBrack \<Rightarrow>
          if d = 0 then None
          else if ts \<noteq> [] \<and> hd ts = TRBrack then Some (JArr [], tl ts)
          else map_option (\<lambda>(vs, r). (JArr vs, r)) (read_elems (d - 1) ts)
      | TLBrace \<Rightarrow>
          if d = 0 then None
          else if ts \<noteq> [] \<and> hd ts = TRBrace then Some (JObj [], tl ts)
          else map_option (\<lambda>(ms, r). (JObj ms, r)) (read_members (d - 1) ts)
      | _ \<Rightarrow> None)"
| "read_elems d ts =
     (case read_value d ts of
        Some (v, TRBrack # r) \<Rightarrow> Some ([v], r)
      | Some (v, TComma # r) \<Rightarrow> if length r < length ts then prepend [v] (read_elems d r) else None
      | _ \<Rightarrow> None)"
| "read_members d ts =
     (case ts of
        TStr k # TColon # vs \<Rightarrow>
          (case read_value d vs of
             Some (v, TRBrace # r) \<Rightarrow> Some ([(k, v)], r)
           | Some (v, TComma # r) \<Rightarrow> if length r < length ts then prepend [(k, v)] (read_members d r) else None
           | _ \<Rightarrow> None)
      | _ \<Rightarrow> None)"
  by pat_completeness auto
termination
  by (relation "measures [\<lambda>x. case x of Inl (d, ts) \<Rightarrow> length ts | Inr (Inl (d, ts)) \<Rightarrow> length ts | Inr (Inr (d, ts)) \<Rightarrow> length ts,
      \<lambda>x. case x of Inl _ \<Rightarrow> 0 | _ \<Rightarrow> 1]") auto

definition json_parse :: "string \<Rightarrow> json option" where
  "json_parse s =
     (case tokens s of
        None \<Rightarrow> None
      | Some ts \<Rightarrow> (case read_value maxNestingDepth ts of Some (v, []) \<Rightarrow> Some v | _ \<Rightarrow> None))"

section \<open>Text\<close>

definition newline :: "nat \<Rightarrow> string" where
  "newline l = CHR 0x0A # replicate (2 * l) CHR '' ''"

definition quoted :: "bytes \<Rightarrow> string" where
  "quoted x = CHR 0x22 # escape_string x @ [CHR 0x22]"

text \<open>\<open>json.MarshalIndent(v, "", "  ")\<close> and \<open>json.Marshal(v)\<close>.\<close>

fun json_indent :: "nat \<Rightarrow> json \<Rightarrow> string" where
  "json_indent l JNull = ''null''"
| "json_indent l (JBool b) = (if b then ''true'' else ''false'')"
| "json_indent l (JNum n) = n"
| "json_indent l (JStr x) = quoted x"
| "json_indent l (JArr vs) =
     (if vs = [] then ''[]''
      else ''['' @ newline (l + 1) @ join ('','' @ newline (l + 1)) (map (json_indent (l + 1)) vs) @ newline l @ '']'')"
| "json_indent l (JObj ms) =
     (if ms = [] then [CHR 0x7B, CHR 0x7D]
      else CHR 0x7B # newline (l + 1) @ join ('','' @ newline (l + 1)) (map (\<lambda>(k, v). quoted k @ '': '' @ json_indent (l + 1) v) ms)
        @ newline l @ [CHR 0x7D])"

fun json_text :: "json \<Rightarrow> string" where
  "json_text JNull = ''null''"
| "json_text (JBool b) = (if b then ''true'' else ''false'')"
| "json_text (JNum n) = n"
| "json_text (JStr x) = quoted x"
| "json_text (JArr vs) = ''['' @ join '','' (map json_text vs) @ '']''"
| "json_text (JObj ms) = CHR 0x7B # join '','' (map (\<lambda>(k, v). quoted k @ '':'' @ json_text v) ms) @ [CHR 0x7D]"

section \<open>Reading what was written\<close>

definition ascii :: "bytes \<Rightarrow> bool" where "ascii s \<longleftrightarrow> list_all (\<lambda>c. byte_val c < 128) s"

lemma read_string_quote [simp]: "read_string (CHR 0x22 # s) = Some ([], s)"
  by simp

lemma read_escape_byte:
  assumes "b < 128"
  shows "read_string (escape_byte b @ s) = prepend [char_of b] (read_string s)"
proof -
  have ch: "char_of (34 :: nat) = CHR 0x22" "char_of (92 :: nat) = CHR 0x5C" "char_of (8 :: nat) = CHR 0x08"
    "char_of (12 :: nat) = CHR 0x0C" "char_of (10 :: nat) = CHR 0x0A" "char_of (13 :: nat) = CHR 0x0D"
    "char_of (9 :: nat) = CHR 0x09" by code_simp+
  have v: "byte_val (char_of b :: char) = b" using assms by simp
  have r: "encode_rune b = [char_of b]" using assms by (simp add: encode_rune_def Let_def surrogate_def)
  have h: "hex4 CHR ''0'' CHR ''0'' (hex_digit (b div 16)) (hex_digit (b mod 16)) = Some b"
  proof -
    have "b div 16 < 16" using assms by simp
    moreover have "hex_val CHR ''0'' = Some 0" by code_simp
    ultimately show ?thesis by (simp add: hex4_def hex_digit_val)
  qed
  consider "b = 34" | "b = 92" | "b = 8" | "b = 12" | "b = 10" | "b = 13" | "b = 9"
    | (u) "b \<notin> {34, 92, 8, 12, 10, 13, 9}" "b < 32 \<or> b = 60 \<or> b = 62 \<or> b = 38"
    | (plain) "b \<notin> {34, 92}" "32 \<le> b" "b \<noteq> 60" "b \<noteq> 62" "b \<noteq> 38" by fastforce
  then show ?thesis
  proof cases
    case u
    then have "escape_byte b = [CHR 0x5C, CHR ''u'', CHR ''0'', CHR ''0'', hex_digit (b div 16), hex_digit (b mod 16)]"
      by (auto simp: escape_byte_def)
    moreover have "(55296 \<le> b) = False" using assms by simp
    ultimately show ?thesis by (simp add: simple_escape_def h r)
  next
    case plain
    then have e: "escape_byte b = [char_of b]" by (simp add: escape_byte_def)
    have "char_of b \<noteq> CHR 0x22" "char_of b \<noteq> CHR 0x5C"
    proof -
      have "byte_val CHR 0x22 = (34 :: nat)" "byte_val CHR 0x5C = (92 :: nat)" by simp_all
      then show "char_of b \<noteq> CHR 0x22" "char_of b \<noteq> CHR 0x5C" using plain(1) v by (metis insertCI)+
    qed
    then show ?thesis using plain assms v by (simp add: e)
  qed (simp_all add: escape_byte_def simple_escape_def ch)
qed

lemma read_escape_string: "ascii x \<Longrightarrow> read_string (escape_string x @ CHR 0x22 # r) = Some (x, r)"
proof (induction x)
  case (Cons c x)
  then have c: "byte_val c < 128" and x: "ascii x" by (simp_all add: ascii_def)
  have "escape_string (c # x) = escape_byte (byte_val c) @ escape_string x" using c by (simp add: Let_def split: prod.split)
  then show ?case using Cons.IH [OF x] c by (simp add: read_escape_byte prepend_def del: escape_string.simps read_string.simps)
qed simp

text \<open>The tokens of a value.\<close>

fun tok_join :: "tok list list \<Rightarrow> tok list" where
  "tok_join [] = []"
| "tok_join [x] = x"
| "tok_join (x # y # ys) = x @ TComma # tok_join (y # ys)"

fun toks :: "json \<Rightarrow> tok list" where
  "toks JNull = [TNull]"
| "toks (JBool b) = [if b then TTrue else TFalse]"
| "toks (JNum n) = [TNum n]"
| "toks (JStr x) = [TStr x]"
| "toks (JArr vs) = TLBrack # tok_join (map toks vs) @ [TRBrack]"
| "toks (JObj ms) = TLBrace # tok_join (map (\<lambda>(k, v). TStr k # TColon # toks v) ms) @ [TRBrace]"

text \<open>The values the code writes: ASCII strings and decimal integers, nested at most \<open>d\<close> deep.\<close>

fun json_ok :: "nat \<Rightarrow> json \<Rightarrow> bool" where
  "json_ok d (JNum n) = (\<exists>i. n = itoa i)"
| "json_ok d (JStr x) = ascii x"
| "json_ok d (JArr vs) = (d > 0 \<and> (\<forall>v\<in>set vs. json_ok (d - 1) v))"
| "json_ok d (JObj ms) = (d > 0 \<and> (\<forall>(k, v)\<in>set ms. ascii k \<and> json_ok (d - 1) v))"
| "json_ok d _ = True"

lemma tok_join_Cons: "xs \<noteq> [] \<Longrightarrow> tok_join (x # xs) = x @ TComma # tok_join xs"
  by (cases xs) simp_all

lemma read_elems_toks:
  assumes "\<And>v ts. v \<in> set vs \<Longrightarrow> read_value d (toks v @ ts) = Some (v, ts)" and "vs \<noteq> []"
  shows "read_elems d (tok_join (map toks vs) @ TRBrack # ts) = Some (vs, ts)"
  using assms
proof (induction vs)
  case (Cons v vs)
  then show ?case by (cases "vs = []") (simp_all add: tok_join_Cons prepend_def)
qed simp

lemma read_members_toks:
  assumes "\<And>k v ts. (k, v) \<in> set ms \<Longrightarrow> read_value d (toks v @ ts) = Some (v, ts)" and "ms \<noteq> []"
  shows "read_members d (tok_join (map (\<lambda>(k, v). TStr k # TColon # toks v) ms) @ TRBrace # ts) = Some (ms, ts)"
  using assms
proof (induction ms)
  case (Cons m ms)
  obtain k v where m: "m = (k, v)" by fastforce
  show ?case
  proof (cases "ms = []")
    case True
    then show ?thesis using Cons.prems(1) [of k v] m by simp
  next
    case False
    have "read_members d (tok_join (map (\<lambda>(k, v). TStr k # TColon # toks v) ms) @ TRBrace # ts) = Some (ms, ts)"
      by (rule Cons.IH) (use Cons.prems(1) False in auto)
    then show ?thesis using Cons.prems(1) [of k v] m False by (simp add: tok_join_Cons prepend_def del: read_members.simps add: read_members.simps [of d "TStr k # _"])
  qed
qed simp

lemma toks_hd: "toks v \<noteq> [] \<and> hd (toks v) \<noteq> TRBrack \<and> hd (toks v) \<noteq> TRBrace"
  by (cases v) simp_all

lemma tok_join_hd: "xs \<noteq> [] \<Longrightarrow> hd xs \<noteq> [] \<Longrightarrow> tok_join xs \<noteq> [] \<and> hd (tok_join xs) = hd (hd xs)"
  by (cases xs rule: tok_join.cases) auto

lemma read_value_toks: "json_ok d v \<Longrightarrow> read_value d (toks v @ ts) = Some (v, ts)"
proof (induction v arbitrary: d ts)
  case (JArr vs)
  show ?case
  proof (cases "vs = []")
    case True
    then show ?thesis using JArr.prems by simp
  next
    case False
    have r: "read_elems (d - 1) (tok_join (map toks vs) @ TRBrack # ts) = Some (vs, ts)"
      using JArr False by (intro read_elems_toks) simp_all
    have "tok_join (map toks vs) \<noteq> [] \<and> hd (tok_join (map toks vs)) \<noteq> TRBrack"
      using tok_join_hd [of "map toks vs"] toks_hd [of "hd vs"] False by (simp add: hd_map)
    then show ?thesis using r JArr.prems by (simp add: hd_append del: read_elems.simps)
  qed
next
  case (JObj ms)
  show ?case
  proof (cases "ms = []")
    case True
    then show ?thesis using JObj.prems by simp
  next
    case False
    let ?ts = "tok_join (map (\<lambda>(k, v). TStr k # TColon # toks v) ms)"
    have "\<And>k v ts. (k, v) \<in> set ms \<Longrightarrow> read_value (d - 1) (toks v @ ts) = Some (v, ts)"
      using JObj.IH JObj.prems by fastforce
    then have r: "read_members (d - 1) (?ts @ TRBrace # ts) = Some (ms, ts)"
      using False by (intro read_members_toks)
    have "?ts \<noteq> [] \<and> hd ?ts \<noteq> TRBrace"
      using tok_join_hd [of "map (\<lambda>(k, v). TStr k # TColon # toks v) ms"] False by (auto simp: hd_map split: prod.splits)
    then show ?thesis using r JObj.prems by (simp add: hd_append del: read_members.simps)
  qed
qed (auto split: if_splits)

text \<open>A text that reads as the given tokens before anything that does not continue a number.\<close>

definition stops :: "string \<Rightarrow> bool" where
  "stops r \<longleftrightarrow> r = [] \<or> \<not> is_digit (hd r) \<and> hd r \<noteq> CHR ''.'' \<and> hd r \<noteq> CHR ''e'' \<and> hd r \<noteq> CHR ''E''"

definition reads :: "string \<Rightarrow> tok list \<Rightarrow> bool" where
  "reads s ts \<longleftrightarrow> (\<forall>r. stops r \<longrightarrow> tokens (s @ r) = map_option (\<lambda>u. ts @ u) (tokens r))"

lemma nat_str_head: "n > 0 \<Longrightarrow> hd (nat_str n) \<noteq> CHR ''0''"
proof (induction n rule: nat_str.induct)
  case (1 n)
  have d0: "digit_char d = CHR ''0'' \<longleftrightarrow> d = 0" if "d < 10" for d
  proof -
    have "digit_val CHR ''0'' = 0" "digit_char 0 = CHR ''0''" by code_simp+
    then show ?thesis using digit_roundtrip [OF that] by metis
  qed
  show ?case
  proof (cases "n < 10")
    case True
    then show ?thesis using 1 d0 by (subst nat_str.simps) simp
  next
    case False
    then show ?thesis using 1 by (subst nat_str.simps) (simp add: hd_append)
  qed
qed

lemma stops_simps: "stops r \<Longrightarrow> read_frac r = Some [] \<and> read_exp r = Some [] \<and> digits_of r = []"
  by (cases r) (auto simp: stops_def read_frac_def read_exp_def digits_of_def)

lemma whole_nat_str:
  assumes "stops r"
  shows "(case nat_str n @ r of [] \<Rightarrow> [] | c # _ \<Rightarrow> if c = CHR ''0'' then [c] else digits_of (nat_str n @ r)) = nat_str n"
proof (cases "n = 0")
  case True
  have "nat_str 0 = ''0''" by code_simp
  then show ?thesis using True by simp
next
  case False
  have "digits_of (nat_str n @ r) = nat_str n"
    using assms stops_simps nat_str_digits unfolding digits_of_def by (metis append_Nil2 takeWhile_append2)
  moreover obtain c cs where "nat_str n = c # cs" by (cases "nat_str n") auto
  ultimately show ?thesis using nat_str_head [of n] False by simp
qed

lemma read_whole:
  assumes "stops r" and "sign = [] \<or> sign = ''-''" and "sign = [] \<longrightarrow> hd (nat_str n) \<noteq> CHR ''-''"
  shows "read_number (sign @ nat_str n @ r) = Some (sign @ nat_str n)"
proof -
  have s: "(case sign @ nat_str n @ r of [] \<Rightarrow> [] | c # _ \<Rightarrow> if c = CHR ''-'' then [c] else []) = sign"
    using assms(2,3) by (cases "nat_str n") auto
  show ?thesis
    unfolding read_number_def s Let_def
    using whole_nat_str [OF assms(1), of n] stops_simps [OF assms(1)] by (simp only: append_eq_conv_conj length_append
        drop_append drop_all append_Nil diff_self_eq_0 drop0 append_assoc list.size nat_str_not_Nil if_False option.case
        le_refl add_0_right append_Nil2 option.map)
qed

lemma read_number_itoa:
  assumes "stops r"
  shows "read_number (itoa i @ r) = Some (itoa i)"
proof -
  have "hd (nat_str n) \<noteq> CHR ''-''" for n
    using nat_str_digits [of "hd (nat_str n)" n] is_digit_not_sign by (metis hd_in_set nat_str_not_Nil)
  then show ?thesis
    using read_whole [OF assms, of "[]" "nat i"] read_whole [OF assms, of "''-''" "nat (- i)"] by (simp add: itoa_def)
qed

lemma reads_num: "reads (itoa i) [TNum (itoa i)]"
proof -
  obtain c cs where c: "itoa i = c # cs" by (cases "itoa i") auto
  then have d: "is_digit c \<or> c = CHR ''-''" using itoa_bytes [of c i] by simp
  have other: "punctuation c = None" "c \<noteq> CHR 0x22" "\<not> json_space c" "c \<noteq> CHR ''t''" "c \<noteq> CHR ''f''" "c \<noteq> CHR ''n''"
    using d by (auto simp: punctuation_def json_space_def is_digit_def)
  then have lit: "literal_at (c # s) = None" for s by (simp add: literal_at_def literals_def)
  have "tokens (itoa i @ r) = map_option (Cons (TNum (itoa i))) (tokens r)" if "stops r" for r
    using read_number_itoa [OF that, of i] other lit by (simp add: c next_tok_def)
  then show ?thesis by (simp add: reads_def)
qed

lemma reads_str: "ascii x \<Longrightarrow> reads (quoted x) [TStr x]"
  by (simp add: reads_def quoted_def next_tok_def punctuation_def json_space_def read_escape_string
      del: read_string.simps escape_string.simps)

lemma tokens_space: "list_all json_space sp \<Longrightarrow> tokens (sp @ r) = tokens r"
  by (induction sp) simp_all

lemma json_space_newline: "list_all json_space (newline l)"
  by (simp add: newline_def json_space_def list_all_iff)

lemma tokens_comma: "list_all json_space sp \<Longrightarrow> tokens ('','' @ sp @ r) = map_option (Cons TComma) (tokens r)"
  by (simp add: next_tok_def punctuation_def json_space_def [of "CHR '',''"] tokens_space)

lemma reads_join:
  assumes "\<And>x. x \<in> set xs \<Longrightarrow> reads (f x) (g x)" and "list_all json_space sp" and "xs \<noteq> []"
  shows "reads (join ('','' @ sp) (map f xs)) (tok_join (map g xs))"
  using assms(1,3)
proof (induction xs)
  case (Cons x xs)
  show ?case
  proof (cases "xs = []")
    case False
    have "tokens (f x @ '','' @ sp @ join ('','' @ sp) (map f xs) @ r)
        = map_option (\<lambda>u. tok_join (map g (x # xs)) @ u) (tokens r)" if "stops r" for r
    proof -
      have "stops ('','' @ sp @ join ('','' @ sp) (map f xs) @ r)" by (simp add: stops_def is_digit_def)
      then have "tokens (f x @ '','' @ sp @ join ('','' @ sp) (map f xs) @ r)
          = map_option (\<lambda>u. g x @ u) (tokens ('','' @ sp @ join ('','' @ sp) (map f xs) @ r))"
        using Cons.prems(1) [of x] by (simp add: reads_def)
      also have "\<dots> = map_option (\<lambda>u. g x @ TComma # u) (tokens (join ('','' @ sp) (map f xs) @ r))"
        by (simp only: tokens_comma [OF assms(2)] option.map_comp comp_def)
      also have "\<dots> = map_option (\<lambda>u. tok_join (map g (x # xs)) @ u) (tokens r)"
        using Cons.IH Cons.prems False that by (simp add: reads_def option.map_comp comp_def tok_join_Cons)
      finally show ?thesis .
    qed
    then show ?thesis using False by (simp add: reads_def join_Cons)
  qed (use Cons.prems in simp)
qed simp

lemma tokens_punct:
  assumes "punctuation c = Some t"
  shows "tokens (c # r) = map_option (Cons t) (tokens r)"
proof -
  have "\<not> json_space c" using assms by (auto simp: punctuation_def json_space_def split: if_splits)
  then show ?thesis using assms by (simp add: next_tok_def)
qed

lemma punctuation_chars:
  "punctuation (CHR ''['') = Some TLBrack" "punctuation (CHR '']'') = Some TRBrack"
  "punctuation (CHR 0x7B) = Some TLBrace" "punctuation (CHR 0x7D) = Some TRBrace" "punctuation (CHR '':'') = Some TColon"
  by code_simp+

lemmas tokens_puncts = punctuation_chars [THEN tokens_punct]

text \<open>A bracketed, comma-separated list with spaces around its elements.\<close>

lemma reads_bracket:
  assumes "\<And>x. x \<in> set xs \<Longrightarrow> reads (f x) (g x)" and "list_all json_space sp" "list_all json_space sq" and "xs \<noteq> []"
    and "punctuation a = Some ta" "punctuation b = Some tb" and stop: "\<And>r. stops (sq @ b # r)"
  shows "reads (a # sp @ join ('','' @ sp) (map f xs) @ sq @ [b]) (ta # tok_join (map g xs) @ [tb])"
proof -
  have "tokens (a # sp @ join ('','' @ sp) (map f xs) @ sq @ b # r)
      = map_option (\<lambda>u. ta # tok_join (map g xs) @ tb # u) (tokens r)" for r
    using reads_join [where f = f and g = g, OF assms(1) assms(2) assms(4)] stop [of r]
    by (simp add: reads_def tokens_punct assms tokens_space option.map_comp comp_def del: tokens.simps)
  then show ?thesis by (simp add: reads_def)
qed

lemma reads_member:
  assumes "ascii k" and "reads s ts" and "list_all json_space sp"
  shows "reads (quoted k @ CHR '':'' # sp @ s) (TStr k # TColon # ts)"
proof -
  have "stops (CHR '':'' # sp @ s @ r)" for r by (simp add: stops_def is_digit_def)
  then have "tokens (quoted k @ CHR '':'' # sp @ s @ r) = map_option (\<lambda>u. TStr k # TColon # ts @ u) (tokens r)" if "stops r" for r
    using reads_str [OF assms(1)] assms(2) that
    by (simp add: reads_def tokens_puncts tokens_space [OF assms(3)] option.map_comp comp_def del: tokens.simps)
  then show ?thesis by (simp add: reads_def)
qed

lemma reads_literals: "reads ''null'' [TNull]" "reads ''true'' [TTrue]" "reads ''false'' [TFalse]"
  by (simp_all add: reads_def next_tok_def punctuation_def json_space_def literal_at_def literals_def)

lemma stops_closing: "stops (newline l @ r)" "stops (CHR '']'' # r)" "stops (CHR 0x7D # r)"
  by (simp_all add: stops_def newline_def is_digit_def)

lemma reads_empty: "reads ''[]'' [TLBrack, TRBrack]" "reads [CHR 0x7B, CHR 0x7D] [TLBrace, TRBrace]"
  by (simp_all add: reads_def tokens_puncts option.map_comp comp_def del: tokens.simps)

lemma reads_indent: "json_ok d v \<Longrightarrow> reads (json_indent l v) (toks v)"
proof (induction v arbitrary: d l)
  case (JNum n)
  then show ?case using reads_num by auto
next
  case (JArr vs)
  show ?case
  proof (cases "vs = []")
    case False
    have el: "reads (json_indent (Suc l) v) (toks v)" if "v \<in> set vs" for v using JArr that by auto
    show ?thesis
      using False reads_bracket [of vs "json_indent (Suc l)" toks "newline (Suc l)" "newline l" "CHR ''[''" TLBrack "CHR '']''" TRBrack]
      by (simp add: el json_space_newline punctuation_chars stops_closing)
  qed (simp add: reads_empty)
next
  case (JObj ms)
  show ?case
  proof (cases "ms = []")
    case False
    have el: "reads (case m of (k, v) \<Rightarrow> quoted k @ '': '' @ json_indent (Suc l) v) (case m of (k, v) \<Rightarrow> TStr k # TColon # toks v)"
      if "m \<in> set ms" for m
    proof -
      obtain k v where m: "m = (k, v)" by fastforce
      have "ascii k" "json_ok (d - 1) v" using JObj.prems that m by auto
      moreover have "reads (json_indent (Suc l) v) (toks v)" using JObj.IH [OF that] m \<open>json_ok (d - 1) v\<close> by simp
      ultimately show ?thesis using reads_member [of k "json_indent (Suc l) v" "toks v" "'' ''"] m by (simp add: json_space_def)
    qed
    show ?thesis
      using False reads_bracket [of ms "\<lambda>(k, v). quoted k @ '': '' @ json_indent (Suc l) v" "\<lambda>(k, v). TStr k # TColon # toks v"
          "newline (Suc l)" "newline l" "CHR 0x7B" TLBrace "CHR 0x7D" TRBrace, OF el]
      by (simp add: json_space_newline punctuation_chars stops_closing)
  qed (simp add: reads_empty)
qed (simp_all add: reads_literals reads_str)

lemma reads_text: "json_ok d v \<Longrightarrow> reads (json_text v) (toks v)"
proof (induction v arbitrary: d)
  case (JNum n)
  then show ?case using reads_num by auto
next
  case (JArr vs)
  show ?case
  proof (cases "vs = []")
    case False
    have el: "reads (json_text v) (toks v)" if "v \<in> set vs" for v using JArr that by auto
    show ?thesis
      using False reads_bracket [of vs json_text toks "[]" "[]" "CHR ''[''" TLBrack "CHR '']''" TRBrack]
      by (simp add: el punctuation_chars stops_closing)
  qed (simp add: reads_empty)
next
  case (JObj ms)
  show ?case
  proof (cases "ms = []")
    case False
    have el: "reads (case m of (k, v) \<Rightarrow> quoted k @ '':'' @ json_text v) (case m of (k, v) \<Rightarrow> TStr k # TColon # toks v)"
      if "m \<in> set ms" for m
    proof -
      obtain k v where m: "m = (k, v)" by fastforce
      have "ascii k" "json_ok (d - 1) v" using JObj.prems that m by auto
      moreover have "reads (json_text v) (toks v)" using JObj.IH [OF that] m \<open>json_ok (d - 1) v\<close> by simp
      ultimately show ?thesis using reads_member [of k "json_text v" "toks v" "[]"] m by simp
    qed
    show ?thesis
      using False reads_bracket [of ms "\<lambda>(k, v). quoted k @ '':'' @ json_text v" "\<lambda>(k, v). TStr k # TColon # toks v"
          "[]" "[]" "CHR 0x7B" TLBrace "CHR 0x7D" TRBrace, OF el]
      by (simp add: punctuation_chars stops_closing)
  qed (simp add: reads_empty)
qed (simp_all add: reads_literals reads_str)

lemma json_parse_reads:
  assumes "reads s (toks v)" and "json_ok maxNestingDepth v"
  shows "json_parse s = Some v"
proof -
  have "tokens s = Some (toks v)" using assms(1) by (simp add: reads_def stops_def)
  then show ?thesis using read_value_toks [OF assms(2), of "[]"] by (simp add: json_parse_def)
qed

lemma json_parse_indent: "json_ok maxNestingDepth v \<Longrightarrow> json_parse (json_indent 0 v) = Some v"
  by (intro json_parse_reads reads_indent)

lemma json_parse_text: "json_ok maxNestingDepth v \<Longrightarrow> json_parse (json_text v) = Some v"
  by (intro json_parse_reads reads_text)

end
