(* ===== verification/Client_State.thy ===== *)
theory Client_State
  imports CP_Server WG_Config Go_IO Go_Json
begin

text \<open>
  \<open>pkg/clientd/agent.go\<close>, the state of the node agent: the peers and the ownership entries it last received, how
  an update of a stream changes them, and the cache file that keeps them as JSON. Messages that arrive over gRPC
  have no nil elements. A Go slice that is nil and one that is empty differ only in their JSON text; the text
  written here is that of a cloned state, as the code writes it.
\<close>

section \<open>States\<close>

record cached_peer =
  cp_name :: string
  cp_role :: role
  cp_overlay_ip :: string
  cp_pubkey :: bytes
  cp_endpoint_host :: string
  cp_allowed_ips :: "string list"
  cp_keepalive :: int
  cp_protocol :: string

record cached_owner =
  co_overlay_ip :: string
  co_owning_master :: string
  co_last_reassigned_at_unix :: int
  co_reason :: string

record client_state =
  cs_peers :: "cached_peer list"
  cs_ownership :: "cached_owner list"
  cs_peer_list_version :: int
  cs_ownership_version :: int

definition zero_state :: client_state where
  "zero_state = \<lparr>cs_peers = [], cs_ownership = [], cs_peer_list_version = 0, cs_ownership_version = 0\<rparr>"

definition State_IsZero :: "client_state \<Rightarrow> bool" where
  "State_IsZero s \<longleftrightarrow> length (cs_peers s) = 0 \<and> length (cs_ownership s) = 0 \<and> cs_peer_list_version s = 0
     \<and> cs_ownership_version s = 0"

definition cached_of_peer :: "peer_entry \<Rightarrow> cached_peer" where
  "cached_of_peer p =
     \<lparr>cp_name = pe_name p, cp_role = [], cp_overlay_ip = pe_overlay_ip p, cp_pubkey = pe_pubkey p,
      cp_endpoint_host = pe_endpoint_host p, cp_allowed_ips = pe_allowed_ips p, cp_keepalive = pe_keepalive p,
      cp_protocol = pe_protocol p\<rparr>"

definition withPeerList :: "client_state \<Rightarrow> peer_list_update \<Rightarrow> client_state" where
  "withPeerList s u = s\<lparr>cs_peer_list_version := pu_version u, cs_peers := map cached_of_peer (pu_peers u)\<rparr>"

definition WithPeerList :: "client_state \<Rightarrow> peer_list_update option \<Rightarrow> client_state \<times> bool" where
  "WithPeerList s update =
     (case update of
        None \<Rightarrow> (s, False)
      | Some u \<Rightarrow> if pu_version u \<le> cs_peer_list_version s then (s, False) else (withPeerList s u, True))"

definition WithPeerListSnapshot :: "client_state \<Rightarrow> peer_list_update option \<Rightarrow> client_state \<times> bool" where
  "WithPeerListSnapshot s update = (case update of None \<Rightarrow> (s, False) | Some u \<Rightarrow> (withPeerList s u, True))"

definition cached_of_owner :: "ownership_proto \<Rightarrow> cached_owner" where
  "cached_of_owner e =
     \<lparr>co_overlay_ip = op_overlay_ip e, co_owning_master = op_owning_master e,
      co_last_reassigned_at_unix = op_last_reassigned_at_unix e, co_reason = op_reason e\<rparr>"

definition withOwnership :: "client_state \<Rightarrow> ownership_update \<Rightarrow> client_state" where
  "withOwnership s u = s\<lparr>cs_ownership_version := ou_version u, cs_ownership := map cached_of_owner (ou_entries u)\<rparr>"

definition WithOwnership :: "client_state \<Rightarrow> ownership_update option \<Rightarrow> client_state \<times> bool" where
  "WithOwnership s update =
     (case update of
        None \<Rightarrow> (s, False)
      | Some u \<Rightarrow> if ou_version u \<le> cs_ownership_version s then (s, False) else (withOwnership s u, True))"

definition WithOwnershipSnapshot :: "client_state \<Rightarrow> ownership_update option \<Rightarrow> client_state \<times> bool" where
  "WithOwnershipSnapshot s update = (case update of None \<Rightarrow> (s, False) | Some u \<Rightarrow> (withOwnership s u, True))"

section \<open>JSON form\<close>

text \<open>The fields of the structs in order, those with \<open>omitempty\<close> only when they are not empty.\<close>

definition omitempty :: "bool \<Rightarrow> string \<Rightarrow> json \<Rightarrow> (bytes \<times> json) list" where
  "omitempty none k v = (if none then [] else [(k, v)])"

definition peer_json :: "cached_peer \<Rightarrow> json" where
  "peer_json p = JObj (
     [(''peer_name'', JStr (cp_name p))]
     @ omitempty (cp_role p = []) ''peer_role'' (JStr (cp_role p))
     @ [(''peer_overlay_ip'', JStr (cp_overlay_ip p))]
     @ omitempty (cp_pubkey p = []) ''peer_pubkey'' (JStr (b64_encode b64_std True (cp_pubkey p)))
     @ omitempty (cp_endpoint_host p = []) ''peer_endpoint_host'' (JStr (cp_endpoint_host p))
     @ omitempty (cp_allowed_ips p = []) ''allowed_ips'' (JArr (map JStr (cp_allowed_ips p)))
     @ omitempty (cp_keepalive p = 0) ''persistent_keepalive_secs'' (JNum (itoa (cp_keepalive p)))
     @ omitempty (cp_protocol p = []) ''protocol'' (JStr (cp_protocol p)))"

definition owner_json :: "cached_owner \<Rightarrow> json" where
  "owner_json e = JObj (
     [(''overlay_ip'', JStr (co_overlay_ip e)), (''owning_master'', JStr (co_owning_master e)),
      (''last_reassigned_at_unix'', JNum (itoa (co_last_reassigned_at_unix e)))]
     @ omitempty (co_reason e = []) ''reason'' (JStr (co_reason e)))"

text \<open>Cloning turns empty ownership into a nil slice, which is written as \<open>null\<close>.\<close>

definition state_json :: "client_state \<Rightarrow> json" where
  "state_json s = JObj
     [(''peers'', JArr (map peer_json (cs_peers s))),
      (''ownership'', if cs_ownership s = [] then JNull else JArr (map owner_json (cs_ownership s))),
      (''peer_list_version'', JNum (itoa (cs_peer_list_version s))),
      (''ownership_version'', JNum (itoa (cs_ownership_version s)))]"

text \<open>
  Decoding into a Go value: \<open>null\<close> leaves it as it is, and a value of another kind is an error. Members of an object
  are assigned in their order to the field of that name, whatever its case; unknown members are skipped.
\<close>

definition dec_string :: "string \<Rightarrow> json \<Rightarrow> string option" where
  "dec_string old j = (case j of JNull \<Rightarrow> Some old | JStr x \<Rightarrow> Some x | _ \<Rightarrow> None)"

definition dec_int :: "(int \<Rightarrow> bool) \<Rightarrow> int \<Rightarrow> json \<Rightarrow> int option" where
  "dec_int fits old j =
     (case j of
        JNull \<Rightarrow> Some old
      | JNum n \<Rightarrow> (case atoi n of Some i \<Rightarrow> if fits i then Some i else None | None \<Rightarrow> None)
      | _ \<Rightarrow> None)"

definition int32_range :: "int \<Rightarrow> bool" where "int32_range i \<longleftrightarrow> - (2 ^ 31) \<le> i \<and> i < 2 ^ 31"

definition dec_list :: "('a \<Rightarrow> json \<Rightarrow> 'a option) \<Rightarrow> 'a \<Rightarrow> 'a list \<Rightarrow> json \<Rightarrow> 'a list option" where
  "dec_list f zero old j = (case j of JNull \<Rightarrow> Some [] | JArr vs \<Rightarrow> those (map (f zero) vs) | _ \<Rightarrow> None)"

text \<open>A byte slice is a base64 string or an array of small numbers.\<close>

definition dec_bytes :: "bytes \<Rightarrow> json \<Rightarrow> bytes option" where
  "dec_bytes old j =
     (case j of
        JStr x \<Rightarrow> b64_decode b64_std True x
      | _ \<Rightarrow> map_option (map (\<lambda>i. char_of (nat i))) (dec_list (dec_int (\<lambda>i. 0 \<le> i \<and> i < 256)) 0 [] j))"

definition dec_struct :: "(string \<times> ('s \<Rightarrow> json \<Rightarrow> 's option)) list \<Rightarrow> 's \<Rightarrow> json \<Rightarrow> 's option" where
  "dec_struct fs s j =
     (case j of
        JNull \<Rightarrow> Some s
      | JObj ms \<Rightarrow>
          fold (\<lambda>(k, v) acc. case acc of None \<Rightarrow> None | Some s \<Rightarrow>
             (case map_of (map (\<lambda>(name, f). (fold_case name, f)) fs) (fold_case k) of
                None \<Rightarrow> Some s | Some f \<Rightarrow> f s v)) ms (Some s)
      | _ \<Rightarrow> None)"

definition zero_peer :: cached_peer where
  "zero_peer = \<lparr>cp_name = [], cp_role = [], cp_overlay_ip = [], cp_pubkey = [], cp_endpoint_host = [],
     cp_allowed_ips = [], cp_keepalive = 0, cp_protocol = []\<rparr>"

definition zero_owner :: cached_owner where
  "zero_owner = \<lparr>co_overlay_ip = [], co_owning_master = [], co_last_reassigned_at_unix = 0, co_reason = []\<rparr>"

definition dec_peer :: "cached_peer \<Rightarrow> json \<Rightarrow> cached_peer option" where
  "dec_peer = dec_struct
     [(''peer_name'', \<lambda>p j. map_option (\<lambda>x. p\<lparr>cp_name := x\<rparr>) (dec_string (cp_name p) j)),
      (''peer_role'', \<lambda>p j. map_option (\<lambda>x. p\<lparr>cp_role := x\<rparr>) (dec_string (cp_role p) j)),
      (''peer_overlay_ip'', \<lambda>p j. map_option (\<lambda>x. p\<lparr>cp_overlay_ip := x\<rparr>) (dec_string (cp_overlay_ip p) j)),
      (''peer_pubkey'', \<lambda>p j. map_option (\<lambda>x. p\<lparr>cp_pubkey := x\<rparr>) (dec_bytes (cp_pubkey p) j)),
      (''peer_endpoint_host'', \<lambda>p j. map_option (\<lambda>x. p\<lparr>cp_endpoint_host := x\<rparr>) (dec_string (cp_endpoint_host p) j)),
      (''allowed_ips'', \<lambda>p j. map_option (\<lambda>x. p\<lparr>cp_allowed_ips := x\<rparr>) (dec_list dec_string [] (cp_allowed_ips p) j)),
      (''persistent_keepalive_secs'', \<lambda>p j. map_option (\<lambda>x. p\<lparr>cp_keepalive := x\<rparr>) (dec_int int32_range (cp_keepalive p) j)),
      (''protocol'', \<lambda>p j. map_option (\<lambda>x. p\<lparr>cp_protocol := x\<rparr>) (dec_string (cp_protocol p) j))]"

definition dec_owner :: "cached_owner \<Rightarrow> json \<Rightarrow> cached_owner option" where
  "dec_owner = dec_struct
     [(''overlay_ip'', \<lambda>e j. map_option (\<lambda>x. e\<lparr>co_overlay_ip := x\<rparr>) (dec_string (co_overlay_ip e) j)),
      (''owning_master'', \<lambda>e j. map_option (\<lambda>x. e\<lparr>co_owning_master := x\<rparr>) (dec_string (co_owning_master e) j)),
      (''last_reassigned_at_unix'', \<lambda>e j. map_option (\<lambda>x. e\<lparr>co_last_reassigned_at_unix := x\<rparr>)
         (dec_int int64_range (co_last_reassigned_at_unix e) j)),
      (''reason'', \<lambda>e j. map_option (\<lambda>x. e\<lparr>co_reason := x\<rparr>) (dec_string (co_reason e) j))]"

definition dec_state :: "client_state \<Rightarrow> json \<Rightarrow> client_state option" where
  "dec_state = dec_struct
     [(''peers'', \<lambda>s j. map_option (\<lambda>x. s\<lparr>cs_peers := x\<rparr>) (dec_list dec_peer zero_peer (cs_peers s) j)),
      (''ownership'', \<lambda>s j. map_option (\<lambda>x. s\<lparr>cs_ownership := x\<rparr>) (dec_list dec_owner zero_owner (cs_ownership s) j)),
      (''peer_list_version'', \<lambda>s j. map_option (\<lambda>x. s\<lparr>cs_peer_list_version := x\<rparr>)
         (dec_int int64_range (cs_peer_list_version s) j)),
      (''ownership_version'', \<lambda>s j. map_option (\<lambda>x. s\<lparr>cs_ownership_version := x\<rparr>)
         (dec_int int64_range (cs_ownership_version s) j))]"

section \<open>The cache\<close>

datatype cache_error =
    CacheRead io_error
  | CacheParse
  | CacheMkdir io_error
  | CacheCreateTemp io_error
  | CacheWrite io_error
  | CacheClose io_error
  | CacheRename io_error

definition StateCache_Load :: "string \<Rightarrow> (cache_error, client_state) io" where
  "StateCache_Load path w =
     (case os_ReadFile path w of
        (Inl ErrNotExist, w') \<Rightarrow> (Inr zero_state, w')
      | (Inl e, w') \<Rightarrow> (Inl (CacheRead e), w')
      | (Inr b, w') \<Rightarrow>
          (case json_parse b of
             None \<Rightarrow> (Inl CacheParse, w')
           | Some j \<Rightarrow> (case dec_state zero_state j of None \<Rightarrow> (Inl CacheParse, w') | Some s \<Rightarrow> (Inr s, w'))))"

text \<open>The temporary file is removed when the function returns, also after it has been renamed.\<close>

definition StateCache_Save :: "string \<Rightarrow> client_state \<Rightarrow> (cache_error, unit) io" where
  "StateCache_Save path state w =
     (case os_MkdirAll (path_dir path) w of
        (Inl e, w1) \<Rightarrow> (Inl (CacheMkdir e), w1)
      | (Inr _, w1) \<Rightarrow>
          (case os_CreateTemp (path_dir path) (path_base path @ ''.'') ''.tmp'' w1 of
             (Inl e, w2) \<Rightarrow> (Inl (CacheCreateTemp e), w2)
           | (Inr tmp, w2) \<Rightarrow>
               (let done = (\<lambda>r w. (r, snd (os_Remove tmp w))) in
                case os_WriteFile tmp (json_indent 0 (state_json state)) w2 of
                  (Inl e, w3) \<Rightarrow> done (Inl (CacheWrite e)) w3
                | (Inr _, w3) \<Rightarrow>
                    (case os_Other w3 of
                       (Inl e, w4) \<Rightarrow> done (Inl (CacheClose e)) w4
                     | (Inr _, w4) \<Rightarrow>
                         (case os_Rename tmp path w4 of
                            (Inl e, w5) \<Rightarrow> done (Inl (CacheRename e)) w5
                          | (Inr _, w5) \<Rightarrow> done (Inr ()) w5)))))"

section \<open>Saving and loading\<close>

definition peer_storable :: "cached_peer \<Rightarrow> bool" where
  "peer_storable p \<longleftrightarrow> ascii (cp_name p) \<and> ascii (cp_role p) \<and> ascii (cp_overlay_ip p) \<and> ascii (cp_endpoint_host p)
     \<and> list_all ascii (cp_allowed_ips p) \<and> int32_range (cp_keepalive p) \<and> ascii (cp_protocol p)"

definition owner_storable :: "cached_owner \<Rightarrow> bool" where
  "owner_storable e \<longleftrightarrow> ascii (co_overlay_ip e) \<and> ascii (co_owning_master e) \<and> int64_range (co_last_reassigned_at_unix e)
     \<and> ascii (co_reason e)"

definition state_storable :: "client_state \<Rightarrow> bool" where
  "state_storable s \<longleftrightarrow> list_all peer_storable (cs_peers s) \<and> list_all owner_storable (cs_ownership s)
     \<and> int64_range (cs_peer_list_version s) \<and> int64_range (cs_ownership_version s)"

lemma those_map_Some: "(\<And>x. x \<in> set xs \<Longrightarrow> f x = Some (g x)) \<Longrightarrow> those (map f xs) = Some (map g xs)"
  by (induction xs) simp_all

lemma dec_int_itoa: "int64_range i \<Longrightarrow> fits i \<Longrightarrow> dec_int fits old (JNum (itoa i)) = Some i"
  by (simp add: dec_int_def atoi_itoa)

lemma int32_64: "int32_range i \<Longrightarrow> int64_range i"
  by (simp add: int32_range_def int64_range_def min_int64_def max_int64_def)

text \<open>The members are found under their own names.\<close>

lemma field_names:
  "list_all (\<lambda>n. fold_case n = n)
     [''peer_name'', ''peer_role'', ''peer_overlay_ip'', ''peer_pubkey'', ''peer_endpoint_host'', ''allowed_ips'',
      ''persistent_keepalive_secs'', ''protocol'', ''overlay_ip'', ''owning_master'', ''last_reassigned_at_unix'',
      ''reason'', ''peers'', ''ownership'', ''peer_list_version'', ''ownership_version'']"
  by code_simp

lemma dec_struct_Nil: "dec_struct fs s (JObj []) = Some s"
  by (simp add: dec_struct_def)

lemma fold_None: "fold (\<lambda>(k, v) acc. case acc of None \<Rightarrow> None | Some s \<Rightarrow> g k v s) ms None = None"
  by (induction ms) auto

lemma dec_struct_Cons:
  "dec_struct fs s (JObj ((k, v) # ms)) =
     (case map_of (map (\<lambda>(name, f). (fold_case name, f)) fs) (fold_case k) of
        None \<Rightarrow> dec_struct fs s (JObj ms)
      | Some f \<Rightarrow> (case f s v of None \<Rightarrow> None | Some s' \<Rightarrow> dec_struct fs s' (JObj ms)))"
  using fold_None [of "\<lambda>k v s. case map_of (map (\<lambda>(name, f). (fold_case name, f)) fs) (fold_case k) of None \<Rightarrow> Some s | Some f \<Rightarrow> f s v" ms]
  by (simp add: dec_struct_def split: option.split)

lemma dec_struct_omit:
  "dec_struct fs s (JObj (omitempty none k v @ ms)) =
     (if none then dec_struct fs s (JObj ms) else dec_struct fs s (JObj ((k, v) # ms)))"
  by (simp add: omitempty_def)

lemma dec_struct_omit_last:
  "dec_struct fs s (JObj (omitempty none k v)) = (if none then Some s else dec_struct fs s (JObj [(k, v)]))"
  by (simp add: omitempty_def dec_struct_Nil)

lemmas dec_struct_simps = dec_struct_Cons dec_struct_omit dec_struct_omit_last dec_struct_Nil

lemma dec_list_map:
  "(\<And>x. x \<in> set xs \<Longrightarrow> f zero (g x) = Some x) \<Longrightarrow> dec_list f zero old (JArr (map g xs)) = Some xs"
  using those_map_Some [of xs "\<lambda>x. f zero (g x)" "\<lambda>x. x"] by (simp add: dec_list_def comp_def)

lemma dec_owner_json: "owner_storable e \<Longrightarrow> dec_owner zero_owner (owner_json e) = Some e"
  using field_names
  by (cases e) (simp add: owner_json_def dec_owner_def dec_struct_simps dec_string_def owner_storable_def dec_int_itoa
      zero_owner_def del: fold_case.simps)

lemma dec_peer_json: "peer_storable p \<Longrightarrow> dec_peer zero_peer (peer_json p) = Some p"
  using field_names
  by (cases p) (simp add: peer_json_def dec_peer_def dec_struct_simps dec_string_def peer_storable_def dec_int_itoa
      zero_peer_def int32_64 dec_bytes_def b64_decode_encode dec_list_map del: fold_case.simps)

lemma dec_state_json: "state_storable s \<Longrightarrow> dec_state zero_state (state_json s) = Some s"
  using field_names
  by (cases s) (simp add: state_json_def dec_state_def dec_struct_simps state_storable_def dec_int_itoa
      zero_state_def dec_list_map dec_peer_json dec_owner_json list_all_iff dec_list_def [of _ _ _ JNull] del: fold_case.simps)

lemma ascii_b64: "ascii (b64_encode b64_std True x)"
proof -
  have "list_all (\<lambda>c. byte_val c < 128) (CHR ''='' # b64_std)" by code_simp
  then show ?thesis using b64_encode_chars [of b64_std True x] by (auto simp: ascii_def list_all_iff)
qed

lemma field_names_ascii:
  "list_all ascii
     [''peer_name'', ''peer_role'', ''peer_overlay_ip'', ''peer_pubkey'', ''peer_endpoint_host'', ''allowed_ips'',
      ''persistent_keepalive_secs'', ''protocol'', ''overlay_ip'', ''owning_master'', ''last_reassigned_at_unix'',
      ''reason'', ''peers'', ''ownership'', ''peer_list_version'', ''ownership_version'']"
  by code_simp

lemma state_json_ok: "state_storable s \<Longrightarrow> json_ok maxNestingDepth (state_json s)"
  using field_names_ascii
  by (auto simp: state_json_def maxNestingDepth_def peer_json_def owner_json_def omitempty_def state_storable_def
      peer_storable_def owner_storable_def list_all_iff ascii_b64)

lemma state_text_roundtrip:
  "state_storable s \<Longrightarrow> json_parse (json_indent 0 (state_json s)) = Some (state_json s)"
  by (intro json_parse_indent state_json_ok)

text \<open>What a load finds when the file can be read.\<close>

definition parse_cache :: "fnode option \<Rightarrow> cache_error + client_state" where
  "parse_cache f =
     (case f of
        None \<Rightarrow> Inr zero_state
      | Some FDir \<Rightarrow> Inl (CacheRead ErrIsDir)
      | Some (FFile b) \<Rightarrow>
          (case json_parse b of
             None \<Rightarrow> Inl CacheParse
           | Some j \<Rightarrow> (case dec_state zero_state j of None \<Rightarrow> Inl CacheParse | Some s \<Rightarrow> Inr s)))"

definition loaded :: "string \<Rightarrow> filesys \<Rightarrow> cache_error + client_state" where
  "loaded path w = parse_cache (fs_get w path)"

lemma Load_loaded:
  assumes "StateCache_Load path w = (r, w')"
  shows "fs_get w' q = fs_get w q \<and> (r = loaded path w \<or> (\<exists>e. r = Inl (CacheRead (ErrFault e))))"
proof -
  obtain x w1 where x: "os_ReadFile path w = (x, w1)" by fastforce
  have eq: "fs_get w1 q = fs_get w q" using os_ReadFile_files [OF x] by blast
  have cases: "(\<exists>e. x = Inl (ErrFault e)) \<or> x = (case fs_get w path of
      None \<Rightarrow> Inl ErrNotExist | Some FDir \<Rightarrow> Inl ErrIsDir | Some (FFile b) \<Rightarrow> Inr b)"
    using x by (auto simp: os_ReadFile_def os_call_def fs_get_def fs_fault_def split: option.splits prod.splits fnode.splits)
  have "(r, w') = (case x of
      Inl ErrNotExist \<Rightarrow> (Inr zero_state, w1) | Inl e \<Rightarrow> (Inl (CacheRead e), w1)
    | Inr b \<Rightarrow> (case json_parse b of None \<Rightarrow> (Inl CacheParse, w1)
        | Some j \<Rightarrow> (case dec_state zero_state j of None \<Rightarrow> (Inl CacheParse, w1) | Some s \<Rightarrow> (Inr s, w1))))"
    using assms x by (auto simp: StateCache_Load_def split: sum.splits io_error.splits option.splits)
  then show ?thesis
    using cases eq by (auto simp: loaded_def parse_cache_def split: option.splits fnode.splits)
qed

text \<open>The names of temporary files are not the name of the cache.\<close>

definition cache_temp :: "string \<Rightarrow> nat \<Rightarrow> string" where
  "cache_temp path m = joinPath (path_dir path) (path_base path @ ''.'') @ nat_str m @ ''.tmp''"

definition cache_path_ok :: "string \<Rightarrow> bool" where
  "cache_path_ok path \<longleftrightarrow> (\<forall>m. path_clean (cache_temp path m) \<noteq> path_clean path)"

lemma Save_files:
  assumes run: "StateCache_Save path s w = (r, w')" and ok: "cache_path_ok path"
  shows "fs_get w' path = (case r of Inr _ \<Rightarrow> Some (FFile (json_indent 0 (state_json s))) | Inl _ \<Rightarrow> fs_get w path)"
proof -
  let ?b = "json_indent 0 (state_json s)"
  obtain r1 w1 where a: "os_MkdirAll (path_dir path) w = (r1, w1)" by fastforce
  have g1: "fs_get w1 q = fs_get w q" for q by (rule os_MkdirAll_files [OF a])
  obtain r2 w2 where b: "os_CreateTemp (path_dir path) (path_base path @ ''.'') ''.tmp'' w1 = (r2, w2)" by fastforce
  show ?thesis
  proof (cases "(\<exists>e. r1 = Inl e) \<or> (\<exists>e. r2 = Inl e)")
    case True
    then show ?thesis
      using run a b g1 os_CreateTemp_files [OF b, of path] by (auto simp: StateCache_Save_def split: sum.splits)
  next
    case False
    then obtain u tmp where r1: "r1 = Inr u" and r2: "r2 = Inr tmp" by (cases r1; cases r2) auto
    obtain m where m: "tmp = cache_temp path m" using os_CreateTemp_files [OF b, of path] r2 by (auto simp: cache_temp_def)
    have ne: "path_clean path \<noteq> path_clean tmp" using ok unfolding cache_path_ok_def m by metis
    have g2: "fs_get w2 path = fs_get w path" using os_CreateTemp_files [OF b, of path] r2 ne g1 by auto
    obtain r3 w3 where c: "os_WriteFile tmp ?b w2 = (r3, w3)" by fastforce
    obtain r4 w4 where d: "os_Other w3 = (r4, w4)" by fastforce
    obtain r5 w5 where e: "os_Rename tmp path w4 = (r5, w5)" by fastforce
    have g3: "fs_get w3 path = fs_get w path" "r3 = Inr () \<Longrightarrow> fs_get w3 tmp = Some (FFile ?b)"
      using os_WriteFile_files [OF c] ne g2 by auto
    have g4: "fs_get w4 q = fs_get w3 q" for q by (rule os_Other_files [OF d])
    have g5: "case r5 of Inl _ \<Rightarrow> fs_get w5 path = fs_get w4 path | Inr _ \<Rightarrow> fs_get w5 path = fs_get w4 tmp"
      using os_Rename_files [OF e, of path] by (cases r5) auto
    have rm: "fs_get (snd (os_Remove tmp v)) path = fs_get v path" for v
      using os_Remove_files [of tmp v "fst (os_Remove tmp v)" "snd (os_Remove tmp v)" path] ne by simp
    have "(r, w') = (case r3 of Inl e \<Rightarrow> (Inl (CacheWrite e), snd (os_Remove tmp w3)) | Inr _ \<Rightarrow>
       (case r4 of Inl e \<Rightarrow> (Inl (CacheClose e), snd (os_Remove tmp w4)) | Inr _ \<Rightarrow>
       (case r5 of Inl e \<Rightarrow> (Inl (CacheRename e), snd (os_Remove tmp w5)) | Inr _ \<Rightarrow> (Inr (), snd (os_Remove tmp w5)))))"
      using run a b c d e r1 r2 by (cases r3; cases r4; cases r5) (simp_all add: StateCache_Save_def Let_def)
    then show ?thesis using g3 g4 g5 rm by (cases r3; cases r4; cases r5) auto
  qed
qed

lemma Save_loaded:
  assumes "StateCache_Save path s w = (r, w')" and "cache_path_ok path" and "state_storable s"
  shows "loaded path w' = (case r of Inr _ \<Rightarrow> Inr s | Inl _ \<Rightarrow> loaded path w)"
  using Save_files [OF assms(1,2)] state_text_roundtrip [OF assms(3)] dec_state_json [OF assms(3)]
  by (cases r) (simp_all add: loaded_def parse_cache_def)

end
