(* ===== verification/Client_Reload.thy ===== *)
theory Client_Reload
  imports Client_State AllowedIPs
begin

text \<open>
  \<open>pkg/clientd/peer_reload.go\<close>: how a state of the node agent becomes the configuration of the WireGuard device and
  the routes of the host. The device and the link are outside: their calls are recorded, and each may fail,
  depending on the calls that were made before. Host name resolution is a parameter.
\<close>

section \<open>Calls to the device and the link\<close>

datatype device_call =
    CallConfigure wg_config
  | CallAddrAdd string ipnet
  | CallLinkSetUp string
  | CallRoute ipnet string "128 word"

record device_world =
  dw_calls :: "device_call list"
  dw_answer :: "device_call list \<Rightarrow> device_call \<Rightarrow> string option"

datatype reload_error =
    ErrNonMasterPeerRejected string string
  | PeerNameRequired
  | PeerProtocolUnsupported string
  | ErrPeerPublicKeyRequired string
  | PeerKeyInvalid string wg_error
  | PeerAllowedInvalid string string
  | PeerEndpointInvalid string
  | ReloadContextDone
  | TransportRequired
  | ConfigurePeersFailed string
  | LinkConfiguratorRequired
  | AddrAddFailed string
  | LinkUpFailed string
  | RouteFailed ipnet string

type_synonym 'a dev = "device_world \<Rightarrow> (reload_error + 'a) \<times> device_world"

definition dev_call :: "(string \<Rightarrow> reload_error) \<Rightarrow> device_call \<Rightarrow> unit dev" where
  "dev_call err c w =
     ((case dw_answer w (dw_calls w) c of None \<Rightarrow> Inr () | Some e \<Rightarrow> Inl (err e)), w\<lparr>dw_calls := dw_calls w @ [c]\<rparr>)"

definition dev_bind :: "'a dev \<Rightarrow> ('a \<Rightarrow> 'b dev) \<Rightarrow> 'b dev" where
  "dev_bind m f w = (case m w of (Inl e, w') \<Rightarrow> (Inl e, w') | (Inr x, w') \<Rightarrow> f x w')"

section \<open>Peers\<close>

record reload_input =
  ri_local_roles :: "role list"
  ri_peers :: "cached_peer list"
  ri_ownership :: "cached_owner list"

definition localHasClient :: "role list \<Rightarrow> bool" where
  "localHasClient roles \<longleftrightarrow> RoleClient \<in> set roles"

definition allowed_net :: "string \<Rightarrow> string \<Rightarrow> string + ipnet" where
  "allowed_net shown t =
     (case parse_cidr t of
        Some (_, net) \<Rightarrow> Inr net
      | None \<Rightarrow>
          (case parse_ip t of
             None \<Rightarrow> Inl shown
           | Some ip \<Rightarrow> Inr (case to4 ip of Some v \<Rightarrow> IPNet4 v 32 | None \<Rightarrow> IPNet6 ip 128)))"

fun parseAllowedIPs :: "string list \<Rightarrow> string + ipnet list" where
  "parseAllowedIPs [] = Inr []"
| "parseAllowedIPs (v # vs) =
     (let t = trim_space v in
      if t = [] then parseAllowedIPs vs
      else rbind (allowed_net v t) (\<lambda>net. rbind (parseAllowedIPs vs) (\<lambda>nets. Inr (net # nets))))"

definition PeerEntryToWGConfig :: "udp_resolver \<Rightarrow> cached_peer \<Rightarrow> reload_error + peer_config" where
  "PeerEntryToWGConfig resolve p =
     (let name = cp_name p; protocol = cp_protocol p in
      if trim_space name = [] then Inl PeerNameRequired
      else if protocol \<noteq> [] \<and> protocol \<noteq> ProtocolVanilla \<and> protocol \<noteq> ProtocolAmneziaWG
      then Inl (PeerProtocolUnsupported protocol)
      else if length (cp_pubkey p) = 0 then Inl (ErrPeerPublicKeyRequired name)
      else
        rbind (map_err (PeerKeyInvalid name) (NewKey (cp_pubkey p))) (\<lambda>key.
        rbind (map_err (PeerAllowedInvalid name) (parseAllowedIPs (cp_allowed_ips p))) (\<lambda>allowed.
        rbind (if trim_space (cp_endpoint_host p) \<noteq> []
               then (case resolve (cp_endpoint_host p) of None \<Rightarrow> Inl (PeerEndpointInvalid name) | Some a \<Rightarrow> Inr (Some a))
               else Inr None) (\<lambda>endpoint.
          Inr (empty_peer\<lparr>pc_public_key := key, pc_replace_allowed_ips := True, pc_allowed_ips := allowed,
                 pc_endpoint := endpoint,
                 pc_keepalive := (if cp_keepalive p > 0 then Some (wrap64 (cp_keepalive p * 1000000000)) else None)\<rparr>)))))"

fun build_loop :: "udp_resolver \<Rightarrow> cached_peer list \<Rightarrow> reload_error + peer_config list \<times> string list" where
  "build_loop resolve [] = Inr ([], [])"
| "build_loop resolve (p # ps) =
     (case PeerEntryToWGConfig resolve p of
        Inl (ErrPeerPublicKeyRequired _) \<Rightarrow> rbind (build_loop resolve ps) (\<lambda>(out, skipped). Inr (out, cp_name p # skipped))
      | Inl e \<Rightarrow> Inl e
      | Inr cfg \<Rightarrow> rbind (build_loop resolve ps) (\<lambda>(out, skipped). Inr (cfg # out, skipped)))"

definition BuildPeerConfigs :: "udp_resolver \<Rightarrow> reload_input \<Rightarrow> reload_error + peer_config list \<times> string list" where
  "BuildPeerConfigs resolve input =
     (case (if localHasClient (ri_local_roles input)
            then find (\<lambda>p. cp_role p \<noteq> [] \<and> cp_role p \<noteq> RoleMaster) (ri_peers input) else None) of
        Some p \<Rightarrow> Inl (ErrNonMasterPeerRejected (cp_name p) (cp_role p))
      | None \<Rightarrow> build_loop resolve (ri_peers input))"

section \<open>Routes\<close>

definition normalizeCIDR :: "ipnet \<Rightarrow> ipnet" where
  "normalizeCIDR n = (case n of IPNet4 w k \<Rightarrow> IPNet4 (hi_bits (32 - k) w) k | IPNet6 w k \<Rightarrow> IPNet6 (hi_bits (128 - k) w) k)"

text \<open>The address of a network value, in 16-byte form.\<close>

definition net_ip :: "ipnet \<Rightarrow> 128 word" where
  "net_ip n = (case n of IPNet4 w _ \<Rightarrow> v4_in_6 w | IPNet6 w _ \<Rightarrow> w)"

record transport_configurator =
  tc_transport :: "string option"
  tc_local_roles :: "role list"
  tc_private_key :: "key option"
  tc_listen_port :: int
  tc_overlay_address :: "ipnet option"
  tc_has_link :: bool

fun route_loop :: "string \<Rightarrow> ipnet \<Rightarrow> string list \<Rightarrow> ipnet list \<Rightarrow> unit dev" where
  "route_loop iface overlay seen [] w = (Inr (), w)"
| "route_loop iface overlay seen (a # as) w =
     (let route = normalizeCIDR a; key = net_str route in
      if key = net_str (normalizeCIDR overlay) then route_loop iface overlay seen as w
      else if key \<in> set seen then route_loop iface overlay seen as w
      else dev_bind (dev_call (RouteFailed route) (CallRoute route iface (net_ip overlay)))
             (\<lambda>_. route_loop iface overlay (key # seen) as) w)"

definition installPeerRoutes :: "transport_configurator \<Rightarrow> string \<Rightarrow> peer_config list \<Rightarrow> unit dev" where
  "installPeerRoutes c iface peers w =
     (case tc_overlay_address c of
        None \<Rightarrow> (Inr (), w)
      | Some overlay \<Rightarrow>
          if \<not> tc_has_link c then (Inr (), w)
          else route_loop iface overlay [] (concat (map pc_allowed_ips peers)) w)"

text \<open>\<open>Apply\<close>, with what the context says at its two tests.\<close>

definition TransportConfigurator_Apply ::
  "udp_resolver \<Rightarrow> bool \<Rightarrow> bool \<Rightarrow> transport_configurator \<Rightarrow> client_state \<Rightarrow> unit dev" where
  "TransportConfigurator_Apply resolve done1 done2 c state w =
     (if done1 then (Inl ReloadContextDone, w)
      else case tc_transport c of
        None \<Rightarrow> (Inl TransportRequired, w)
      | Some iface \<Rightarrow>
          (let localRoles = (if tc_local_roles c = [] then [RoleClient] else tc_local_roles c) in
           case BuildPeerConfigs resolve \<lparr>ri_local_roles = localRoles, ri_peers = cs_peers state, ri_ownership = cs_ownership state\<rparr> of
             Inl e \<Rightarrow> (Inl e, w)
           | Inr (peers, skipped) \<Rightarrow>
               if done2 then (Inl ReloadContextDone, w)
               else
                 (let cfg = empty_config\<lparr>wc_private_key := tc_private_key c, wc_peers := peers, wc_replace_peers := True,
                        wc_listen_port := (if tc_listen_port c > 0 then Some (tc_listen_port c) else None)\<rparr> in
                  dev_bind (dev_call ConfigurePeersFailed (CallConfigure cfg)) (\<lambda>_ w1.
                    case tc_overlay_address c of
                      None \<Rightarrow> (Inr (), w1)
                    | Some overlay \<Rightarrow>
                        if \<not> tc_has_link c then (Inl LinkConfiguratorRequired, w1)
                        else
                          dev_bind (dev_call AddrAddFailed (CallAddrAdd iface overlay)) (\<lambda>_.
                          dev_bind (dev_call LinkUpFailed (CallLinkSetUp iface)) (\<lambda>_.
                            installPeerRoutes c iface peers)) w1) w)))"

section \<open>What is configured\<close>

lemma build_loop_ok:
  "build_loop resolve ps = Inr (out, skipped) \<Longrightarrow>
     map (PeerEntryToWGConfig resolve) (filter (\<lambda>p. cp_pubkey p \<noteq> []) ps) = map Inr out
     \<and> skipped = map cp_name (filter (\<lambda>p. cp_pubkey p = []) ps)"
proof (induction ps arbitrary: out skipped)
  case (Cons p ps)
  show ?case
  proof (cases "PeerEntryToWGConfig resolve p")
    case (Inr cfg)
    then have "cp_pubkey p \<noteq> []" by (auto simp: PeerEntryToWGConfig_def Let_def split: if_splits)
    moreover obtain out' where "build_loop resolve ps = Inr (out', skipped)" "out = cfg # out'"
      using Cons.prems Inr by (auto simp: res_simps)
    ultimately show ?thesis using Cons.IH Inr by auto
  next
    case (Inl e)
    then obtain n skipped' where e: "e = ErrPeerPublicKeyRequired n" and r: "build_loop resolve ps = Inr (out, skipped')"
      "skipped = cp_name p # skipped'"
      using Cons.prems by (cases e) (auto simp: res_simps)
    have "cp_pubkey p = []"
      using Inl unfolding e by (auto simp: PeerEntryToWGConfig_def Let_def res_simps map_err_def split: if_splits sum.splits option.splits)
    then show ?thesis using Cons.IH [OF r(1)] r(2) by simp
  qed
qed simp

lemma dev_call_sel: "dev_call err c w = (r, w') \<Longrightarrow> dw_calls w' = dw_calls w @ [c] \<and> dw_answer w' = dw_answer w"
  by (auto simp: dev_call_def)

text \<open>The routes that a run without failures installs, in their order.\<close>

fun routes_of :: "ipnet \<Rightarrow> string list \<Rightarrow> ipnet list \<Rightarrow> ipnet list" where
  "routes_of overlay seen [] = []"
| "routes_of overlay seen (a # as) =
     (let route = normalizeCIDR a in
      if net_str route = net_str (normalizeCIDR overlay) \<or> net_str route \<in> set seen then routes_of overlay seen as
      else route # routes_of overlay (net_str route # seen) as)"

lemma route_loop_ok:
  "route_loop iface overlay seen as w = (Inr (), w') \<Longrightarrow>
     dw_calls w' = dw_calls w @ map (\<lambda>n. CallRoute n iface (net_ip overlay)) (routes_of overlay seen as)"
proof (induction as arbitrary: seen w)
  case (Cons a as)
  let ?route = "normalizeCIDR a"
  show ?case
  proof (cases "net_str ?route = net_str (normalizeCIDR overlay) \<or> net_str ?route \<in> set seen")
    case True
    then show ?thesis using Cons by (auto simp: Let_def split: if_splits)
  next
    case False
    let ?c = "CallRoute ?route iface (net_ip overlay)"
    obtain r1 w1 where c: "dev_call (RouteFailed ?route) ?c w = (r1, w1)" by fastforce
    then have "r1 = Inr ()" "route_loop iface overlay (net_str ?route # seen) as w1 = (Inr (), w')"
      using Cons.prems False by (auto simp: Let_def dev_bind_def split: sum.splits)
    then show ?thesis using Cons.IH dev_call_sel [OF c] False by (auto simp: Let_def)
  qed
qed simp

lemma routes_of_set:
  "set (map net_str (routes_of overlay seen as)) =
     (\<lambda>a. net_str (normalizeCIDR a)) ` set as - set seen - {net_str (normalizeCIDR overlay)}
   \<and> distinct (map net_str (routes_of overlay seen as))"
  by (induction as arbitrary: seen) (auto simp: Let_def)

lemma Apply_calls:
  assumes "TransportConfigurator_Apply resolve d1 d2 c state w = (Inr (), w')"
  shows "\<exists>iface peers. tc_transport c = Some iface
    \<and> map (PeerEntryToWGConfig resolve) (filter (\<lambda>p. cp_pubkey p \<noteq> []) (cs_peers state)) = map Inr peers
    \<and> dw_calls w' = dw_calls w
        @ [CallConfigure (empty_config\<lparr>wc_private_key := tc_private_key c, wc_peers := peers, wc_replace_peers := True,
             wc_listen_port := (if tc_listen_port c > 0 then Some (tc_listen_port c) else None)\<rparr>)]
        @ (case tc_overlay_address c of
             None \<Rightarrow> []
           | Some overlay \<Rightarrow> CallAddrAdd iface overlay # CallLinkSetUp iface
               # map (\<lambda>n. CallRoute n iface (net_ip overlay)) (routes_of overlay [] (concat (map pc_allowed_ips peers))))"
proof -
  obtain iface where iface: "tc_transport c = Some iface"
    using assms by (auto simp: TransportConfigurator_Apply_def split: if_splits option.splits)
  let ?in = "\<lparr>ri_local_roles = (if tc_local_roles c = [] then [RoleClient] else tc_local_roles c),
     ri_peers = cs_peers state, ri_ownership = cs_ownership state\<rparr>"
  obtain peers skipped where b: "BuildPeerConfigs resolve ?in = Inr (peers, skipped)"
    using assms by (auto simp: TransportConfigurator_Apply_def iface Let_def split: if_splits sum.splits)
  then have peers: "map (PeerEntryToWGConfig resolve) (filter (\<lambda>p. cp_pubkey p \<noteq> []) (cs_peers state)) = map Inr peers"
    using build_loop_ok [of resolve "cs_peers state" peers skipped] by (auto simp: BuildPeerConfigs_def split: option.splits)
  let ?cfg = "empty_config\<lparr>wc_private_key := tc_private_key c, wc_peers := peers, wc_replace_peers := True,
     wc_listen_port := (if tc_listen_port c > 0 then Some (tc_listen_port c) else None)\<rparr>"
  obtain r1 w1 where c1: "dev_call ConfigurePeersFailed (CallConfigure ?cfg) w = (r1, w1)" by fastforce
  note s1 = dev_call_sel [OF c1]
  have r1: "r1 = Inr ()"
    using assms iface b c1 by (auto simp: TransportConfigurator_Apply_def Let_def dev_bind_def split: if_splits sum.splits)
  show ?thesis
  proof (cases "tc_overlay_address c")
    case None
    then have "w' = w1" using assms iface b c1 r1 by (auto simp: TransportConfigurator_Apply_def Let_def dev_bind_def split: if_splits)
    then show ?thesis using iface peers s1 None by auto
  next
    case (Some overlay)
    obtain r2 w2 where c2: "dev_call AddrAddFailed (CallAddrAdd iface overlay) w1 = (r2, w2)" by fastforce
    obtain r3 w3 where c3: "dev_call LinkUpFailed (CallLinkSetUp iface) w2 = (r3, w3)" by fastforce
    have "route_loop iface overlay [] (concat (map pc_allowed_ips peers)) w3 = (Inr (), w')"
      using assms iface b c1 r1 c2 c3 Some
      by (auto simp: TransportConfigurator_Apply_def Let_def dev_bind_def installPeerRoutes_def split: if_splits sum.splits)
    from route_loop_ok [OF this] show ?thesis
      using iface peers s1 dev_call_sel [OF c2] dev_call_sel [OF c3] Some by auto
  qed
qed

end
