(* ===== verification/Client_Cert.thy ===== *)
theory Client_Cert
  imports Go_IO CP_Cert
begin

text \<open>
  \<open>pkg/clientd/cert_update.go\<close>: a node installs the certificate and the key that the control plane sends. The
  check that a certificate and a key belong together is a parameter. File modes are not modelled.
\<close>

section \<open>Operations\<close>

datatype install_error =
    UpdateRequired
  | CertPEMMissing
  | KeyPEMMissing
  | UpdateExpired
  | PairInvalid string
  | PathsRequired
  | PathsEqual
  | TempFailed string io_error
  | BackupFailed string io_error
  | ReplaceFailed string io_error
  | RollbackFailed install_error "(string \<times> io_error) list"

text \<open>A call on the temporary file; when it fails the file is removed.\<close>

definition or_remove :: "string \<Rightarrow> (io_error, unit) io \<Rightarrow> (io_error, unit) io" where
  "or_remove p m w = (case m w of (Inl e, w') \<Rightarrow> (Inl e, snd (os_Remove p w')) | (Inr x, w') \<Rightarrow> (Inr x, w'))"

definition writeTempFile :: "string \<Rightarrow> bytes \<Rightarrow> (io_error, string) io" where
  "writeTempFile path content =
     io_bind (os_MkdirAll (path_dir path)) (\<lambda>_.
     io_bind (os_CreateTemp (path_dir path) (''.'' @ path_base path @ ''.tmp-'') []) (\<lambda>p.
     io_bind (or_remove p (os_WriteFile p content)) (\<lambda>_.
     io_bind (or_remove p os_Other) (\<lambda>_.
     io_bind (or_remove p os_Other) (\<lambda>_. io_return p)))))"

text \<open>\<open>backupExistingFile\<close>: the backup, if there was a file.\<close>

definition backupExistingFile :: "string \<Rightarrow> (io_error, string option) io" where
  "backupExistingFile path w =
     (case os_Stat path w of
        (Inl ErrNotExist, w1) \<Rightarrow> (Inr None, w1)
      | (Inl e, w1) \<Rightarrow> (Inl e, w1)
      | (Inr FDir, w1) \<Rightarrow> (Inl ErrIsDir, w1)
      | (Inr (FFile _), w1) \<Rightarrow>
          (let backup = path @ ''.bak'' in
           case os_Rename path backup (snd (os_Remove backup w1)) of
             (Inl e, w2) \<Rightarrow> (Inl e, w2)
           | (Inr _, w2) \<Rightarrow> (Inr (Some backup), w2)))"

definition restoreFile :: "string \<Rightarrow> string option \<Rightarrow> bool \<Rightarrow> (io_error, unit) io" where
  "restoreFile path backup installed w =
     (let w1 = (if installed then snd (os_Remove path w) else w) in
      case backup of None \<Rightarrow> (Inr (), w1) | Some b \<Rightarrow> os_Rename b path w1)"

definition restoreCertKeyPair ::
  "string \<Rightarrow> string \<Rightarrow> string option \<Rightarrow> string option \<Rightarrow> bool \<Rightarrow> bool \<Rightarrow> filesys \<Rightarrow> (string \<times> io_error) list \<times> filesys" where
  "restoreCertKeyPair certPath keyPath certBackup keyBackup certInstalled keyInstalled w =
     (case restoreFile certPath certBackup certInstalled w of (r1, w1) \<Rightarrow>
        (case restoreFile keyPath keyBackup keyInstalled w1 of (r2, w2) \<Rightarrow>
           ((case r1 of Inl e \<Rightarrow> [(''cert'', e)] | Inr _ \<Rightarrow> []) @ (case r2 of Inl e \<Rightarrow> [(''key'', e)] | Inr _ \<Rightarrow> []), w2)))"

text \<open>An error after the backups: the old files are put back.\<close>

definition roll_back ::
  "string \<Rightarrow> string \<Rightarrow> string option \<Rightarrow> string option \<Rightarrow> bool \<Rightarrow> install_error \<Rightarrow> (install_error, unit) io" where
  "roll_back certPath keyPath certBackup keyBackup keyInstalled err w =
     (case restoreCertKeyPair certPath keyPath certBackup keyBackup False keyInstalled w of (errs, w') \<Rightarrow>
        (Inl (if errs = [] then err else RollbackFailed err errs), w'))"

definition removeBackup :: "string option \<Rightarrow> filesys \<Rightarrow> filesys" where
  "removeBackup backup w = (case backup of None \<Rightarrow> w | Some b \<Rightarrow> snd (os_Remove b w))"

text \<open>
  The part of \<open>writeCertKeyPairAtomic\<close> after the temporary files exist, with their deferred removal: each is
  removed unless it has been renamed.
\<close>

definition install_pair :: "string \<Rightarrow> string \<Rightarrow> string \<Rightarrow> string \<Rightarrow> (install_error, unit) io" where
  "install_pair certPath keyPath keyTemp certTemp w =
     (let cleanup_both = (\<lambda>w. snd (os_Remove keyTemp (snd (os_Remove certTemp w)))) in
      case backupExistingFile keyPath w of
        (Inl e, w1) \<Rightarrow> (Inl (BackupFailed ''key'' e), cleanup_both w1)
      | (Inr keyBackup, w1) \<Rightarrow>
          (case backupExistingFile certPath w1 of
             (Inl e, w2) \<Rightarrow>
               (case roll_back certPath keyPath None keyBackup False (BackupFailed ''cert'' e) w2 of
                  (r, w3) \<Rightarrow> (r, cleanup_both w3))
           | (Inr certBackup, w2) \<Rightarrow>
               (case os_Rename keyTemp keyPath w2 of
                  (Inl e, w3) \<Rightarrow>
                    (case roll_back certPath keyPath certBackup keyBackup False (ReplaceFailed ''key'' e) w3 of
                       (r, w4) \<Rightarrow> (r, cleanup_both w4))
                | (Inr _, w3) \<Rightarrow>
                    (case os_Rename certTemp certPath w3 of
                       (Inl e, w4) \<Rightarrow>
                         (case roll_back certPath keyPath certBackup keyBackup True (ReplaceFailed ''cert'' e) w4 of
                            (r, w5) \<Rightarrow> (r, snd (os_Remove certTemp w5)))
                     | (Inr _, w4) \<Rightarrow> (Inr (), removeBackup keyBackup (removeBackup certBackup w4))))))"

definition writeCertKeyPairAtomic :: "string \<Rightarrow> string \<Rightarrow> bytes \<Rightarrow> bytes \<Rightarrow> (install_error, unit) io" where
  "writeCertKeyPairAtomic certPath keyPath certPEM keyPEM =
     (if certPath = [] \<or> keyPath = [] then io_fail PathsRequired
      else if path_clean certPath = path_clean keyPath then io_fail PathsEqual
      else
        (\<lambda>w. case writeTempFile keyPath keyPEM w of
           (Inl e, w1) \<Rightarrow> (Inl (TempFailed ''key'' e), w1)
         | (Inr keyTemp, w1) \<Rightarrow>
             (case writeTempFile certPath certPEM w1 of
                (Inl e, w2) \<Rightarrow> (Inl (TempFailed ''cert'' e), snd (os_Remove keyTemp w2))
              | (Inr certTemp, w2) \<Rightarrow> install_pair certPath keyPath keyTemp certTemp w2)))"

definition ApplyCertUpdate ::
  "gotime \<Rightarrow> (bytes \<Rightarrow> bytes \<Rightarrow> string option) \<Rightarrow> string \<Rightarrow> string \<Rightarrow> cert_update option \<Rightarrow> (install_error, unit) io" where
  "ApplyCertUpdate now pairError certPath keyPath update =
     (case update of
        None \<Rightarrow> io_fail UpdateRequired
      | Some u \<Rightarrow>
          if cu_cert_pem u = [] then io_fail CertPEMMissing
          else if cu_key_pem u = [] then io_fail KeyPEMMissing
          else if cu_valid_until_unix u \<noteq> 0 \<and> \<not> time_of_unix (cu_valid_until_unix u) > now then io_fail UpdateExpired
          else case pairError (cu_cert_pem u) (cu_key_pem u) of
            Some e \<Rightarrow> io_fail (PairInvalid e)
          | None \<Rightarrow> writeCertKeyPairAtomic certPath keyPath (cu_cert_pem u) (cu_key_pem u))"

section \<open>Both files or neither\<close>

text \<open>The names that the installation uses do not collide.\<close>

definition temp_name :: "string \<Rightarrow> nat \<Rightarrow> string" where
  "temp_name path m = joinPath (path_dir path) (''.'' @ path_base path @ ''.tmp-'') @ nat_str m"

definition paths_apart :: "string \<Rightarrow> string \<Rightarrow> bool" where
  "paths_apart certPath keyPath \<longleftrightarrow>
     (let four = map path_clean [certPath, keyPath, certPath @ ''.bak'', keyPath @ ''.bak''] in
      distinct four \<and> (\<forall>m. path_clean (temp_name certPath m) \<notin> set four \<and> path_clean (temp_name keyPath m) \<notin> set four))"

abbreviation eq_at :: "filesys \<Rightarrow> filesys \<Rightarrow> string \<Rightarrow> bool" where
  "eq_at w w' q \<equiv> fs_get w' q = fs_get w q"

lemma or_remove_files:
  assumes "or_remove p m w = (r, w')"
    and m: "\<And>r' w1 q. m w = (r', w1) \<Longrightarrow> path_clean q \<noteq> path_clean p \<Longrightarrow> eq_at w w1 q"
  shows "path_clean q \<noteq> path_clean p \<Longrightarrow> eq_at w w' q" and "r = Inr () \<Longrightarrow> m w = (Inr (), w')"
proof -
  obtain r1 w1 where m1: "m w = (r1, w1)" by (cases "m w")
  obtain r2 w2 where d: "os_Remove p w1 = (r2, w2)" by (cases "os_Remove p w1")
  show "path_clean q \<noteq> path_clean p \<Longrightarrow> eq_at w w' q"
    using assms(1) m [OF m1, of q] m1 os_Remove_files [OF d, of q] d by (cases r1) (auto simp: or_remove_def)
  show "r = Inr () \<Longrightarrow> m w = (Inr (), w')"
    using assms(1) m1 by (cases r1) (auto simp: or_remove_def)
qed

lemma writeTempFile_files:
  assumes run: "writeTempFile path c w = (r, w')"
  shows "(\<forall>q. fs_get w q \<noteq> None \<or> (\<forall>m. path_clean q \<noteq> path_clean (temp_name path m)) \<longrightarrow> eq_at w w' q)
    \<and> (\<forall>p. r = Inr p \<longrightarrow> (\<exists>m. p = temp_name path m) \<and> fs_get w p = None \<and> fs_get w' p = Some (FFile c))"
proof -
  obtain r1 w1 where a: "os_MkdirAll (path_dir path) w = (r1, w1)" by fastforce
  have g1: "eq_at w w1 q" for q by (rule os_MkdirAll_files [OF a])
  show ?thesis
  proof (cases r1)
    case (Inl e)
    then show ?thesis using run a g1 by (auto simp: writeTempFile_def io_simps)
  next
    case (Inr u)
    obtain r2 w2 where b: "os_CreateTemp (path_dir path) (''.'' @ path_base path @ ''.tmp-'') [] w1 = (r2, w2)" by fastforce
    show ?thesis
    proof (cases r2)
      case (Inl e)
      then have "eq_at w1 w2 q" for q using os_CreateTemp_files [OF b, of q] by simp
      then show ?thesis using run a b g1 Inr Inl by (auto simp: writeTempFile_def io_simps)
    next
      case p: (Inr p)
      have g2: "fs_get w p = None" "\<exists>m. p = temp_name path m" "path_clean q \<noteq> path_clean p \<Longrightarrow> eq_at w w2 q" for q
        using os_CreateTemp_files [OF b, of q] p g1 by (auto simp: temp_name_def)
      have other: "path_clean q \<noteq> path_clean p"
        if "fs_get w q \<noteq> None \<or> (\<forall>m. path_clean q \<noteq> path_clean (temp_name path m))" for q
        using that g2(1,2) by (auto simp: fs_get_def)
      obtain r3 w3 where d3: "or_remove p (os_WriteFile p c) w2 = (r3, w3)" by fastforce
      obtain r4 w4 where d4: "or_remove p os_Other w3 = (r4, w4)" by fastforce
      obtain r5 w5 where d5: "or_remove p os_Other w4 = (r5, w5)" by fastforce
      have g3: "path_clean q \<noteq> path_clean p \<Longrightarrow> eq_at w2 w3 q" "r3 = Inr () \<Longrightarrow> fs_get w3 p = Some (FFile c)" for q
        using or_remove_files [OF d3] os_WriteFile_files by blast+
      have g4: "path_clean q \<noteq> path_clean p \<Longrightarrow> eq_at w3 w4 q" "r4 = Inr () \<Longrightarrow> eq_at w3 w4 q" for q
        using or_remove_files [OF d4] os_Other_files by blast+
      have g5: "path_clean q \<noteq> path_clean p \<Longrightarrow> eq_at w4 w5 q" "r5 = Inr () \<Longrightarrow> eq_at w4 w5 q" for q
        using or_remove_files [OF d5] os_Other_files by blast+
      have "(r, w') = (case r3 of Inl e \<Rightarrow> (Inl e, w3) | Inr _ \<Rightarrow> (case r4 of Inl e \<Rightarrow> (Inl e, w4) | Inr _ \<Rightarrow>
          (case r5 of Inl e \<Rightarrow> (Inl e, w5) | Inr _ \<Rightarrow> (Inr p, w5))))"
        using run a b Inr p d3 d4 d5 by (cases r3; cases r4; cases r5) (simp_all add: writeTempFile_def io_simps)
      then show ?thesis
        using g2 g3 g4 g5 other by (cases r3; cases r4; cases r5) auto
    qed
  qed
qed

lemma backupExistingFile_files:
  assumes run: "backupExistingFile path w = (r, w')" and apart: "path_clean (path @ ''.bak'') \<noteq> path_clean path"
  shows "(\<forall>q. path_clean q \<noteq> path_clean path \<and> path_clean q \<noteq> path_clean (path @ ''.bak'') \<longrightarrow> eq_at w w' q)
    \<and> (case r of
         Inl _ \<Rightarrow> eq_at w w' path
       | Inr None \<Rightarrow> fs_get w path = None \<and> eq_at w w' path
       | Inr (Some b) \<Rightarrow> b = path @ ''.bak'' \<and> fs_get w path \<noteq> None \<and> fs_get w' b = fs_get w path)"
proof -
  obtain s w1 where s: "os_Stat path w = (s, w1)" by fastforce
  note st = os_Stat_files [OF s]
  obtain d w2 where d: "os_Remove (path @ ''.bak'') w1 = (d, w2)" by fastforce
  have rm: "path_clean q \<noteq> path_clean (path @ ''.bak'') \<Longrightarrow> eq_at w1 w2 q" for q using os_Remove_files [OF d] by blast
  obtain n w3 where n: "os_Rename path (path @ ''.bak'') w2 = (n, w3)" by fastforce
  note rn = os_Rename_files [OF n]
  show ?thesis
  proof (cases "\<exists>c. s = Inr (FFile c)")
    case False
    then show ?thesis
      using run st by (auto simp: backupExistingFile_def s split: sum.splits io_error.splits fnode.splits)
  next
    case True
    then obtain c where c: "s = Inr (FFile c)" by blast
    have old: "fs_get w path = Some (FFile c)" using st c by blast
    have res: "(r, w') = (case n of Inl e \<Rightarrow> (Inl e, w3) | Inr _ \<Rightarrow> (Inr (Some (path @ ''.bak'')), w3))"
      using run by (simp add: backupExistingFile_def s c d n Let_def split: sum.split)
    have w1: "eq_at w w1 q" for q using st by blast
    have w2: "eq_at w2 w3 q" if "n = Inl e" for q e using rn [of q] that by simp
    have w3: "fs_get w3 q = (if path_clean q = path_clean (path @ ''.bak'') then fs_get w2 path
        else if path_clean q = path_clean path then None else fs_get w2 q)" if "n = Inr u" for q u using rn [of q] that by simp
    show ?thesis
    proof (cases n)
      case (Inl e)
      then show ?thesis using res w1 w2 rm apart by auto
    next
      case (Inr u)
      then show ?thesis using res w1 w3 rm apart old by auto
    qed
  qed
qed

lemma restoreFile_files:
  assumes run: "restoreFile path backup installed w = (r, w')"
    and b: "\<And>b. backup = Some b \<Longrightarrow> path_clean b \<noteq> path_clean path"
  shows "(\<forall>q. path_clean q \<noteq> path_clean path \<and> (\<forall>b. backup = Some b \<longrightarrow> path_clean q \<noteq> path_clean b) \<longrightarrow> eq_at w w' q)
    \<and> (r = Inr () \<longrightarrow>
         (case backup of
            None \<Rightarrow> eq_at w w' path \<or> installed \<and> fs_get w' path = None
          | Some b \<Rightarrow> fs_get w' path = fs_get w b))"
proof -
  define w1 where "w1 = (if installed then snd (os_Remove path w) else w)"
  obtain d wd where d: "os_Remove path w = (d, wd)" by fastforce
  have w1: "path_clean q \<noteq> path_clean path \<Longrightarrow> eq_at w w1 q" "eq_at w w1 path \<or> installed \<and> fs_get w1 path = None" for q
    using os_Remove_files [OF d, of q] d by (auto simp: w1_def)
  show ?thesis
  proof (cases backup)
    case None
    then show ?thesis using run w1 by (auto simp: restoreFile_def w1_def [symmetric])
  next
    case (Some b)
    then have n: "os_Rename b path w1 = (r, w')" using run by (simp add: restoreFile_def w1_def [symmetric])
    show ?thesis using os_Rename_files [OF n] w1 Some assms(2) [OF Some] by (cases r) auto
  qed
qed

lemma roll_back_files:
  assumes run: "roll_back c k cb kb installed err w = (r, w')"
    and apart: "distinct [path_clean c, path_clean k, path_clean (c @ ''.bak''), path_clean (k @ ''.bak'')]"
    and cb: "cb = None \<or> cb = Some (c @ ''.bak'')" and kb: "kb = None \<or> kb = Some (k @ ''.bak'')"
    and ok: "\<forall>e errs. r \<noteq> Inl (RollbackFailed e errs)"
  shows "fs_get w' c = (case cb of None \<Rightarrow> fs_get w c | Some b \<Rightarrow> fs_get w b)"
    and "case kb of None \<Rightarrow> eq_at w w' k \<or> installed \<and> fs_get w' k = None | Some b \<Rightarrow> fs_get w' k = fs_get w b"
proof -
  obtain r1 w1 where a: "restoreFile c cb False w = (r1, w1)" by fastforce
  obtain r2 w2 where b: "restoreFile k kb installed w1 = (r2, w2)" by fastforce
  have fin: "w' = w2" "r1 = Inr ()" "r2 = Inr ()"
    using run ok a b by (auto simp: roll_back_def restoreCertKeyPair_def split: sum.splits if_splits)
  have fa: "fs_get w1 c = (case cb of None \<Rightarrow> fs_get w c | Some b \<Rightarrow> fs_get w b)"
    "eq_at w w1 k" "eq_at w w1 (k @ ''.bak'')"
    using restoreFile_files [OF a] cb apart fin by (cases cb; auto)+
  have fb: "eq_at w1 w2 c" "case kb of None \<Rightarrow> eq_at w1 w2 k \<or> installed \<and> fs_get w2 k = None | Some b \<Rightarrow> fs_get w2 k = fs_get w1 b"
    using restoreFile_files [OF b] kb apart fin by (cases kb; auto)+
  show "fs_get w' c = (case cb of None \<Rightarrow> fs_get w c | Some b \<Rightarrow> fs_get w b)" using fa fb fin by simp
  show "case kb of None \<Rightarrow> eq_at w w' k \<or> installed \<and> fs_get w' k = None | Some b \<Rightarrow> fs_get w' k = fs_get w b"
    using fa fb fin kb by (cases kb) auto
qed

lemma os_Remove_other: "path_clean q \<noteq> path_clean p \<Longrightarrow> fs_get (snd (os_Remove p w)) q = fs_get w q"
  using os_Remove_files [of p w "fst (os_Remove p w)" "snd (os_Remove p w)" q] by simp

text \<open>What is left at the two paths: the new pair, the old pair, or whatever a failed roll-back left.\<close>

definition pair_outcome :: "filesys \<Rightarrow> string \<Rightarrow> string \<Rightarrow> bytes \<Rightarrow> bytes \<Rightarrow> (install_error + unit) \<Rightarrow> filesys \<Rightarrow> bool" where
  "pair_outcome w c k certPEM keyPEM r w' \<longleftrightarrow>
     (case r of
        Inr _ \<Rightarrow> fs_get w' c = Some (FFile certPEM) \<and> fs_get w' k = Some (FFile keyPEM)
      | Inl (RollbackFailed _ _) \<Rightarrow> True
      | Inl _ \<Rightarrow> fs_get w' c = fs_get w c \<and> (fs_get w' k = fs_get w k \<or> fs_get w k = None \<and> fs_get w' k = Some (FFile keyPEM)))"

lemma install_pair_outcome:
  assumes run: "install_pair c k kt ct w = (r, w')"
    and apart: "distinct (map path_clean [c, k, c @ ''.bak'', k @ ''.bak'', kt, ct])"
    and temps: "fs_get w kt = Some (FFile keyPEM)" "fs_get w ct = Some (FFile certPEM)"
  shows "pair_outcome w c k certPEM keyPEM r w'"
proof -
  have ap4: "distinct [path_clean c, path_clean k, path_clean (c @ ''.bak''), path_clean (k @ ''.bak'')]" using apart by simp
  let ?fin = "\<lambda>w. snd (os_Remove kt (snd (os_Remove ct w)))"
  have fin: "fs_get (?fin u) c = fs_get u c" "fs_get (?fin u) k = fs_get u k" for u using apart by (simp_all add: os_Remove_other)
  obtain r1 w1 where b1: "backupExistingFile k w = (r1, w1)" by fastforce
  note B1 = backupExistingFile_files [OF b1]
  show ?thesis
  proof (cases r1)
    case (Inl e)
    then show ?thesis using run b1 B1 apart fin by (auto simp: install_pair_def pair_outcome_def)
  next
    case kb: (Inr kb)
    have f1: "fs_get w1 q = fs_get w q" if "path_clean q \<in> path_clean ` {c, c @ ''.bak'', kt, ct}" for q
      using B1 apart that by auto
    have k1: "kb = None \<and> fs_get w k = None \<and> fs_get w1 k = None
        \<or> kb = Some (k @ ''.bak'') \<and> fs_get w1 (k @ ''.bak'') = fs_get w k"
      using B1 apart kb by (cases kb) auto
    obtain r2 w2 where b2: "backupExistingFile c w1 = (r2, w2)" by fastforce
    note B2 = backupExistingFile_files [OF b2]
    have f2: "fs_get w2 q = fs_get w1 q" if "path_clean q \<in> path_clean ` {k, k @ ''.bak'', kt, ct}" for q
      using B2 apart that by auto
    show ?thesis
    proof (cases r2)
      case (Inl e)
      obtain r3 w3 where R: "roll_back c k None kb False (BackupFailed ''cert'' e) w2 = (r3, w3)" by fastforce
      have fin3: "r = r3" "w' = ?fin w3" using run b1 kb b2 Inl R by (simp_all add: install_pair_def)
      have c2: "fs_get w2 c = fs_get w1 c" using B2 Inl apart by auto
      have "\<exists>e. r3 = Inl e" using R by (auto simp: roll_back_def split: prod.splits)
      then show ?thesis
        using roll_back_files [OF R ap4 disjI1 [OF refl]] fin3 fin c2 k1 f1 [of c] f2 [of k] f2 [of "k @ ''.bak''"]
        by (auto simp: pair_outcome_def split: install_error.splits)
    next
      case cb: (Inr cb)
      have c2: "cb = None \<and> fs_get w c = None \<and> fs_get w2 c = None
          \<or> cb = Some (c @ ''.bak'') \<and> fs_get w2 (c @ ''.bak'') = fs_get w c"
        using B2 apart cb f1 [of c] by (cases cb) auto
      have k2: "kb = None \<and> fs_get w k = None \<and> fs_get w2 k = None
          \<or> kb = Some (k @ ''.bak'') \<and> fs_get w2 (k @ ''.bak'') = fs_get w k"
        using k1 f2 [of k] f2 [of "k @ ''.bak''"] by auto
      have cbs: "cb = None \<or> cb = Some (c @ ''.bak'')" and kbs: "kb = None \<or> kb = Some (k @ ''.bak'')"
        using c2 k2 by auto
      have t2: "fs_get w2 kt = Some (FFile keyPEM)" "fs_get w2 ct = Some (FFile certPEM)"
        using f1 [of kt] f1 [of ct] f2 [of kt] f2 [of ct] temps by simp_all
      obtain r3 w3 where b3: "os_Rename kt k w2 = (r3, w3)" by fastforce
      note B3 = os_Rename_files [OF b3]
      show ?thesis
      proof (cases r3)
        case (Inl e)
        obtain r4 w4 where R: "roll_back c k cb kb False (ReplaceFailed ''key'' e) w3 = (r4, w4)" by fastforce
        have fin4: "r = r4" "w' = ?fin w4" using run b1 kb b2 cb b3 Inl R by (simp_all add: install_pair_def)
        have w3: "fs_get w3 q = fs_get w2 q" for q using B3 [of q] Inl by simp
        have "\<exists>e. r4 = Inl e" using R by (auto simp: roll_back_def split: prod.splits)
        then show ?thesis
          using roll_back_files [OF R ap4 cbs kbs] fin4 fin c2 k2 w3
          by (auto simp: pair_outcome_def split: install_error.splits)
      next
        case ok3: (Inr u)
        have w3: "fs_get w3 k = Some (FFile keyPEM)"
            "path_clean q \<noteq> path_clean k \<Longrightarrow> path_clean q \<noteq> path_clean kt \<Longrightarrow> fs_get w3 q = fs_get w2 q" for q
          using B3 [of q] B3 [of k] ok3 t2 by auto
        obtain r4 w4 where b4: "os_Rename ct c w3 = (r4, w4)" by fastforce
        note B4 = os_Rename_files [OF b4]
        show ?thesis
        proof (cases r4)
          case (Inl e)
          obtain r5 w5 where R: "roll_back c k cb kb True (ReplaceFailed ''cert'' e) w4 = (r5, w5)" by fastforce
          have fin5: "r = r5" "w' = snd (os_Remove ct w5)" using run b1 kb b2 cb b3 ok3 b4 Inl R by (simp_all add: install_pair_def)
          have w4: "fs_get w4 q = fs_get w3 q" for q using B4 [of q] Inl by simp
          have at_w': "fs_get w' c = fs_get w5 c" "fs_get w' k = fs_get w5 k" using fin5 apart by (simp_all add: os_Remove_other)
          have "\<exists>e. r5 = Inl e" using R by (auto simp: roll_back_def split: prod.splits)
          then show ?thesis
            using roll_back_files [OF R ap4 cbs kbs] fin5(1) at_w' c2 k2 w4 w3 apart
            by (auto simp: pair_outcome_def split: install_error.splits)
        next
          case ok4: (Inr u')
          have res: "r = Inr ()" "w' = removeBackup kb (removeBackup cb w4)"
            using run b1 kb b2 cb b3 ok3 b4 ok4 by (simp_all add: install_pair_def)
          have "fs_get w' c = fs_get w4 c" "fs_get w' k = fs_get w4 k"
            unfolding res(2) using cbs kbs apart by (auto simp: removeBackup_def os_Remove_other)
          moreover have "fs_get w4 c = fs_get w3 ct" "fs_get w4 k = fs_get w3 k" using B4 [of c] B4 [of k] ok4 apart by auto
          ultimately show ?thesis using res w3(1) w3(2) [of ct] t2 apart by (auto simp: pair_outcome_def)
        qed
      qed
    qed
  qed
qed

lemma writeCertKeyPairAtomic_outcome:
  assumes run: "writeCertKeyPairAtomic c k certPEM keyPEM w = (r, w')" and apart: "paths_apart c k"
  shows "pair_outcome w c k certPEM keyPEM r w'"
proof (cases "c = [] \<or> k = [] \<or> path_clean c = path_clean k")
  case True
  then show ?thesis using run by (auto simp: writeCertKeyPairAtomic_def pair_outcome_def io_simps split: if_splits)
next
  case False
  have tmp: "path_clean (temp_name c m) \<notin> path_clean ` {c, k, c @ ''.bak'', k @ ''.bak''}"
    "path_clean (temp_name k m) \<notin> path_clean ` {c, k, c @ ''.bak'', k @ ''.bak''}" for m
    using apart by (auto simp: paths_apart_def Let_def)
  obtain r1 w1 where a: "writeTempFile k keyPEM w = (r1, w1)" by fastforce
  have w1: "fs_get w1 q = fs_get w q" if "q = c \<or> q = k" for q
  proof -
    have "\<forall>m. path_clean q \<noteq> path_clean (temp_name k m)" using tmp(2) that by (metis image_eqI insertCI)
    then show ?thesis using writeTempFile_files [OF a] by blast
  qed
  show ?thesis
  proof (cases r1)
    case (Inl e)
    then show ?thesis using run False a w1 by (auto simp: writeCertKeyPairAtomic_def pair_outcome_def)
  next
    case kt: (Inr kt)
    obtain r2 w2 where b: "writeTempFile c certPEM w1 = (r2, w2)" by fastforce
    have w2: "fs_get w2 q = fs_get w1 q" if "q = c \<or> q = k" for q
    proof -
      have "\<forall>m. path_clean q \<noteq> path_clean (temp_name c m)" using tmp(1) that by (metis image_eqI insertCI)
      then show ?thesis using writeTempFile_files [OF b] by blast
    qed
    obtain m where m: "kt = temp_name k m" and kt1: "fs_get w1 kt = Some (FFile keyPEM)" using writeTempFile_files [OF a] kt by blast
    have ktn: "path_clean kt \<notin> path_clean ` {c, k, c @ ''.bak'', k @ ''.bak''}" unfolding m by (rule tmp(2))
    have kt2: "fs_get w2 kt = Some (FFile keyPEM)" using writeTempFile_files [OF b] kt1 by force
    show ?thesis
    proof (cases r2)
      case (Inl e)
      then have "r = Inl (TempFailed ''cert'' e)" "w' = snd (os_Remove kt w2)"
        using run False a b kt by (auto simp: writeCertKeyPairAtomic_def)
      then show ?thesis using w1 w2 ktn by (auto simp: pair_outcome_def os_Remove_other)
    next
      case ct: (Inr ct)
      then have inst: "install_pair c k kt ct w2 = (r, w')" using run False a b kt by (auto simp: writeCertKeyPairAtomic_def)
      obtain m' where m': "ct = temp_name c m'" and ct1: "fs_get w1 ct = None" and ct2: "fs_get w2 ct = Some (FFile certPEM)"
        using writeTempFile_files [OF b] ct by blast
      have ctn: "path_clean ct \<notin> path_clean ` {c, k, c @ ''.bak'', k @ ''.bak''}" unfolding m' by (rule tmp(1))
      have "path_clean kt \<noteq> path_clean ct" using kt1 ct1 by (auto simp: fs_get_def)
      then have "distinct (map path_clean [c, k, c @ ''.bak'', k @ ''.bak'', kt, ct])"
        using apart ktn ctn by (auto simp: paths_apart_def Let_def)
      from install_pair_outcome [OF inst this kt2 ct2] show ?thesis
        using w1 w2 by (auto simp: pair_outcome_def split: sum.splits install_error.splits)
    qed
  qed
qed


text \<open>Files elsewhere are not touched.\<close>

lemma roll_back_other:
  assumes "roll_back c k cb kb installed err w = (r, w')"
    and "cb = None \<or> cb = Some (c @ ''.bak'')" "kb = None \<or> kb = Some (k @ ''.bak'')"
    and "path_clean (c @ ''.bak'') \<noteq> path_clean c" "path_clean (k @ ''.bak'') \<noteq> path_clean k"
    and "path_clean q \<notin> path_clean ` {c, k, c @ ''.bak'', k @ ''.bak''}"
  shows "eq_at w w' q"
proof -
  obtain r1 w1 where a: "restoreFile c cb False w = (r1, w1)" by fastforce
  obtain r2 w2 where b: "restoreFile k kb installed w1 = (r2, w2)" by fastforce
  have "w' = w2" using assms(1) a b by (auto simp: roll_back_def restoreCertKeyPair_def)
  moreover have "eq_at w w1 q" "eq_at w1 w2 q" using restoreFile_files [OF a] restoreFile_files [OF b] assms(2-) by auto
  ultimately show ?thesis by simp
qed

lemma install_pair_other:
  assumes run: "install_pair c k kt ct w = (r, w')"
    and apart: "path_clean (c @ ''.bak'') \<noteq> path_clean c" "path_clean (k @ ''.bak'') \<noteq> path_clean k"
    and q: "path_clean q \<notin> path_clean ` {c, k, c @ ''.bak'', k @ ''.bak'', kt, ct}"
  shows "eq_at w w' q"
proof -
  have q4: "path_clean q \<notin> path_clean ` {c, k, c @ ''.bak'', k @ ''.bak''}" using q by auto
  have rm: "fs_get (snd (os_Remove kt u)) q = fs_get u q" "fs_get (snd (os_Remove ct u)) q = fs_get u q" for u
    using q by (simp_all add: os_Remove_other)
  obtain r1 w1 where b1: "backupExistingFile k w = (r1, w1)" by fastforce
  have e1: "eq_at w w1 q" using backupExistingFile_files [OF b1 apart(2)] q by auto
  obtain r2 w2 where b2: "backupExistingFile c w1 = (r2, w2)" by fastforce
  have e2: "eq_at w1 w2 q" using backupExistingFile_files [OF b2 apart(1)] q by auto
  obtain r3 w3 where b3: "os_Rename kt k w2 = (r3, w3)" by fastforce
  have e3: "eq_at w2 w3 q" using os_Rename_files [OF b3, of q] q by (cases r3) auto
  obtain r4 w4 where b4: "os_Rename ct c w3 = (r4, w4)" by fastforce
  have e4: "eq_at w3 w4 q" using os_Rename_files [OF b4, of q] q by (cases r4) auto
  have kb: "kb = None \<or> kb = Some (k @ ''.bak'')" if "r1 = Inr kb" for kb
    using backupExistingFile_files [OF b1 apart(2)] that by (cases kb) auto
  have cb: "cb = None \<or> cb = Some (c @ ''.bak'')" if "r2 = Inr cb" for cb
    using backupExistingFile_files [OF b2 apart(1)] that by (cases cb) auto
  have rb: "fs_get (snd (roll_back c k cb' kb' i e u)) q = fs_get u q"
    if "cb' = None \<or> cb' = Some (c @ ''.bak'')" "kb' = None \<or> kb' = Some (k @ ''.bak'')" for cb' kb' i e u
    using roll_back_other [OF _ that apart q4] by (metis surjective_pairing)
  have bak: "fs_get (removeBackup b u) q = fs_get u q" if "b = None \<or> b = Some (c @ ''.bak'') \<or> b = Some (k @ ''.bak'')" for b u
    using that q by (auto simp: removeBackup_def os_Remove_other)
  note eqs = e1 e2 e3 e4 rm
  show ?thesis
  proof (cases r1)
    case (Inl e)
    then show ?thesis using run b1 eqs by (auto simp: install_pair_def)
  next
    case r1: (Inr kb)
    show ?thesis
    proof (cases r2)
      case (Inl e)
      then show ?thesis
        using run b1 b2 r1 eqs rb [OF _ kb [OF r1], of None] by (auto simp: install_pair_def split: prod.splits) (metis snd_conv)
    next
      case r2: (Inr cb)
      show ?thesis
      proof (cases r3)
        case (Inl e)
        then show ?thesis
          using run b1 b2 b3 r1 r2 eqs rb [OF cb [OF r2] kb [OF r1]] by (auto simp: install_pair_def split: prod.splits) (metis snd_conv)
      next
        case r3: (Inr u)
        show ?thesis
        proof (cases r4)
          case (Inl e)
          then show ?thesis
            using run b1 b2 b3 b4 r1 r2 r3 eqs rb [OF cb [OF r2] kb [OF r1]]
            by (auto simp: install_pair_def split: prod.splits) (metis snd_conv)
        next
          case (Inr u')
          then show ?thesis
            using run b1 b2 b3 b4 r1 r2 r3 eqs bak cb [OF r2] kb [OF r1] by (auto simp: install_pair_def)
        qed
      qed
    qed
  qed
qed

lemma ApplyCertUpdate_other:
  assumes run: "ApplyCertUpdate now pairError c k update w = (r, w')" and apart: "paths_apart c k"
    and q: "path_clean q \<notin> path_clean ` {c, k, c @ ''.bak'', k @ ''.bak''}"
    and tmp: "\<forall>m. path_clean q \<noteq> path_clean (temp_name c m) \<and> path_clean q \<noteq> path_clean (temp_name k m)"
  shows "eq_at w w' q"
proof -
  have four: "path_clean (c @ ''.bak'') \<noteq> path_clean c" "path_clean (k @ ''.bak'') \<noteq> path_clean k"
    using apart by (auto simp: paths_apart_def Let_def)
  have "eq_at w w' q" if wr: "writeCertKeyPairAtomic c k certPEM keyPEM w = (r, w')" for certPEM keyPEM
  proof -
    obtain r1 w1 where a: "writeTempFile k keyPEM w = (r1, w1)" by fastforce
    have e1: "eq_at w w1 q" using writeTempFile_files [OF a] tmp by blast
    obtain r2 w2 where b: "writeTempFile c certPEM w1 = (r2, w2)" by fastforce
    have e2: "eq_at w1 w2 q" using writeTempFile_files [OF b] tmp by blast
    show ?thesis
    proof (cases "\<exists>kt ct. r1 = Inr kt \<and> r2 = Inr ct")
      case False
      have "path_clean q \<noteq> path_clean kt" if "r1 = Inr kt" for kt
        using writeTempFile_files [OF a] that tmp by blast
      then show ?thesis
        using wr a b e1 e2 False
        by (auto simp: writeCertKeyPairAtomic_def io_simps os_Remove_other split: if_splits sum.splits)
    next
      case True
      then obtain kt ct where t: "r1 = Inr kt" "r2 = Inr ct" by blast
      have "path_clean q \<noteq> path_clean kt" "path_clean q \<noteq> path_clean ct"
        using writeTempFile_files [OF a] writeTempFile_files [OF b] t tmp by blast+
      then have q6: "path_clean q \<notin> path_clean ` {c, k, c @ ''.bak'', k @ ''.bak'', kt, ct}" using q by auto
      have "w' = w \<or> install_pair c k kt ct w2 = (r, w')"
        using wr a b t by (auto simp: writeCertKeyPairAtomic_def io_simps split: if_splits)
      then show ?thesis using install_pair_other [OF _ four q6] e1 e2 by auto
    qed
  qed
  then show ?thesis
    using run by (auto simp: ApplyCertUpdate_def io_simps split: option.splits if_splits)
qed

definition sample_disk :: filesys where
  "sample_disk = \<lparr>fs_nodes = [(''node.crt'', FFile ''old cert''), (''node.key'', FFile ''old key'')],
     fs_faults = (\<lambda>n. if n = 17 then Some (''disk full'', None) else None), fs_suffixes = (\<lambda>n. n)\<rparr>"

lemma relative_temp:
  assumes "length b > 2" and "CHR ''/'' \<notin> set b"
  shows "path_clean (CHR ''.'' # CHR ''/'' # b) = b"
proof -
  have "split_on CHR ''/'' (CHR ''.'' # CHR ''/'' # b) = [''.'', b]" using assms(2) by (simp add: split_on_no_occ)
  then show ?thesis using assms(1) by (auto simp: path_clean_def Let_def clean_step_def)
qed

lemma temp_name_relative:
  "path_clean (temp_name ''node.key'' m) = ''.node.key.tmp-'' @ nat_str m"
  "path_clean (temp_name ''node.crt'' m) = ''.node.crt.tmp-'' @ nat_str m"
proof -
  have d: "CHR ''/'' \<notin> set (nat_str m)" using nat_str_digits [of "CHR ''/''" m] by (auto simp: is_digit_def)
  have p: "path_dir ''node.key'' = ''.''" "path_base ''node.key'' = ''node.key''"
    "path_dir ''node.crt'' = ''.''" "path_base ''node.crt'' = ''node.crt''" by code_simp+
  show "path_clean (temp_name ''node.key'' m) = ''.node.key.tmp-'' @ nat_str m"
    "path_clean (temp_name ''node.crt'' m) = ''.node.crt.tmp-'' @ nat_str m"
    unfolding temp_name_def p joinPath_def using d relative_temp [of "''.node.key.tmp-'' @ nat_str m"]
      relative_temp [of "''.node.crt.tmp-'' @ nat_str m"] by simp_all
qed

lemma sample_paths_apart: "paths_apart ''node.crt'' ''node.key''"
proof -
  have "map path_clean [''node.crt'', ''node.key'', ''node.crt'' @ ''.bak'', ''node.key'' @ ''.bak'']
      = [''node.crt'', ''node.key'', ''node.crt.bak'', ''node.key.bak'']" by code_simp
  then show ?thesis unfolding paths_apart_def Let_def temp_name_relative by simp
qed

definition sample_update :: cert_update where
  "sample_update = \<lparr>cu_cert_pem = ''new cert'', cu_key_pem = ''new key'', cu_valid_from_unix = 0, cu_valid_until_unix = 0\<rparr>"


end
