(* ===== verification/Client_Agent.thy ===== *)
theory Client_Agent
  imports Client_Reload Client_Cert
begin

text \<open>
  \<open>pkg/clientd/agent.go\<close>, the agent itself: construction, registration, and the loop over the messages of the
  control-plane streams. The messages are a sequence of events in the order in which the loop takes them. The
  control plane and the configurator are outside: the calls to them are recorded, and each answer may depend on
  all the calls before it. The file system is the one of \<open>Go_IO\<close>, in which any call may fail.
\<close>

section \<open>Construction\<close>

record agent_config =
  ac_node_name :: string
  ac_roles :: "role list"
  ac_overlay_ip :: string
  ac_region :: string
  ac_node_cert_pem :: bytes
  ac_cert_path :: string
  ac_key_path :: string
  ac_version :: string
  ac_interface_name :: string
  ac_protocol :: string
  ac_public_key :: key
  ac_endpoint_host :: string
  ac_state_path :: string
  ac_apply_timeout :: duration

datatype new_agent_error =
    AgentNameRequired
  | AgentRoleRequired
  | AgentRolesInvalid role_error
  | AgentOverlayRequired
  | AgentRegionRequired
  | AgentVersionRequired
  | AgentProtocolUnsupported string
  | AgentCertPathsIncomplete
  | AgentClientRequired
  | AgentConfiguratorRequired

definition NewAgent :: "string \<Rightarrow> agent_config \<Rightarrow> bool \<Rightarrow> bool \<Rightarrow> new_agent_error + agent_config" where
  "NewAgent tempDir cfg hasClient hasConfigurator =
     rbind (fail_if (trim_space (ac_node_name cfg) = []) AgentNameRequired) (\<lambda>_.
     rbind (fail_if (ac_roles cfg = []) AgentRoleRequired) (\<lambda>_.
     rbind (map_err AgentRolesInvalid (ValidateComposability (ac_roles cfg))) (\<lambda>_.
     rbind (fail_if (trim_space (ac_overlay_ip cfg) = []) AgentOverlayRequired) (\<lambda>_.
     rbind (fail_if (trim_space (ac_region cfg) = []) AgentRegionRequired) (\<lambda>_.
     rbind (fail_if (trim_space (ac_version cfg) = []) AgentVersionRequired) (\<lambda>_.
     rbind (fail_if (ac_protocol cfg \<noteq> ProtocolVanilla \<and> ac_protocol cfg \<noteq> ProtocolAmneziaWG)
              (AgentProtocolUnsupported (ac_protocol cfg))) (\<lambda>_.
     rbind (fail_if ((trim_space (ac_cert_path cfg) = []) \<noteq> (trim_space (ac_key_path cfg) = [])) AgentCertPathsIncomplete) (\<lambda>_.
     rbind (fail_if (\<not> hasClient) AgentClientRequired) (\<lambda>_.
     rbind (fail_if (\<not> hasConfigurator) AgentConfiguratorRequired) (\<lambda>_.
       Inr (if trim_space (ac_state_path cfg) = []
            then cfg\<lparr>ac_state_path := path_join [tempDir, ''awg-mesh-clientd-state.json'']\<rparr> else cfg)))))))))))"

section \<open>The outside\<close>

datatype agent_call = CallRegister register_request | CallApply client_state

datatype agent_answer = AnswerOk | AnswerError string | AnswerRejected string

record agent_world =
  aw_fs :: filesys
  aw_calls :: "agent_call list"
  aw_answer :: "agent_call list \<Rightarrow> agent_call \<Rightarrow> agent_answer"

definition agent_call :: "agent_call \<Rightarrow> agent_world \<Rightarrow> agent_answer \<times> agent_world" where
  "agent_call c w = (aw_answer w (aw_calls w) c, w\<lparr>aw_calls := aw_calls w @ [c]\<rparr>)"

text \<open>A computation on files, run in the file system of the world.\<close>

definition on_files :: "('e, 'a) io \<Rightarrow> agent_world \<Rightarrow> ('e + 'a) \<times> agent_world" where
  "on_files m w = (case m (aw_fs w) of (r, f) \<Rightarrow> (r, w\<lparr>aw_fs := f\<rparr>))"

datatype stream_failure = RecvCanceled | RecvDeadline | RecvEOF | RecvFailed string

datatype agent_error =
    AgentCache cache_error
  | RegisterFailed string
  | RegisterRejected string
  | ReRegisterFailed agent_error
  | ApplyFailed string
  | OpenStreamFailed string string
  | StreamClosed string
  | StreamFailed string stream_failure
  | CertUpdateFailed install_error

definition publicKeyBytes :: "key \<Rightarrow> bytes" where
  "publicKeyBytes k = (if Key_IsZero k then [] else k)"

definition Agent_register :: "agent_config \<Rightarrow> agent_world \<Rightarrow> (agent_error + unit) \<times> agent_world" where
  "Agent_register cfg w =
     (let req = \<lparr>rq_node_name = ac_node_name cfg, rq_roles = ac_roles cfg, rq_overlay_ip = ac_overlay_ip cfg,
            rq_region = ac_region cfg, rq_node_cert_pem = ac_node_cert_pem cfg, rq_node_version = ac_version cfg,
            rq_pubkey = publicKeyBytes (ac_public_key cfg), rq_endpoint_host = trim_space (ac_endpoint_host cfg),
            rq_protocol = ac_protocol cfg\<rparr> in
      case agent_call (CallRegister req) w of
        (AnswerOk, w') \<Rightarrow> (Inr (), w')
      | (AnswerError e, w') \<Rightarrow> (Inl (RegisterFailed e), w')
      | (AnswerRejected why, w') \<Rightarrow> (Inl (RegisterRejected why), w'))"

definition Agent_apply :: "client_state \<Rightarrow> agent_world \<Rightarrow> (agent_error + unit) \<times> agent_world" where
  "Agent_apply s w =
     (case agent_call (CallApply s) w of
        (AnswerOk, w') \<Rightarrow> (Inr (), w')
      | (AnswerError e, w') \<Rightarrow> (Inl (ApplyFailed e), w')
      | (AnswerRejected e, w') \<Rightarrow> (Inl (ApplyFailed e), w'))"

section \<open>Streams\<close>

text \<open>An event of the loop; an error says whether the run context had ended when it was taken.\<close>

datatype agent_event =
    RunDone
  | PeersMsg peer_list_update
  | OwnershipMsg ownership_update
  | CertMsg cert_update
  | StreamErr string stream_failure bool

text \<open>
  A receiving goroutine turns the results of \<open>Recv\<close> into updates, and stops at the first error; an error that it sees
  after the context ended is dropped. The end of the certificate stream is not an error.
\<close>

datatype 'm recv = RecvMsg 'm | RecvErr stream_failure bool

fun recv_updates :: "string \<Rightarrow> ('m \<Rightarrow> agent_event) \<Rightarrow> 'm recv list \<Rightarrow> agent_event list" where
  "recv_updates name ev [] = []"
| "recv_updates name ev (RecvMsg m # rs) = ev m # recv_updates name ev rs"
| "recv_updates name ev (RecvErr e ctxDone # rs) = (if ctxDone then [] else [StreamErr name e ctxDone])"

definition recvPeerUpdates :: "peer_list_update recv list \<Rightarrow> agent_event list" where
  "recvPeerUpdates = recv_updates ''peer-list'' PeersMsg"

definition recvOwnershipUpdates :: "ownership_update recv list \<Rightarrow> agent_event list" where
  "recvOwnershipUpdates = recv_updates ''ownership'' OwnershipMsg"

fun recvCertUpdates :: "cert_update recv list \<Rightarrow> agent_event list" where
  "recvCertUpdates [] = []"
| "recvCertUpdates (RecvMsg m # rs) = CertMsg m # recvCertUpdates rs"
| "recvCertUpdates (RecvErr e ctxDone # rs) =
     (if ctxDone then [] else if e = RecvEOF then [] else [StreamErr ''cert-update'' e ctxDone])"

section \<open>Run\<close>

record agent_state =
  ag_cfg :: agent_config
  ag_state :: client_state
  ag_peer_snapshot_seen :: bool
  ag_ownership_snapshot_seen :: bool

datatype agent_outcome = Running agent_state | Stopped "agent_error option"

text \<open>The start of \<open>Run\<close>; the last argument has the error of opening each of the three streams, if any.\<close>

definition run_start ::
  "agent_config \<Rightarrow> string option \<Rightarrow> string option \<Rightarrow> string option \<Rightarrow> agent_world \<Rightarrow> agent_outcome \<times> agent_world" where
  "run_start cfg peerErr ownershipErr certErr w =
     (case on_files (StateCache_Load (ac_state_path cfg)) w of
        (Inl e, w1) \<Rightarrow> (Stopped (Some (AgentCache e)), w1)
      | (Inr state, w1) \<Rightarrow>
          (case Agent_register cfg w1 of
             (Inl e, w2) \<Rightarrow> (Stopped (Some e), w2)
           | (Inr _, w2) \<Rightarrow>
               (case (if State_IsZero state then (Inr (), w2) else Agent_apply state w2) of
                  (Inl e, w3) \<Rightarrow> (Stopped (Some e), w3)
                | (Inr _, w3) \<Rightarrow>
                    (case peerErr of
                       Some e \<Rightarrow> (Stopped (Some (OpenStreamFailed ''peer-list'' e)), w3)
                     | None \<Rightarrow>
                         (case ownershipErr of
                            Some e \<Rightarrow> (Stopped (Some (OpenStreamFailed ''ownership'' e)), w3)
                          | None \<Rightarrow>
                              (case (if trim_space (ac_cert_path cfg) \<noteq> [] then certErr else None) of
                                 Some e \<Rightarrow> (Stopped (Some (OpenStreamFailed ''cert-update'' e)), w3)
                               | None \<Rightarrow>
                                   (Running \<lparr>ag_cfg = cfg, ag_state = state, ag_peer_snapshot_seen = False,
                                      ag_ownership_snapshot_seen = False\<rparr>, w3)))))))"

text \<open>After a message the new state, when it changed, is saved and then applied.\<close>

definition save_and_apply :: "agent_state \<Rightarrow> bool \<Rightarrow> agent_world \<Rightarrow> agent_outcome \<times> agent_world" where
  "save_and_apply a changed w =
     (if \<not> changed then (Running a, w)
      else case on_files (StateCache_Save (ac_state_path (ag_cfg a)) (ag_state a)) w of
        (Inl e, w1) \<Rightarrow> (Stopped (Some (AgentCache e)), w1)
      | (Inr _, w1) \<Rightarrow>
          (case Agent_apply (ag_state a) w1 of
             (Inl e, w2) \<Rightarrow> (Stopped (Some e), w2)
           | (Inr _, w2) \<Rightarrow> (Running a, w2)))"

definition run_event ::
  "(bytes \<Rightarrow> bytes \<Rightarrow> string option) \<Rightarrow> gotime \<Rightarrow> agent_event \<Rightarrow> agent_state \<Rightarrow> agent_world \<Rightarrow> agent_outcome \<times> agent_world" where
  "run_event pairError now ev a w =
     (case ev of
        RunDone \<Rightarrow> (Stopped None, w)
      | StreamErr name e ctxDone \<Rightarrow>
          (if ctxDone \<or> e = RecvCanceled \<or> e = RecvDeadline then Stopped None
           else if e = RecvEOF then Stopped (Some (StreamClosed name))
           else Stopped (Some (StreamFailed name e)), w)
      | PeersMsg u \<Rightarrow>
          (case (if ag_peer_snapshot_seen a then WithPeerList (ag_state a) (Some u)
                 else WithPeerListSnapshot (ag_state a) (Some u)) of
             (s, changed) \<Rightarrow> save_and_apply (a\<lparr>ag_state := s, ag_peer_snapshot_seen := True\<rparr>) changed w)
      | OwnershipMsg u \<Rightarrow>
          (case (if ag_ownership_snapshot_seen a then WithOwnership (ag_state a) (Some u)
                 else WithOwnershipSnapshot (ag_state a) (Some u)) of
             (s, changed) \<Rightarrow> save_and_apply (a\<lparr>ag_state := s, ag_ownership_snapshot_seen := True\<rparr>) changed w)
      | CertMsg u \<Rightarrow>
          (case on_files (ApplyCertUpdate now pairError (ac_cert_path (ag_cfg a)) (ac_key_path (ag_cfg a)) (Some u)) w of
             (Inl e, w1) \<Rightarrow> (Stopped (Some (CertUpdateFailed e)), w1)
           | (Inr _, w1) \<Rightarrow>
               (let cfg = (ag_cfg a)\<lparr>ac_node_cert_pem := cu_cert_pem u\<rparr> in
                case Agent_register cfg w1 of
                  (Inl e, w2) \<Rightarrow> (Stopped (Some (ReRegisterFailed e)), w2)
                | (Inr _, w2) \<Rightarrow> (Running (a\<lparr>ag_cfg := cfg\<rparr>), w2))))"

text \<open>The loop, over events with the times at which they are taken.\<close>

fun run_events ::
  "(bytes \<Rightarrow> bytes \<Rightarrow> string option) \<Rightarrow> (gotime \<times> agent_event) list \<Rightarrow> agent_outcome \<times> agent_world \<Rightarrow>
     agent_outcome \<times> agent_world" where
  "run_events pairError [] ow = ow"
| "run_events pairError ((now, ev) # evs) (Stopped e, w) = (Stopped e, w)"
| "run_events pairError ((now, ev) # evs) (Running a, w) = run_events pairError evs (run_event pairError now ev a w)"

definition Agent_Run ::
  "(bytes \<Rightarrow> bytes \<Rightarrow> string option) \<Rightarrow> agent_config \<Rightarrow> string option \<Rightarrow> string option \<Rightarrow> string option \<Rightarrow>
     (gotime \<times> agent_event) list \<Rightarrow> agent_world \<Rightarrow> agent_outcome \<times> agent_world" where
  "Agent_Run pairError cfg peerErr ownershipErr certErr evs w =
     run_events pairError evs (run_start cfg peerErr ownershipErr certErr w)"

section \<open>The cache holds what was applied last\<close>

fun last_applied :: "agent_call list \<Rightarrow> client_state option" where
  "last_applied [] = None"
| "last_applied (c # cs) =
     (case last_applied cs of Some s \<Rightarrow> Some s | None \<Rightarrow> (case c of CallApply s \<Rightarrow> Some s | CallRegister _ \<Rightarrow> None))"

lemma last_applied_snoc:
  "last_applied (cs @ [c]) = (case c of CallApply s \<Rightarrow> Some s | CallRegister _ \<Rightarrow> last_applied cs)"
  by (induction cs) (auto split: agent_call.splits option.splits)

definition peers_storable :: "peer_list_update \<Rightarrow> bool" where
  "peers_storable u \<longleftrightarrow> list_all (\<lambda>p. peer_storable (cached_of_peer p)) (pu_peers u) \<and> int64_range (pu_version u)"

definition ownership_storable :: "ownership_update \<Rightarrow> bool" where
  "ownership_storable u \<longleftrightarrow> list_all (\<lambda>e. owner_storable (cached_of_owner e)) (ou_entries u) \<and> int64_range (ou_version u)"

fun event_storable :: "agent_event \<Rightarrow> bool" where
  "event_storable (PeersMsg u) = peers_storable u"
| "event_storable (OwnershipMsg u) = ownership_storable u"
| "event_storable _ = True"

text \<open>The cache, the certificate, the key and their temporary files and backups have different names.\<close>

definition agent_paths_ok :: "agent_config \<Rightarrow> bool" where
  "agent_paths_ok cfg \<longleftrightarrow>
     (let c = ac_cert_path cfg; k = ac_key_path cfg; p = ac_state_path cfg in
      cache_path_ok p \<and> paths_apart c k \<and> path_clean p \<notin> path_clean ` {c, k, c @ ''.bak'', k @ ''.bak''}
      \<and> (\<forall>m. path_clean p \<noteq> path_clean (temp_name c m) \<and> path_clean p \<noteq> path_clean (temp_name k m)))"

definition cache_current :: "string \<Rightarrow> (cache_error + client_state) \<Rightarrow> agent_world \<Rightarrow> bool" where
  "cache_current path l0 w \<longleftrightarrow>
     loaded path (aw_fs w) = (case last_applied (aw_calls w) of None \<Rightarrow> l0 | Some s \<Rightarrow> Inr s)"

definition running_ok :: "string \<Rightarrow> agent_outcome \<Rightarrow> agent_world \<Rightarrow> bool" where
  "running_ok path out w \<longleftrightarrow>
     (case out of
        Stopped _ \<Rightarrow> True
      | Running a \<Rightarrow> ac_state_path (ag_cfg a) = path \<and> agent_paths_ok (ag_cfg a) \<and> state_storable (ag_state a))"

lemma register_keeps: "Agent_register cfg w = (r, w') \<Longrightarrow> cache_current path l0 w' \<longleftrightarrow> cache_current path l0 w"
  by (auto simp: Agent_register_def agent_call_def cache_current_def last_applied_snoc Let_def split: agent_answer.splits)

lemma apply_current: "Agent_apply s w = (r, w') \<Longrightarrow> loaded path (aw_fs w) = Inr s \<Longrightarrow> cache_current path l0 w'"
  by (auto simp: Agent_apply_def agent_call_def cache_current_def last_applied_snoc split: agent_answer.splits)

lemma on_files_sel: "on_files m w = (r, w') \<Longrightarrow> m (aw_fs w) = (r, aw_fs w') \<and> aw_calls w' = aw_calls w"
  by (auto simp: on_files_def split: prod.splits)

lemma save_and_apply_ok:
  assumes run: "save_and_apply a changed w = (out, w')" and cur: "cache_current path l0 w"
    and a: "running_ok path (Running a) w"
  shows "cache_current path l0 w' \<and> running_ok path out w'"
proof (cases changed)
  case False
  then show ?thesis using run cur a by (simp add: save_and_apply_def running_ok_def)
next
  case True
  obtain r1 w1 where s: "on_files (StateCache_Save (ac_state_path (ag_cfg a)) (ag_state a)) w = (r1, w1)" by fastforce
  note S = on_files_sel [OF s]
  have path: "ac_state_path (ag_cfg a) = path" "cache_path_ok path" "state_storable (ag_state a)"
    using a by (auto simp: running_ok_def agent_paths_ok_def Let_def)
  have "StateCache_Save path (ag_state a) (aw_fs w) = (r1, aw_fs w1)" using S path by simp
  note L = Save_loaded [OF this path(2,3)]
  show ?thesis
  proof (cases r1)
    case (Inl e)
    then show ?thesis using run True s L S cur by (auto simp: save_and_apply_def cache_current_def running_ok_def)
  next
    case (Inr u)
    obtain r2 w2 where p: "Agent_apply (ag_state a) w1 = (r2, w2)" by fastforce
    have "cache_current path l0 w2" by (rule apply_current [OF p]) (use L Inr in simp)
    then show ?thesis using run True s Inr p a by (cases r2) (auto simp: save_and_apply_def running_ok_def)
  qed
qed

lemma storable_peers: "state_storable s \<Longrightarrow> peers_storable u \<Longrightarrow> state_storable (withPeerList s u)"
  by (auto simp: withPeerList_def state_storable_def peers_storable_def list_all_iff)

lemma storable_ownership: "state_storable s \<Longrightarrow> ownership_storable u \<Longrightarrow> state_storable (withOwnership s u)"
  by (auto simp: withOwnership_def state_storable_def ownership_storable_def list_all_iff)

lemma run_event_ok:
  assumes run: "run_event pairError now ev a w = (out, w')" and cur: "cache_current path l0 w"
    and a: "running_ok path (Running a) w" and ev: "event_storable ev"
  shows "cache_current path l0 w' \<and> running_ok path out w'"
proof (cases ev)
  case (PeersMsg u)
  then obtain s changed where u: "(if ag_peer_snapshot_seen a then WithPeerList (ag_state a) (Some u)
      else WithPeerListSnapshot (ag_state a) (Some u)) = (s, changed)" by fastforce
  then have "s = ag_state a \<or> s = withPeerList (ag_state a) u"
    by (auto simp: WithPeerList_def WithPeerListSnapshot_def split: if_splits)
  then have "running_ok path (Running (a\<lparr>ag_state := s, ag_peer_snapshot_seen := True\<rparr>)) w"
    using a ev PeersMsg storable_peers by (auto simp: running_ok_def)
  from save_and_apply_ok [OF _ cur this] show ?thesis using run u PeersMsg by (simp add: run_event_def)
next
  case (OwnershipMsg u)
  then obtain s changed where u: "(if ag_ownership_snapshot_seen a then WithOwnership (ag_state a) (Some u)
      else WithOwnershipSnapshot (ag_state a) (Some u)) = (s, changed)" by fastforce
  then have "s = ag_state a \<or> s = withOwnership (ag_state a) u"
    by (auto simp: WithOwnership_def WithOwnershipSnapshot_def split: if_splits)
  then have "running_ok path (Running (a\<lparr>ag_state := s, ag_ownership_snapshot_seen := True\<rparr>)) w"
    using a ev OwnershipMsg storable_ownership by (auto simp: running_ok_def)
  from save_and_apply_ok [OF _ cur this] show ?thesis using run u OwnershipMsg by (simp add: run_event_def)
next
  case (CertMsg u)
  let ?cfg = "ag_cfg a"
  obtain r1 w1 where c: "on_files (ApplyCertUpdate now pairError (ac_cert_path ?cfg) (ac_key_path ?cfg) (Some u)) w = (r1, w1)"
    by fastforce
  note S = on_files_sel [OF c]
  have "fs_get (aw_fs w1) path = fs_get (aw_fs w) path"
    using a S by (intro ApplyCertUpdate_other [of now pairError "ac_cert_path ?cfg" "ac_key_path ?cfg" "Some u" "aw_fs w" r1])
      (auto simp: running_ok_def agent_paths_ok_def Let_def)
  then have cur1: "cache_current path l0 w1" using cur S by (simp add: cache_current_def loaded_def)
  show ?thesis
  proof (cases r1)
    case (Inl e)
    then show ?thesis using run CertMsg c cur1 by (auto simp: run_event_def running_ok_def)
  next
    case (Inr x)
    obtain r2 w2 where g: "Agent_register (?cfg\<lparr>ac_node_cert_pem := cu_cert_pem u\<rparr>) w1 = (r2, w2)" by fastforce
    then show ?thesis
      using run CertMsg c Inr g cur1 register_keeps [OF g] a
      by (cases r2) (auto simp: run_event_def running_ok_def agent_paths_ok_def Let_def)
  qed
qed (use run cur in \<open>auto simp: run_event_def running_ok_def\<close>)

lemma run_events_ok:
  assumes "cache_current path l0 (snd ow)" and "running_ok path (fst ow) (snd ow)" and "list_all (\<lambda>(_, ev). event_storable ev) evs"
    and "run_events pairError evs ow = (out, w')"
  shows "cache_current path l0 w' \<and> running_ok path out w'"
  using assms
proof (induction pairError evs ow rule: run_events.induct)
  case (3 pairError now ev evs a w)
  obtain out1 w1 where r: "run_event pairError now ev a w = (out1, w1)" by fastforce
  have "cache_current path l0 w1 \<and> running_ok path out1 w1"
    using run_event_ok [OF r, of path l0] 3 by simp
  then show ?case using 3 r by simp
qed auto

lemma run_start_ok:
  assumes run: "run_start cfg e1 e2 e3 w = (out, w')" and calls: "last_applied (aw_calls w) = None" and ok: "agent_paths_ok cfg"
    and init: "\<And>s. loaded (ac_state_path cfg) (aw_fs w) = Inr s \<Longrightarrow> state_storable s"
  shows "cache_current (ac_state_path cfg) (loaded (ac_state_path cfg) (aw_fs w)) w' \<and> running_ok (ac_state_path cfg) out w'"
proof -
  let ?p = "ac_state_path cfg" let ?l0 = "loaded ?p (aw_fs w)"
  obtain r1 w1 where a: "on_files (StateCache_Load ?p) w = (r1, w1)" by fastforce
  note S = on_files_sel [OF a]
  have L: "fs_get (aw_fs w1) q = fs_get (aw_fs w) q" "r1 = ?l0 \<or> (\<exists>e. r1 = Inl (CacheRead (ErrFault e)))" for q
    using Load_loaded [of ?p "aw_fs w" r1 "aw_fs w1"] S by auto
  have l1: "loaded ?p (aw_fs w1) = ?l0" using L(1) by (simp add: loaded_def)
  have cur1: "cache_current ?p ?l0 w1" using l1 S calls by (simp add: cache_current_def)
  show ?thesis
  proof (cases r1)
    case (Inl e)
    then show ?thesis using run a cur1 by (auto simp: run_start_def running_ok_def)
  next
    case state: (Inr state)
    then have st: "?l0 = Inr state" using L(2) by auto
    obtain r2 w2 where b: "Agent_register cfg w1 = (r2, w2)" by fastforce
    have cur2: "cache_current ?p ?l0 w2" using register_keeps [OF b] cur1 by simp
    have l2: "aw_fs w2 = aw_fs w1" using b by (auto simp: Agent_register_def agent_call_def Let_def split: agent_answer.splits)
    obtain r3 w3 where c: "(if State_IsZero state then (Inr (), w2) else Agent_apply state w2) = (r3, w3)" by fastforce
    have cur3: "cache_current ?p ?l0 w3"
    proof (cases "State_IsZero state")
      case False
      then have "Agent_apply state w2 = (r3, w3)" using c by simp
      from apply_current [OF this] show ?thesis using l1 l2 st by simp
    qed (use c cur2 in simp)
    show ?thesis
      using run a state b c cur2 cur3 ok init st
      by (cases r2; cases r3; cases e1; cases e2) (auto simp: run_start_def running_ok_def split: option.splits)
  qed
qed

text \<open>
  C0. Whatever happens to an agent, the cache holds the state that was handed to the configurator last. Take an agent
  whose files have different names, any answers of the control plane and of the configurator, any failures of file
  operations, and any sequence of messages with ASCII texts and numbers of their width. When the agent runs or has
  stopped, for whatever reason, its cache file reads as the last state that it asked to apply, or as the state
  from before the run if it asked for none. A restart begins with it.
\<close>

theorem Agent_last_known_good:
  assumes "agent_paths_ok cfg" and "last_applied (aw_calls w) = None"
    and "\<forall>s. loaded (ac_state_path cfg) (aw_fs w) = Inr s \<longrightarrow> state_storable s"
    and "list_all (\<lambda>(_, ev). event_storable ev) evs"
    and "Agent_Run pairError cfg peerErr ownershipErr certErr evs w = (out, w')"
  shows "loaded (ac_state_path cfg) (aw_fs w') =
     (case last_applied (aw_calls w') of None \<Rightarrow> loaded (ac_state_path cfg) (aw_fs w) | Some s \<Rightarrow> Inr s)"
proof -
  obtain o1 w1 where s: "run_start cfg peerErr ownershipErr certErr w = (o1, w1)" by fastforce
  note start = run_start_ok [OF s assms(2,1)]
  have "cache_current (ac_state_path cfg) (loaded (ac_state_path cfg) (aw_fs w)) w'"
    using run_events_ok [of "ac_state_path cfg" _ "(o1, w1)" evs pairError out w'] start assms(3-5) s
    by (auto simp: Agent_Run_def)
  then show ?thesis by (simp add: cache_current_def)
qed

lemma cache_temp_relative: "path_clean (cache_temp ''state.json'' m) = ''state.json.'' @ nat_str m @ ''.tmp''"
proof -
  have d: "CHR ''/'' \<notin> set (nat_str m)" using nat_str_digits [of "CHR ''/''" m] by (auto simp: is_digit_def)
  have p: "path_dir ''state.json'' = ''.''" "path_base ''state.json'' = ''state.json''" by code_simp+
  show ?thesis
    unfolding cache_temp_def p joinPath_def using d relative_temp [of "''state.json.'' @ nat_str m @ ''.tmp''"] by simp
qed

definition sample_agent :: agent_config where
  "sample_agent = \<lparr>ac_node_name = ''n1'', ac_roles = [RoleClient], ac_overlay_ip = ''10.0.0.9'', ac_region = ''eu'',
     ac_node_cert_pem = ''cert'', ac_cert_path = ''node.crt'', ac_key_path = ''node.key'', ac_version = ''1'',
     ac_interface_name = ''wg0'', ac_protocol = ProtocolAmneziaWG, ac_public_key = zero_key, ac_endpoint_host = [],
     ac_state_path = ''state.json'', ac_apply_timeout = 0\<rparr>"

lemma sample_agent_paths: "agent_paths_ok sample_agent"
proof -
  have c: "map path_clean [''state.json'', ''node.crt'', ''node.key'', ''node.crt'' @ ''.bak'', ''node.key'' @ ''.bak'']
      = [''state.json'', ''node.crt'', ''node.key'', ''node.crt.bak'', ''node.key.bak'']" by code_simp
  then have "cache_path_ok ''state.json''" unfolding cache_path_ok_def cache_temp_relative by simp
  moreover have "path_clean ''state.json'' \<noteq> path_clean (temp_name ''node.crt'' m)"
    "path_clean ''state.json'' \<noteq> path_clean (temp_name ''node.key'' m)" for m
    using c unfolding temp_name_relative by simp_all
  ultimately show ?thesis using c sample_paths_apart by (simp add: agent_paths_ok_def sample_agent_def Let_def)
qed

definition sample_peers :: "int \<Rightarrow> string \<Rightarrow> peer_list_update" where
  "sample_peers v name = \<lparr>pu_subject_node = ''n1'', pu_peers = [\<lparr>pe_name = name, pe_overlay_ip = ''10.0.0.1'',
     pe_allowed_ips = [''10.0.0.1/32''], pe_pubkey = ''k'', pe_endpoint_host = [], pe_keepalive = 25, pe_protocol = []\<rparr>],
     pu_version = v\<rparr>"

definition sample_agent_world :: agent_world where
  "sample_agent_world = \<lparr>aw_fs = \<lparr>fs_nodes = [], fs_faults = (\<lambda>_. None), fs_suffixes = (\<lambda>n. n)\<rparr>, aw_calls = [],
     aw_answer = (\<lambda>cs c. case c of CallApply s \<Rightarrow> if cs_peer_list_version s = 6 then AnswerError ''busy'' else AnswerOk | _ \<Rightarrow> AnswerOk)\<rparr>"

definition sample_events :: "(gotime \<times> agent_event) list" where
  "sample_events = [(1, PeersMsg (sample_peers 5 ''m1'')), (2, PeersMsg (sample_peers 4 ''m2'')), (3, PeersMsg (sample_peers 6 ''m3''))]"

text \<open>The third message is saved, the configurator refuses it, and the agent stops; the cache has the third state.\<close>

theorem Agent_last_known_good_witness:
  "case Agent_Run (\<lambda>_ _. None) sample_agent None None None sample_events sample_agent_world of (out, w') \<Rightarrow>
     out = Stopped (Some (ApplyFailed ''busy''))
     \<and> loaded ''state.json'' (aw_fs w') = Inr (withPeerList zero_state (sample_peers 6 ''m3''))"
proof -
  let ?run = "Agent_Run (\<lambda>_ _. None) sample_agent None None None sample_events sample_agent_world"
  obtain out w' where run: "?run = (out, w')" by fastforce
  have e: "fst ?run = Stopped (Some (ApplyFailed ''busy''))
      \<and> last_applied (aw_calls (snd ?run)) = Some (withPeerList zero_state (sample_peers 6 ''m3''))" by code_simp
  have l: "loaded (ac_state_path sample_agent) (aw_fs sample_agent_world) = Inr zero_state" by code_simp
  have "state_storable zero_state" "last_applied (aw_calls sample_agent_world) = None"
    "list_all (\<lambda>(_, ev). event_storable ev) sample_events" by code_simp+
  then have "loaded (ac_state_path sample_agent) (aw_fs w') =
      (case last_applied (aw_calls w') of None \<Rightarrow> loaded (ac_state_path sample_agent) (aw_fs sample_agent_world) | Some s \<Rightarrow> Inr s)"
    using l by (intro Agent_last_known_good [OF sample_agent_paths _ _ _ run]) auto
  then show ?thesis using e run by (simp add: sample_agent_def)
qed

section \<open>The newest update wins\<close>

definition peer_updates :: "(gotime \<times> agent_event) list \<Rightarrow> peer_list_update list" where
  "peer_updates evs = List.map_filter (\<lambda>(_, ev). case ev of PeersMsg u \<Rightarrow> Some u | _ \<Rightarrow> None) evs"

definition ownership_updates :: "(gotime \<times> agent_event) list \<Rightarrow> ownership_update list" where
  "ownership_updates evs = List.map_filter (\<lambda>(_, ev). case ev of OwnershipMsg u \<Rightarrow> Some u | _ \<Rightarrow> None) evs"

definition newest_peers :: "peer_list_update list \<Rightarrow> agent_state \<Rightarrow> bool" where
  "newest_peers us a \<longleftrightarrow> (ag_peer_snapshot_seen a \<longleftrightarrow> us \<noteq> []) \<and>
     (us \<noteq> [] \<longrightarrow> (\<exists>u \<in> set us. (\<forall>v \<in> set us. pu_version v \<le> pu_version u)
        \<and> cs_peers (ag_state a) = map cached_of_peer (pu_peers u) \<and> cs_peer_list_version (ag_state a) = pu_version u))"

definition newest_ownership :: "ownership_update list \<Rightarrow> agent_state \<Rightarrow> bool" where
  "newest_ownership us a \<longleftrightarrow> (ag_ownership_snapshot_seen a \<longleftrightarrow> us \<noteq> []) \<and>
     (us \<noteq> [] \<longrightarrow> (\<exists>u \<in> set us. (\<forall>v \<in> set us. ou_version v \<le> ou_version u)
        \<and> cs_ownership (ag_state a) = map cached_of_owner (ou_entries u) \<and> cs_ownership_version (ag_state a) = ou_version u))"

lemma save_and_apply_running: "save_and_apply a changed w = (Running a', w') \<Longrightarrow> a' = a"
  by (auto simp: save_and_apply_def split: if_splits sum.splits prod.splits)

lemma run_event_newest:
  assumes run: "run_event pairError now ev a w = (Running a', w')" and "newest_peers us a" and "newest_ownership os a"
  shows "newest_peers (us @ peer_updates [(now, ev)]) a' \<and> newest_ownership (os @ ownership_updates [(now, ev)]) a'"
proof (cases ev)
  case (PeersMsg u)
  obtain s changed where u: "(if ag_peer_snapshot_seen a then WithPeerList (ag_state a) (Some u)
      else WithPeerListSnapshot (ag_state a) (Some u)) = (s, changed)" by fastforce
  have a': "a' = a\<lparr>ag_state := s, ag_peer_snapshot_seen := True\<rparr>"
    using run u PeersMsg by (auto simp: run_event_def dest: save_and_apply_running)
  have other: "cs_ownership s = cs_ownership (ag_state a)" "cs_ownership_version s = cs_ownership_version (ag_state a)"
    using u by (auto simp: WithPeerList_def WithPeerListSnapshot_def withPeerList_def split: if_splits)
  have "newest_peers (us @ [u]) a'"
  proof (cases "us = []")
    case True
    then show ?thesis
      using u assms(2) by (auto simp: newest_peers_def a' WithPeerListSnapshot_def withPeerList_def)
  next
    case False
    then obtain m where m: "m \<in> set us" "\<forall>v \<in> set us. pu_version v \<le> pu_version m"
      "cs_peers (ag_state a) = map cached_of_peer (pu_peers m)" "cs_peer_list_version (ag_state a) = pu_version m"
      and seen: "ag_peer_snapshot_seen a" using assms(2) by (auto simp: newest_peers_def)
    show ?thesis
    proof (cases "pu_version u \<le> pu_version m")
      case True
      then show ?thesis using u seen m by (auto simp: newest_peers_def a' WithPeerList_def intro!: bexI [of _ m])
    next
      case newer: False
      then show ?thesis
        using u seen m by (auto simp: newest_peers_def a' WithPeerList_def withPeerList_def intro!: bexI [of _ u])
    qed
  qed
  then show ?thesis
    using PeersMsg assms(3) other by (auto simp: peer_updates_def ownership_updates_def map_filter_simps newest_ownership_def a')
next
  case (OwnershipMsg u)
  obtain s changed where u: "(if ag_ownership_snapshot_seen a then WithOwnership (ag_state a) (Some u)
      else WithOwnershipSnapshot (ag_state a) (Some u)) = (s, changed)" by fastforce
  have a': "a' = a\<lparr>ag_state := s, ag_ownership_snapshot_seen := True\<rparr>"
    using run u OwnershipMsg by (auto simp: run_event_def dest: save_and_apply_running)
  have other: "cs_peers s = cs_peers (ag_state a)" "cs_peer_list_version s = cs_peer_list_version (ag_state a)"
    using u by (auto simp: WithOwnership_def WithOwnershipSnapshot_def withOwnership_def split: if_splits)
  have "newest_ownership (os @ [u]) a'"
  proof (cases "os = []")
    case True
    then show ?thesis
      using u assms(3) by (auto simp: newest_ownership_def a' WithOwnershipSnapshot_def withOwnership_def)
  next
    case False
    then obtain m where m: "m \<in> set os" "\<forall>v \<in> set os. ou_version v \<le> ou_version m"
      "cs_ownership (ag_state a) = map cached_of_owner (ou_entries m)" "cs_ownership_version (ag_state a) = ou_version m"
      and seen: "ag_ownership_snapshot_seen a" using assms(3) by (auto simp: newest_ownership_def)
    show ?thesis
    proof (cases "ou_version u \<le> ou_version m")
      case True
      then show ?thesis using u seen m by (auto simp: newest_ownership_def a' WithOwnership_def intro!: bexI [of _ m])
    next
      case newer: False
      then show ?thesis
        using u seen m by (auto simp: newest_ownership_def a' WithOwnership_def withOwnership_def intro!: bexI [of _ u])
    qed
  qed
  then show ?thesis
    using OwnershipMsg assms(2) other by (auto simp: peer_updates_def ownership_updates_def map_filter_simps newest_peers_def a')
next
  case (CertMsg u)
  then show ?thesis
    using run assms(2,3)
    by (auto simp: run_event_def peer_updates_def ownership_updates_def map_filter_simps newest_peers_def newest_ownership_def Let_def
        split: sum.splits prod.splits)
qed (use run in \<open>auto simp: run_event_def split: if_splits\<close>)

lemma run_events_newest:
  assumes "run_events pairError evs (Running a, w) = (Running a', w')" and "newest_peers us a" and "newest_ownership os a"
  shows "newest_peers (us @ peer_updates evs) a' \<and> newest_ownership (os @ ownership_updates evs) a'"
  using assms
proof (induction evs arbitrary: a w us os)
  case Nil
  then show ?case by (simp add: peer_updates_def ownership_updates_def map_filter_simps)
next
  case (Cons e evs)
  obtain now ev where e: "e = (now, ev)" by fastforce
  obtain o1 w1 where r: "run_event pairError now ev a w = (o1, w1)" by fastforce
  show ?case
  proof (cases o1)
    case (Stopped x)
    then have "run_events pairError evs (o1, w1) = (Stopped x, w1)" by (cases evs) auto
    then show ?thesis using Cons.prems(1) e r by simp
  next
    case (Running a1)
    have split: "peer_updates (e # evs) = peer_updates [(now, ev)] @ peer_updates evs"
      "ownership_updates (e # evs) = ownership_updates [(now, ev)] @ ownership_updates evs"
      by (auto simp: e peer_updates_def ownership_updates_def map_filter_simps split: option.split agent_event.split)
    show ?thesis
      using Cons.IH [of a1 w1 "us @ peer_updates [(now, ev)]" "os @ ownership_updates [(now, ev)]"]
        run_event_newest [of pairError now ev a w a1 w1 us os] Cons.prems r Running
      by (simp add: split [unfolded e] e)
  qed
qed

text \<open>
  C0. A running agent has the newest data of each stream. Once peer lists have arrived, its peers are those of one of
  them whose version no other exceeds, and likewise for ownership, however the messages of the streams are
  interleaved and whatever the cache held before.
\<close>

theorem Agent_newest_wins:
  assumes "Agent_Run pairError cfg peerErr ownershipErr certErr evs w = (Running a, w')"
  shows "(peer_updates evs \<noteq> [] \<longrightarrow> (\<exists>u \<in> set (peer_updates evs).
        (\<forall>v \<in> set (peer_updates evs). pu_version v \<le> pu_version u)
        \<and> cs_peers (ag_state a) = map cached_of_peer (pu_peers u) \<and> cs_peer_list_version (ag_state a) = pu_version u))
    \<and> (ownership_updates evs \<noteq> [] \<longrightarrow> (\<exists>u \<in> set (ownership_updates evs).
        (\<forall>v \<in> set (ownership_updates evs). ou_version v \<le> ou_version u)
        \<and> cs_ownership (ag_state a) = map cached_of_owner (ou_entries u) \<and> cs_ownership_version (ag_state a) = ou_version u))"
proof -
  obtain o1 w1 where s: "run_start cfg peerErr ownershipErr certErr w = (o1, w1)" by fastforce
  have "\<exists>a0. o1 = Running a0"
    using assms s by (cases o1; cases evs) (auto simp: Agent_Run_def)
  then obtain a0 where a0: "o1 = Running a0" by blast
  then have "\<not> ag_peer_snapshot_seen a0" "\<not> ag_ownership_snapshot_seen a0"
    using s by (auto simp: run_start_def split: sum.splits prod.splits option.splits if_splits)
  then have "newest_peers [] a0" "newest_ownership [] a0" by (simp_all add: newest_peers_def newest_ownership_def)
  from run_events_newest [OF _ this, of pairError evs w1 a w'] show ?thesis
    using assms s a0 by (auto simp: Agent_Run_def newest_peers_def newest_ownership_def)
qed

theorem Agent_newest_wins_witness:
  "\<exists>a w'. Agent_Run (\<lambda>_ _. None) sample_agent None None None (take 2 sample_events) sample_agent_world = (Running a, w')
     \<and> cs_peer_list_version (ag_state a) = 5"
proof -
  let ?run = "Agent_Run (\<lambda>_ _. None) sample_agent None None None (take 2 sample_events) sample_agent_world"
  have run: "case fst ?run of Running _ \<Rightarrow> True | Stopped _ \<Rightarrow> False" by code_simp
  obtain a w' where a: "?run = (Running a, w')" using run by (cases ?run; cases "fst ?run") auto
  have us: "peer_updates (take 2 sample_events) = [sample_peers 5 ''m1'', sample_peers 4 ''m2'']" by code_simp
  obtain u where u: "u \<in> {sample_peers 5 ''m1'', sample_peers 4 ''m2''}" "pu_version (sample_peers 5 ''m1'') \<le> pu_version u"
      "cs_peer_list_version (ag_state a) = pu_version u"
    using Agent_newest_wins [OF a] us by auto
  then have "pu_version u = 5" by (auto simp: sample_peers_def)
  then show ?thesis using a u(3) by auto
qed

end
