(* ===== verification/Spec2Isabelle.thy ===== *)
theory Spec2Isabelle
  imports AllowedIPs Migrate Balancer_Engine Ingress_SNI Ingress_Forward CP_Fanout CP_Audit CP_Cert Rotation CP_Server_Props Awg_Gen WG_Listener Client_Agent
begin

text \<open>
  A verification development of awg-mesh, a WireGuard/AmneziaWG mesh controller written in Go
  (\<open>src/\<close>). All definitions are shallow: a Go function is a HOL function with the same name, a struct is a record,
  an error is a constructor of the error type of its package, and a function that returns a value and an error
  returns a sum. State, the clock, random numbers, the file system and the answers of the network are passed
  explicitly. Third-party code (the YAML decoder, X.509, the curve, gRPC, the WireGuard driver) is a parameter.

  \<^bold>\<open>The program and its parts.\<close>
  An operator describes the mesh in a topology file (\<open>pkg/topology\<close>): overlay ranges, masters, endpoints,
  clients. Masters run the control plane (\<open>pkg/control_plane\<close>), which registers the nodes, keeps the ledger of
  which master owns which overlay address, and streams peer lists, ownership, certificates and rotations of the
  obfuscation parameters (\<open>pkg/rotation\<close>, \<open>pkg/awggen\<close>). A node agent (\<open>pkg/clientd\<close>) applies them to its
  WireGuard device (\<open>pkg/wg\<close>). An ingress (\<open>pkg/ingress\<close>) forwards HTTP, WebSocket, TLS and UDP traffic by host
  name, and a balancer (\<open>pkg/balancer\<close>) chooses an egress for each flow.

  \<^bold>\<open>Libraries.\<close>
  \<^item> \<open>Prelude\<close>: results, 64-bit and 32-bit wrap-around, times, Go maps as association lists with distinct keys (the
    locale \<open>go_map\<close>), sorting.
  \<^item> \<open>Go_Strings\<close>, \<open>Go_Strconv\<close>, \<open>Go_Net\<close>, \<open>Go_Rand\<close>, \<open>Go_Encoding\<close>, \<open>Go_IO\<close>, \<open>Go_Float\<close>: the part of Go's standard
    library that the code uses, with the round trips of printing and parsing. \<open>Go_IO\<close> has a file system in which any
    call may fail, so that a statement about all systems covers all failures.
  \<^item> \<open>Contracts\<close>: locales for what several components promise (a stable normal form, a registry of immutable
    snapshots, a tracker of target health), interpreted by the balancer and by the ingress.

  \<^bold>\<open>Components.\<close>
  \<^item> \<open>Role\<close>, \<open>Topology\<close>, \<open>Ranges\<close>, \<open>Topology_Validate\<close>, \<open>AllowedIPs\<close>, \<open>Migrate\<close> (\<open>pkg/role\<close>, \<open>pkg/topology\<close>): the validators
    accept exactly the topologies of a declarative specification, the allocator returns the first free usable address,
    the migration keeps every node, and the AllowedIPs of a peer are its hosts.
  \<^item> \<open>Balancer\<close>, \<open>Balancer_Engine\<close> (\<open>pkg/balancer\<close>): a selection is a healthy egress allowed by the labels, flows stick,
    and the weighted round robin is fair.
  \<^item> \<open>Ingress\<close>, \<open>Ingress_SNI\<close>, \<open>Ingress_Forward\<close> (\<open>pkg/ingress\<close>): lookup by host name, the ClientHello parser (it never
    reads out of bounds and finds the name that was sent), and what is forwarded for each protocol.
  \<^item> \<open>CP_Registry\<close>, \<open>CP_Ledger\<close>, \<open>CP_Fanout\<close>, \<open>CP_Audit\<close>, \<open>CP_Cert\<close>, \<open>CP_Server\<close>, \<open>CP_Daemon\<close>, \<open>CP_Server_Props\<close>
    (\<open>pkg/control_plane\<close>): the data structures, then every RPC handler over the state of the server, and an inductive
    relation of server steps. Pinned certificates, unique overlays, complete drains and delivery of broadcasts are
    invariants of all call sequences; streams end with the current ledger in every reachable state.
  \<^item> \<open>Rotation\<close> (\<open>pkg/rotation/orchestrator.go\<close>): plans and their execution; the locale \<open>rotation_applier\<close> is the
    contract of an applier.
  \<^item> \<open>Awg_ISpec\<close>, \<open>Awg_Gen\<close> (\<open>pkg/awggen\<close>): the template language and the generator of obfuscation parameters.
  \<^item> \<open>WG_Config\<close>, \<open>WG_UAPI\<close>, \<open>WG_Listener\<close> (\<open>pkg/wg\<close>): keys and configuration files with their round trip, the text
    protocol of the control socket, and the two listeners of a master, which are never leaked.
  \<^item> \<open>Client_Cert\<close> (\<open>pkg/clientd/cert_update.go\<close>): certificate updates are installed completely or not at all.

  \<^bold>\<open>Bounds.\<close>
  Every loop of the code is a total function here. Loops with a bounded number of attempts keep the bound of the
  source (10000 names for a temporary file, the attempts of the padding generator, the depth of template expansion);
  a loop that walks addresses is bounded by the size of the range, and the walk is proved to be complete. Streaming
  handlers are split into rounds, and interleavings are sequences of steps.

  \<^bold>\<open>Not modelled.\<close>
  YAML reading and writing of topologies; sockets, probes and the serving loops of the ingress and the balancer;
  the creation of TUN devices (calls of amneziawg-go); packet capture; X.509 and gRPC set-up (\<open>pkg/tls\<close>, \<open>pkg/grpc\<close>);
  netlink, nftables, DSCP and eBPF programming (\<open>pkg/routing\<close>, \<open>pkg/nftables\<close>, \<open>pkg/ebpf\<close>); the DNS server
  (\<open>pkg/dns\<close>); RouterOS scripts (\<open>pkg/mikrotik\<close>); the rest of the node agent (\<open>pkg/clientd\<close>) and the assembly of
  nodes (\<open>pkg/node\<close>); rolling upgrades (\<open>pkg/upgrade\<close>); and the command line programs (\<open>cmd/\<close>).
\<close>

end
